(* ===== verification/Prelude.thy ===== *)
theory Prelude
  imports Main "HOL-Library.Word"
begin

section \<open>Shared vocabulary of the development\<close>

text \<open>
  What the component theories share: fallible results, the \<open>u64\<close> arithmetic of the Rust
  sources (\<open>saturating_add\<close>, \<open>checked_add\<close>, \<open>max\<close>), the \<open>str\<close> methods they call
  (\<open>trim\<close>, \<open>starts_with\<close>, \<open>strip_prefix\<close>, \<open>to_ascii_lowercase\<close>, ...) and generic lemmas
  on them. A Rust \<open>String\<close> is the list of its UTF-8 bytes, a HOL \<open>string\<close>; a Rust
  \<open>Result\<close> is a sum whose left side is the error.
\<close>

named_theorems rust_str \<open>unfolding rules of the string methods\<close>
named_theorems u64_simps \<open>unsigned 64 bit arithmetic over the natural numbers\<close>

type_synonym u64 = "64 word"
type_synonym u32 = "32 word"
type_synonym u16 = "16 word"

subsection \<open>Results\<close>

text \<open>The \<open>?\<close> operator: an error ends the computation.\<close>

definition rbind :: "'e + 'a \<Rightarrow> ('a \<Rightarrow> 'e + 'b) \<Rightarrow> 'e + 'b" where
  "rbind r f = (case r of Inl e \<Rightarrow> Inl e | Inr x \<Rightarrow> f x)"

lemma rbind_simps [simp]: "rbind (Inl e) f = Inl e" "rbind (Inr x) f = f x"
  by (simp_all add: rbind_def)

lemma rbind_InrE:
  assumes "rbind r f = Inr y"
  obtains x where "r = Inr x" "f x = Inr y"
  using assms by (cases r) auto

lemma rbind_split [split]:
  "P (rbind r f) \<longleftrightarrow> (\<forall>e. r = Inl e \<longrightarrow> P (Inl e)) \<and> (\<forall>x. r = Inr x \<longrightarrow> P (f x))"
  by (cases r) auto

lemma rbind_split_asm:
  "P (rbind r f) \<longleftrightarrow>
    \<not> ((\<exists>e. r = Inl e \<and> \<not> P (Inl e)) \<or> (\<exists>x. r = Inr x \<and> \<not> P (f x)))"
  by (cases r) auto

lemmas rbind_splits = rbind_split rbind_split_asm

text \<open>\<open>iter().map(f).collect::<Result<Vec<_>>>()\<close>: the first error wins.\<close>

fun collect_results :: "('a \<Rightarrow> 'e + 'b) \<Rightarrow> 'a list \<Rightarrow> 'e + 'b list" where
  "collect_results f [] = Inr []"
| "collect_results f (x # xs) = rbind (f x) (\<lambda>y. rbind (collect_results f xs) (\<lambda>ys. Inr (y # ys)))"

lemma collect_results_Inr:
  "collect_results f xs = Inr ys \<longleftrightarrow> map f xs = map Inr ys"
proof (induction xs arbitrary: ys)
  case Nil
  then show ?case by auto
next
  case (Cons x xs)
  show ?case
  proof (cases "collect_results f xs")
    case (Inl e)
    with Cons.IH have "map f xs \<noteq> map Inr zs" for zs
      by auto
    with Inl show ?thesis
      by (cases ys) (auto split: rbind_splits)
  next
    case (Inr zs)
    with Cons.IH [of zs] have "map f xs = map Inr zs"
      by blast
    with Inr show ?thesis
      by (cases ys) (auto simp: inj_map_eq_map inj_def split: rbind_splits)
  qed
qed

subsection \<open>Unsigned 64 bit arithmetic\<close>

definition u64_max :: u64 where
  "u64_max = 18446744073709551615"

definition saturating_add :: "u64 \<Rightarrow> u64 \<Rightarrow> u64" where
  "saturating_add a b = (if unat a + unat b < 2 ^ 64 then a + b else u64_max)"

definition checked_add :: "u64 \<Rightarrow> u64 \<Rightarrow> u64 option" where
  "checked_add a b = (if unat a + unat b < 2 ^ 64 then Some (a + b) else None)"

lemma unat_u64_max [u64_simps]: "unat u64_max = 2 ^ 64 - 1"
  by (simp add: u64_max_def)

lemma unat_le_u64: "unat (a :: u64) \<le> 2 ^ 64 - 1"
  using unsigned_less [of a, where ?'a = nat] by simp

lemma le_u64_max [simp]: "a \<le> u64_max"
  using unat_le_u64 [of a] by (simp add: word_le_nat_alt unat_u64_max)

text \<open>Code equations that stay on machine words (no unary \<open>2 ^ 64\<close>).\<close>

lemma add_fits_u64: "unat a + unat b < 2 ^ 64 \<longleftrightarrow> (b :: u64) \<le> u64_max - a"
proof -
  have "unat (u64_max - a) = 2 ^ 64 - 1 - unat a"
    using le_u64_max [of a] by (simp add: unat_sub unat_u64_max)
  then show ?thesis
    using unat_le_u64 [of a] unat_le_u64 [of b] by (auto simp: word_le_nat_alt)
qed

lemma saturating_add_code [code]:
  "saturating_add a b = (if b \<le> u64_max - a then a + b else u64_max)"
  unfolding saturating_add_def add_fits_u64 by simp

lemma checked_add_code [code]:
  "checked_add a b = (if b \<le> u64_max - a then Some (a + b) else None)"
  unfolding checked_add_def add_fits_u64 by simp

lemma unat_saturating_add [u64_simps]:
  "unat (saturating_add a b) = min (unat a + unat b) (2 ^ 64 - 1)"
  by (auto simp: saturating_add_def unat_word_ariths unat_u64_max)

lemma saturating_add_ge: "a \<le> saturating_add a b"
  using unat_le_u64 [of a] by (simp add: word_le_nat_alt unat_saturating_add)

lemma saturating_add_gt: "a < u64_max \<Longrightarrow> 0 < b \<Longrightarrow> a < saturating_add a b"
  by (simp add: word_less_nat_alt unat_saturating_add unat_u64_max)

lemma checked_add_Some:
  "checked_add a b = Some c \<longleftrightarrow> unat c = unat a + unat b"
proof
  assume "checked_add a b = Some c"
  then show "unat c = unat a + unat b"
    by (auto simp: checked_add_def unat_word_ariths split: if_splits)
next
  assume c: "unat c = unat a + unat b"
  then have "unat a + unat b < 2 ^ 64"
    using unsigned_less [of c, where ?'a = nat] by simp
  moreover from this c have "c = a + b"
    by (simp add: word_unat_eq_iff unat_word_ariths)
  ultimately show "checked_add a b = Some c"
    by (simp add: checked_add_def)
qed

lemma checked_add_None:
  "checked_add a b = None \<longleftrightarrow> 2 ^ 64 \<le> unat a + unat b"
  by (auto simp: checked_add_def)

lemma checked_succ_Some: "checked_add a 1 = Some b \<Longrightarrow> a < b"
  by (simp add: checked_add_Some word_less_nat_alt)

lemma checked_succ_pos: "checked_add a 1 = Some b \<Longrightarrow> 0 < b"
  using checked_succ_Some word_neq_0_conv by fastforce

lemma checked_succ_None: "checked_add a 1 = None \<longleftrightarrow> a = u64_max"
  using unat_le_u64 [of a]
  by (auto simp: checked_add_None word_unat_eq_iff unat_u64_max)

lemma checked_succ_saturating: "checked_add a 1 = Some b \<Longrightarrow> saturating_add a 1 = b"
  by (auto simp: checked_add_def saturating_add_def split: if_splits)

lemma max_one_pos [simp]: "0 < max (t :: u64) 1"
  by (simp add: max_def word_less_nat_alt word_le_nat_alt)

subsection \<open>Lists\<close>

lemma in_map_filter: "y \<in> set (List.map_filter f xs) \<longleftrightarrow> (\<exists>x \<in> set xs. f x = Some y)"
  by (induction xs) (auto simp: map_filter_simps split: option.splits)

end
