(* ===== verification/RustStr.thy ===== *)
theory RustStr
  imports Prelude
begin

section \<open>The string methods of the Rust standard library\<close>

text \<open>
  Strings are lists of UTF-8 bytes. The methods below are the ones the modelled sources call.
  \<open>trim\<close> removes the characters with the Unicode property \<open>White_Space\<close>: each of them is
  listed by its UTF-8 encoding in \<open>ws_seqs\<close>, and since UTF-8 is self-synchronising, removing
  such a byte sequence at the border of a valid string removes exactly that character.
\<close>

definition starts_with :: "'a list \<Rightarrow> 'a list \<Rightarrow> bool" where
  "starts_with s p \<longleftrightarrow> take (length p) s = p"

definition ends_with :: "'a list \<Rightarrow> 'a list \<Rightarrow> bool" where
  "ends_with s p \<longleftrightarrow> length p \<le> length s \<and> drop (length s - length p) s = p"

definition strip_prefix :: "'a list \<Rightarrow> 'a list \<Rightarrow> 'a list option" where
  "strip_prefix s p = (if starts_with s p then Some (drop (length p) s) else None)"

definition strip_suffix :: "'a list \<Rightarrow> 'a list \<Rightarrow> 'a list option" where
  "strip_suffix s p = (if ends_with s p then Some (take (length s - length p) s) else None)"

fun str_contains :: "'a list \<Rightarrow> 'a list \<Rightarrow> bool" where
  "str_contains [] p = (p = [])"
| "str_contains (c # s) p = (starts_with (c # s) p \<or> str_contains s p)"

lemma starts_with_iff: "starts_with s p \<longleftrightarrow> (\<exists>r. s = p @ r)"
  by (auto simp: starts_with_def) (metis append_take_drop_id)

lemma ends_with_iff: "ends_with s p \<longleftrightarrow> (\<exists>r. s = r @ p)"
proof
  assume "ends_with s p"
  then show "\<exists>r. s = r @ p"
    unfolding ends_with_def by (metis append_take_drop_id)
qed (auto simp: ends_with_def)

lemma strip_prefix_Some: "strip_prefix s p = Some r \<longleftrightarrow> s = p @ r"
  by (auto simp: strip_prefix_def starts_with_iff)

lemma strip_suffix_Some: "strip_suffix s p = Some r \<longleftrightarrow> s = r @ p"
  by (auto simp: strip_suffix_def ends_with_iff)

lemma strip_suffix_append [simp]: "strip_suffix (s @ p) p = Some s"
  by (simp add: strip_suffix_Some)

lemma starts_with_refl [simp]: "starts_with s s" "starts_with s []"
  by (simp_all add: starts_with_def)

lemma str_contains_iff: "str_contains s p \<longleftrightarrow> (\<exists>a b. s = a @ p @ b)"
proof (induction s)
  case Nil
  then show ?case by auto
next
  case (Cons c s)
  show ?case
  proof
    assume "str_contains (c # s) p"
    then consider "starts_with (c # s) p" | "str_contains s p" by auto
    then show "\<exists>a b. c # s = a @ p @ b"
    proof cases
      case 1
      then obtain r where "c # s = [] @ p @ r" by (auto simp: starts_with_iff)
      then show ?thesis by blast
    next
      case 2
      with Cons.IH obtain a b where "s = a @ p @ b" by auto
      then have "c # s = (c # a) @ p @ b" by simp
      then show ?thesis by blast
    qed
  next
    assume "\<exists>a b. c # s = a @ p @ b"
    then obtain a b where ab: "c # s = a @ p @ b" by blast
    show "str_contains (c # s) p"
    proof (cases a)
      case Nil
      with ab have "starts_with (c # s) p" by (simp add: starts_with_def)
      then show ?thesis by simp
    next
      case (Cons x xs)
      with ab have "s = xs @ p @ b" by simp
      with Cons.IH show ?thesis by auto
    qed
  qed
qed

lemma str_contains_single: "str_contains s [c] \<longleftrightarrow> c \<in> set s"
proof
  assume "c \<in> set s"
  then obtain a b where "s = a @ c # b" by (auto dest: split_list)
  then show "str_contains s [c]" by (auto simp: str_contains_iff)
qed (auto simp: str_contains_iff)

subsection \<open>Trimming\<close>

definition ws_seqs :: "string list" where
  "ws_seqs =
    [[CHR 0x09], [CHR 0x0A], [CHR 0x0B], [CHR 0x0C], [CHR 0x0D], [CHR 0x20],
     [CHR 0xC2, CHR 0x85], [CHR 0xC2, CHR 0xA0], [CHR 0xE1, CHR 0x9A, CHR 0x80],
     [CHR 0xE2, CHR 0x80, CHR 0x80], [CHR 0xE2, CHR 0x80, CHR 0x81],
     [CHR 0xE2, CHR 0x80, CHR 0x82], [CHR 0xE2, CHR 0x80, CHR 0x83],
     [CHR 0xE2, CHR 0x80, CHR 0x84], [CHR 0xE2, CHR 0x80, CHR 0x85],
     [CHR 0xE2, CHR 0x80, CHR 0x86], [CHR 0xE2, CHR 0x80, CHR 0x87],
     [CHR 0xE2, CHR 0x80, CHR 0x88], [CHR 0xE2, CHR 0x80, CHR 0x89],
     [CHR 0xE2, CHR 0x80, CHR 0x8A], [CHR 0xE2, CHR 0x80, CHR 0xA8],
     [CHR 0xE2, CHR 0x80, CHR 0xA9], [CHR 0xE2, CHR 0x80, CHR 0xAF],
     [CHR 0xE2, CHR 0x81, CHR 0x9F], [CHR 0xE3, CHR 0x80, CHR 0x80]]"

lemma ws_seqs_nonempty: "w \<in> set ws_seqs \<Longrightarrow> w \<noteq> []"
  by (auto simp: ws_seqs_def)

lemma find_SomeD: "find P xs = Some x \<Longrightarrow> P x \<and> x \<in> set xs"
  by (induction xs) (auto split: if_splits)

function trim_start :: "string \<Rightarrow> string" where
  "trim_start s = (case find (starts_with s) ws_seqs of
     None \<Rightarrow> s | Some w \<Rightarrow> trim_start (drop (length w) s))"
  by pat_completeness auto
termination
proof (relation "measure length")
  fix s w
  assume "find (starts_with s) ws_seqs = Some w"
  then have "starts_with s w" "w \<noteq> []"
    using ws_seqs_nonempty by (auto dest: find_SomeD)
  then show "(drop (length w) s, s) \<in> measure length"
    by (auto simp: starts_with_iff)
qed simp

function trim_end :: "string \<Rightarrow> string" where
  "trim_end s = (case find (ends_with s) ws_seqs of
     None \<Rightarrow> s | Some w \<Rightarrow> trim_end (take (length s - length w) s))"
  by pat_completeness auto
termination
proof (relation "measure length")
  fix s w
  assume "find (ends_with s) ws_seqs = Some w"
  then have "ends_with s w" "w \<noteq> []"
    using ws_seqs_nonempty by (auto dest: find_SomeD)
  then show "(take (length s - length w) s, s) \<in> measure length"
    by (auto simp: ends_with_iff)
qed simp

declare trim_start.simps [simp del] trim_end.simps [simp del]

definition trim :: "string \<Rightarrow> string" where
  "trim s = trim_end (trim_start s)"

lemma trim_start_suffix: "\<exists>p. s = p @ trim_start s"
proof (induction s rule: trim_start.induct)
  case (1 s)
  show ?case
  proof (cases "find (starts_with s) ws_seqs")
    case None
    then show ?thesis by (simp add: trim_start.simps [of s])
  next
    case (Some w)
    then have "s = w @ drop (length w) s"
      by (auto dest!: find_SomeD simp: starts_with_iff)
    with "1.IH" [OF Some] Some show ?thesis
      by (metis append.assoc option.simps(5) trim_start.simps)
  qed
qed

lemma trim_end_prefix: "\<exists>p. s = trim_end s @ p"
proof (induction s rule: trim_end.induct)
  case (1 s)
  show ?case
  proof (cases "find (ends_with s) ws_seqs")
    case None
    then show ?thesis by (simp add: trim_end.simps [of s])
  next
    case (Some w)
    then have "s = take (length s - length w) s @ w"
      by (auto dest!: find_SomeD simp: ends_with_iff)
    with "1.IH" [OF Some] Some show ?thesis
      by (metis append.assoc option.simps(5) trim_end.simps)
  qed
qed

lemma trim_infix: "\<exists>p q. s = p @ trim s @ q"
  using trim_start_suffix [of s] trim_end_prefix [of "trim_start s"]
  unfolding trim_def by metis

lemma trim_Nil [simp]: "trim [] = []"
  using trim_infix [of "[]"] by simp

definition graphic :: "char \<Rightarrow> bool" where
  "graphic c \<longleftrightarrow> 33 \<le> (of_char c :: nat) \<and> (of_char c :: nat) \<le> 126"

lemma ws_seqs_not_graphic: "w \<in> set ws_seqs \<Longrightarrow> c \<in> set w \<Longrightarrow> \<not> graphic c"
  by (auto simp: ws_seqs_def graphic_def)

lemma trim_graphic:
  assumes "\<forall>c \<in> set s. graphic c"
  shows "trim s = s"
proof -
  have no: "\<not> starts_with s w \<and> \<not> ends_with s w" if "w \<in> set ws_seqs" for w
    using that assms ws_seqs_nonempty [OF that] ws_seqs_not_graphic [OF that]
    by (fastforce simp: starts_with_iff ends_with_iff neq_Nil_conv)
  then have "find (starts_with s) ws_seqs = None" "find (ends_with s) ws_seqs = None"
    by (auto simp: find_None_iff)
  then show ?thesis by (simp add: trim_def trim_start.simps [of s] trim_end.simps [of s])
qed

text \<open>\<open>trim_matches\<close> and \<open>trim_end_matches\<close> with a predicate on (ASCII) characters.\<close>

definition trim_end_matches :: "('a \<Rightarrow> bool) \<Rightarrow> 'a list \<Rightarrow> 'a list" where
  "trim_end_matches P s = rev (dropWhile P (rev s))"

definition trim_matches :: "('a \<Rightarrow> bool) \<Rightarrow> 'a list \<Rightarrow> 'a list" where
  "trim_matches P s = trim_end_matches P (dropWhile P s)"

subsection \<open>ASCII case\<close>

definition to_ascii_lower :: "char \<Rightarrow> char" where
  "to_ascii_lower c =
    (if 65 \<le> (of_char c :: nat) \<and> (of_char c :: nat) \<le> 90
     then char_of ((of_char c :: nat) + 32) else c)"

definition to_ascii_lowercase :: "string \<Rightarrow> string" where
  "to_ascii_lowercase s = map to_ascii_lower s"

definition eq_ignore_ascii_case :: "string \<Rightarrow> string \<Rightarrow> bool" where
  "eq_ignore_ascii_case a b \<longleftrightarrow> to_ascii_lowercase a = to_ascii_lowercase b"

definition is_ascii_digit :: "char \<Rightarrow> bool" where
  "is_ascii_digit c \<longleftrightarrow> 48 \<le> (of_char c :: nat) \<and> (of_char c :: nat) \<le> 57"

lemma of_char_lt_256 [simp]: "(of_char c :: nat) < 256"
  using of_char_mod_256 [of c, where ?'a = nat]
  by (metis mod_less_divisor zero_less_numeral)

lemma to_ascii_lower_idem [simp]: "to_ascii_lower (to_ascii_lower c) = to_ascii_lower c"
  by (auto simp: to_ascii_lower_def of_char_of)

lemma to_ascii_lowercase_idem [simp]:
  "to_ascii_lowercase (to_ascii_lowercase s) = to_ascii_lowercase s"
  by (simp add: to_ascii_lowercase_def)

end
