(* ===== verification/RunTypes.thy ===== *)
theory RunTypes
  imports RustStr
begin

section \<open>Value types shared by pVisor, pPilot and pChronicle\<close>

text \<open>
  The control plane records of \<open>persisting-agentctl/src/runtime.rs\<close>, the outcome enums of the
  control store, and the file name encoding of run identifiers. \<open>RunId\<close>, \<open>AttemptId\<close> and
  \<open>StorylineId\<close> are transparent wrappers of \<open>String\<close>. Record fields carry a short prefix
  (\<open>l_\<close> lease, \<open>rq_\<close> commit request, \<open>c_\<close> commit, \<open>rc_\<close> control record), since several
  structs of the source share field names.
\<close>

type_synonym RunId = string
type_synonym AttemptId = string
type_synonym StorylineId = string

definition id_is_empty :: "string \<Rightarrow> bool" where
  "id_is_empty v \<longleftrightarrow> trim v = []"

datatype RunState =
    RunCreated | RunStarting | RunRunning | RunCheckpointing | RunSuspended | RunCancelling
  | RunCompleted | RunFailed | RunCancelled

definition is_terminal :: "RunState \<Rightarrow> bool" where
  "is_terminal s = (case s of RunCompleted \<Rightarrow> True | RunFailed \<Rightarrow> True | RunCancelled \<Rightarrow> True
     | _ \<Rightarrow> False)"

lemma is_terminal_iff: "is_terminal s \<longleftrightarrow> s \<in> {RunCompleted, RunFailed, RunCancelled}"
  by (cases s) (simp_all add: is_terminal_def)

record RunLeaseRecord =
  l_run_id :: RunId
  l_task_id :: "string option"
  l_epoch :: u64
  l_owner :: string
  l_issued_at_unix_ms :: u64
  l_expires_at_unix_ms :: u64
  l_attempt_id :: "AttemptId option"

record RunCommitRequest =
  rq_run_id :: RunId
  rq_task_id :: "string option"
  rq_attempt_id :: AttemptId
  rq_lease_epoch :: u64
  rq_state :: RunState
  rq_event_high_watermark :: "u64 option"
  rq_result_digest :: string

record RunCommit =
  c_request :: RunCommitRequest
  c_committed_at_unix_ms :: u64

record RunControlRecord =
  rc_revision :: u64
  rc_run_id :: RunId
  rc_lease :: "RunLeaseRecord option"
  rc_commit :: "RunCommit option"

datatype LeaseAcquireOutcome =
    Acquired RunLeaseRecord
  | Held RunLeaseRecord
  | LeaseAlreadyCommitted RunCommit

datatype CommitRunOutcome =
    Committed RunCommit
  | AlreadyCommitted RunCommit
  | StaleLease u64 "u64 option"
  | Conflict RunCommit

subsection \<open>File names of control records\<close>

text \<open>
  \<open>encoded_run_id\<close> (and the identical \<open>encoded_id\<close> of the attempt registry) keeps letters,
  digits and \<open>-_.\<close>, and writes every other byte as \<open>~\<close> and two lower case hexadecimal digits.
\<close>

definition id_byte_plain :: "char \<Rightarrow> bool" where
  "id_byte_plain c \<longleftrightarrow> (let b = (of_char c :: nat) in
     97 \<le> b \<and> b \<le> 122 \<or> 65 \<le> b \<and> b \<le> 90 \<or> 48 \<le> b \<and> b \<le> 57 \<or>
     c = CHR ''-'' \<or> c = CHR ''_'' \<or> c = CHR ''.'')"

definition hex_digit :: "nat \<Rightarrow> char" where
  "hex_digit n = char_of (if n < 10 then 48 + n else 87 + n)"

definition encode_id_byte :: "char \<Rightarrow> string" where
  "encode_id_byte c =
    (if id_byte_plain c then [c]
     else [CHR ''~'', hex_digit (of_char c div 16), hex_digit (of_char c mod 16)])"

definition encoded_run_id :: "RunId \<Rightarrow> string" where
  "encoded_run_id run_id = concat (map encode_id_byte run_id)"

definition record_path :: "RunId \<Rightarrow> string" where
  "record_path run_id = encoded_run_id run_id @ ''.json''"

text \<open>The inverse of the encoding, used in proofs only.\<close>

definition hex_value :: "char \<Rightarrow> nat" where
  "hex_value c = (let b = (of_char c :: nat) in if b < 58 then b - 48 else b - 87)"

fun decode_run_id :: "string \<Rightarrow> RunId" where
  "decode_run_id [] = []"
| "decode_run_id (c # s) =
    (if c = CHR ''~'' then
       (case s of a # b # r \<Rightarrow> char_of (16 * hex_value a + hex_value b) # decode_run_id r | _ \<Rightarrow> [])
     else c # decode_run_id s)"

lemma hex_value_digit [simp]: "n < 16 \<Longrightarrow> hex_value (hex_digit n) = n"
  by (simp add: hex_value_def hex_digit_def of_char_of Let_def)

lemma tilde_not_plain: "\<not> id_byte_plain (CHR ''~'')"
  by (simp add: id_byte_plain_def Let_def)

lemma decode_encode_byte: "decode_run_id (encode_id_byte c @ s) = c # decode_run_id s"
proof (cases "id_byte_plain c")
  case True
  with tilde_not_plain have "c \<noteq> CHR ''~''" by auto
  with True show ?thesis by (simp add: encode_id_byte_def)
next
  case False
  have "(of_char c :: nat) div 16 < 16"
    using of_char_lt_256 [of c] by linarith
  with False show ?thesis by (simp add: encode_id_byte_def)
qed

lemma decode_encoded_run_id: "decode_run_id (encoded_run_id run_id) = run_id"
  by (induction run_id) (simp_all add: encoded_run_id_def decode_encode_byte)

lemma encoded_run_id_inj [simp]: "encoded_run_id a = encoded_run_id b \<longleftrightarrow> a = b"
  by (metis decode_encoded_run_id)

lemma record_path_inj [simp]: "record_path a = record_path b \<longleftrightarrow> a = b"
  by (simp add: record_path_def)

lemma hex_digit_ok:
  assumes "n < 16"
  shows "hex_digit n = CHR ''~'' \<or> id_byte_plain (hex_digit n)"
  using assms by (auto simp: hex_digit_def id_byte_plain_def of_char_of Let_def)

lemma encoded_run_id_chars:
  "c \<in> set (encoded_run_id run_id) \<Longrightarrow> c = CHR ''~'' \<or> id_byte_plain c"
proof (induction run_id)
  case (Cons x xs)
  have "(of_char x :: nat) div 16 < 16"
    using of_char_lt_256 [of x] by linarith
  with Cons show ?case
    using hex_digit_ok [of "of_char x div 16"] hex_digit_ok [of "of_char x mod 16"]
    by (auto simp: encoded_run_id_def encode_id_byte_def split: if_splits)
qed (simp add: encoded_run_id_def)

end
