(* ===== verification/RecordStore.thy ===== *)
theory RecordStore
  imports RustStr
begin

section \<open>Stores of one record per key\<close>

text \<open>
  The run control store and the attempt registry of pChronicle keep one JSON document per run and
  change it through the same private function \<open>mutate\<close>: a closure from the current record to a
  \<open>Mutation\<close>, applied by one of two backends. The local backend runs under an exclusive file
  lock, so a call is one atomic step on the directory (\<open>apply_mutation\<close>). The object store
  backend is a compare-and-swap loop (\<open>cas_mutate\<close>) in which other clients may act between the
  read and the conditional write; the store itself is the external \<open>object_store\<close> crate, given
  by its \<open>get\<close> and \<open>put_opts\<close> as arguments. \<open>write_local_record\<close> is modelled file system call by
  file system call, so that a crash may hit it anywhere.
\<close>

type_synonym clock = "nat \<Rightarrow> u64"

datatype ('r, 't) Mutation = Unchanged 't | Replace 'r 't

definition apply_mutation ::
  "('k \<rightharpoonup> 'r) \<Rightarrow> 'k \<Rightarrow> 'e + ('r, 't) Mutation \<Rightarrow> ('e + 't) \<times> ('k \<rightharpoonup> 'r)" where
  "apply_mutation dir path outcome =
    (case outcome of
       Inl e \<Rightarrow> (Inl e, dir)
     | Inr (Unchanged value) \<Rightarrow> (Inr value, dir)
     | Inr (Replace record value) \<Rightarrow> (Inr value, dir(path \<mapsto> record)))"

text \<open>
  The contract of an operation on the record of one key: what it stores is well formed when what
  it read was, and it only moves a record forward.
\<close>

locale record_op =
  fixes path :: 'k
    and mut :: "'r option \<Rightarrow> 'e + ('r, 't) Mutation"
    and wf :: "'r \<Rightarrow> bool"
    and adv :: "'r \<Rightarrow> 'r \<Rightarrow> bool"
  assumes replace_wf: "pred_option wf cur \<Longrightarrow> mut cur = Inr (Replace r v) \<Longrightarrow> wf r"
    and replace_adv: "wf a \<Longrightarrow> mut (Some a) = Inr (Replace r v) \<Longrightarrow> adv a r"
begin

lemma apply_cases:
  assumes "apply_mutation dir path (mut (dir path)) = (res, dir')"
  obtains (same) "dir' = dir"
  | (replaced) r v where "mut (dir path) = Inr (Replace r v)" "res = Inr v" "dir' = dir(path \<mapsto> r)"
  using assms by (auto simp: apply_mutation_def split: sum.splits Mutation.splits)

lemma apply_frame:
  assumes "apply_mutation dir path (mut (dir path)) = (res, dir')" and "p \<noteq> path"
  shows "dir' p = dir p"
  using assms(1) by (cases rule: apply_cases) (use assms(2) in auto)

lemma apply_wf:
  assumes "apply_mutation dir path (mut (dir path)) = (res, dir')" and "pred_option wf (dir path)"
  shows "pred_option wf (dir' path)"
  using assms(1) by (cases rule: apply_cases) (use assms(2) replace_wf in auto)

lemma apply_adv:
  assumes "apply_mutation dir path (mut (dir path)) = (res, dir')" and "pred_option wf (dir path)"
    and "dir p = Some a"
  shows "dir' p = Some a \<or> (\<exists>b. dir' p = Some b \<and> adv a b)"
proof (cases "p = path")
  case True
  with assms(1) show ?thesis
    by (cases rule: apply_cases) (use assms(2,3) replace_adv in auto)
qed (use assms(3) apply_frame [OF assms(1)] in simp)

end

subsection \<open>The compare-and-swap loop\<close>

definition CAS_RETRIES :: nat where
  "CAS_RETRIES = 32"

datatype ('r, 'v) get_result = GotRecord 'r 'v | GetNotFound | GetFailed

datatype 'v PutMode = PutCreate | PutUpdate 'v

datatype put_result = PutOk | PutAlreadyExists | PutPrecondition | PutFailed

text \<open>
  The object store as the loop uses it, and the interference of other clients: \<open>os_env i\<close> is
  what they do to the store between the read and the write of attempt \<open>i\<close>. The two errors are
  those the loop returns when the store fails and when the attempts are used up.
\<close>

record ('s, 'r, 'v, 'e) object_client =
  os_get :: "'s \<Rightarrow> string \<Rightarrow> ('r, 'v) get_result"
  os_put :: "'s \<Rightarrow> string \<Rightarrow> 'r \<Rightarrow> 'v PutMode \<Rightarrow> put_result \<times> 's"
  os_env :: "nat \<Rightarrow> 's \<Rightarrow> 's"
  os_failed :: 'e
  os_contention :: 'e

definition put_mode :: "('r, 'v) get_result \<Rightarrow> 'v PutMode" where
  "put_mode current = (case current of GotRecord _ version \<Rightarrow> PutUpdate version | _ \<Rightarrow> PutCreate)"

definition got_record :: "('r, 'v) get_result \<Rightarrow> 'r option" where
  "got_record current = (case current of GotRecord record _ \<Rightarrow> Some record | _ \<Rightarrow> None)"

fun cas_attempts ::
  "('s, 'r, 'v, 'e) object_client \<Rightarrow> nat \<Rightarrow> nat \<Rightarrow> string
   \<Rightarrow> (nat \<Rightarrow> 'r option \<Rightarrow> 'e + ('r, 't) Mutation) \<Rightarrow> 's \<Rightarrow> ('e + 't) \<times> 's" where
  "cas_attempts os 0 i path f s = (Inl (os_contention os), s)"
| "cas_attempts os (Suc n) i path f s =
    (case os_get os s path of
       GetFailed \<Rightarrow> (Inl (os_failed os), s)
     | current \<Rightarrow>
        (case f i (got_record current) of
           Inl e \<Rightarrow> (Inl e, s)
         | Inr (Unchanged value) \<Rightarrow> (Inr value, s)
         | Inr (Replace record value) \<Rightarrow>
            (case os_put os (os_env os i s) path record (put_mode current) of
               (PutOk, s') \<Rightarrow> (Inr value, s')
             | (PutAlreadyExists, s') \<Rightarrow> cas_attempts os n (Suc i) path f s'
             | (PutPrecondition, s') \<Rightarrow> cas_attempts os n (Suc i) path f s'
             | (PutFailed, s') \<Rightarrow> (Inl (os_failed os), s'))))"

definition cas_mutate ::
  "('s, 'r, 'v, 'e) object_client \<Rightarrow> string \<Rightarrow> (nat \<Rightarrow> 'r option \<Rightarrow> 'e + ('r, 't) Mutation) \<Rightarrow> 's
   \<Rightarrow> ('e + 't) \<times> 's" where
  "cas_mutate os path f s = cas_attempts os CAS_RETRIES 0 path f s"

text \<open>
  What the crate documents: \<open>Create\<close> succeeds only where there is no object, \<open>Update\<close> only where
  the object still has the given version; a successful put stores exactly the new object; a put
  rejected with \<open>AlreadyExists\<close> or \<open>Precondition\<close> changes nothing. Versions (entity tags) are
  not reused for other contents while a call runs.
\<close>

definition contents :: "('s, 'r, 'v, 'e) object_client \<Rightarrow> 's \<Rightarrow> string \<rightharpoonup> 'r" where
  "contents os s path = got_record (os_get os s path)"

definition conditional_put :: "('s, 'r, 'v, 'e) object_client \<Rightarrow> bool" where
  "conditional_put os \<longleftrightarrow>
    (\<forall>s path record mode res s'. os_put os s path record mode = (res, s') \<longrightarrow>
      (res = PutOk \<longrightarrow> contents os s' = (contents os s)(path \<mapsto> record) \<and>
         (case mode of PutCreate \<Rightarrow> os_get os s path = GetNotFound
          | PutUpdate v \<Rightarrow> \<exists>r. os_get os s path = GotRecord r v)) \<and>
      (res = PutAlreadyExists \<or> res = PutPrecondition \<longrightarrow> s' = s))"

definition versions_not_reused :: "('s, 'r, 'v, 'e) object_client \<Rightarrow> bool" where
  "versions_not_reused os \<longleftrightarrow>
    (\<forall>i s path r r' v. os_get os s path = GotRecord r v \<longrightarrow>
       os_get os (os_env os i s) path = GotRecord r' v \<longrightarrow> r' = r)"

text \<open>The store as other clients leave it after their first \<open>n\<close> interventions.\<close>

primrec env_run :: "('s, 'r, 'v, 'e) object_client \<Rightarrow> nat \<Rightarrow> nat \<Rightarrow> 's \<Rightarrow> 's" where
  "env_run os i 0 s = s"
| "env_run os i (Suc n) s = env_run os (Suc i) n (os_env os i s)"

subsection \<open>The loop is atomic\<close>

lemma cas_put_ok:
  assumes "conditional_put os" and "versions_not_reused os"
    and "os_get os s path \<noteq> GetFailed"
    and "os_put os (os_env os i s) path record (put_mode (os_get os s path)) = (PutOk, s')"
  shows "contents os s' = (contents os (os_env os i s))(path \<mapsto> record) \<and>
    contents os (os_env os i s) path = got_record (os_get os s path)"
proof -
  from assms(1,4) have *: "contents os s' = (contents os (os_env os i s))(path \<mapsto> record)"
    "case put_mode (os_get os s path) of PutCreate \<Rightarrow> os_get os (os_env os i s) path = GetNotFound
     | PutUpdate v \<Rightarrow> \<exists>r. os_get os (os_env os i s) path = GotRecord r v"
    unfolding conditional_put_def by blast+
  show ?thesis
  proof (cases "os_get os s path")
    case (GotRecord r v)
    with * assms(2) show ?thesis
      by (auto simp: put_mode_def contents_def got_record_def versions_not_reused_def)
  qed (use * assms(3) in \<open>auto simp: put_mode_def contents_def got_record_def\<close>)
qed

lemma cas_put_rejected:
  assumes "conditional_put os" and "os_put os s path record mode = (res, s')"
    and "res = PutAlreadyExists \<or> res = PutPrecondition"
  shows "s' = s"
  using assms unfolding conditional_put_def by blast

text \<open>
  A call that answers a value acted at one instant on the store that the other clients had made:
  its answer and its effect are those of the locked backend there.
\<close>

lemma cas_attempts_atomic:
  assumes "conditional_put os" and "versions_not_reused os"
    and "cas_attempts os n i path f s = (Inr value, s')"
  shows "\<exists>k. k \<le> n \<and> (\<exists>j. i \<le> j \<and> j < i + n \<and>
    apply_mutation (contents os (env_run os i k s)) path (f j (contents os (env_run os i k s) path))
      = (Inr value, contents os s'))"
  using assms(3)
proof (induction n arbitrary: i s)
  case (Suc n)
  note laws = assms(1,2)
  have got: "os_get os s path \<noteq> GetFailed" using Suc.prems by auto
  define cur where "cur = got_record (os_get os s path)"
  have cur: "cur = contents os s path" by (simp add: cur_def contents_def)
  show ?case
  proof (cases "f i cur")
    case (Inl e)
    with Suc.prems got show ?thesis by (cases "os_get os s path") (auto simp: cur_def)
  next
    case (Inr m)
    show ?thesis
    proof (cases m)
      case (Unchanged v)
      with Suc.prems got Inr have "v = value" "s' = s"
        by (cases "os_get os s path"; auto simp: cur_def)+
      with Inr Unchanged show ?thesis
        by (intro exI [of _ 0]) (auto simp: apply_mutation_def cur intro!: exI [of _ i])
    next
      case (Replace q v)
      obtain res s1 where put:
        "os_put os (os_env os i s) path q (put_mode (os_get os s path)) = (res, s1)" by fastforce
      show ?thesis
      proof (cases "res = PutAlreadyExists \<or> res = PutPrecondition")
        case True
        with cas_put_rejected [OF laws(1) put] Suc.prems got Inr Replace put
        have "cas_attempts os n (Suc i) path f (os_env os i s) = (Inr value, s')"
          by (cases "os_get os s path") (auto simp: cur_def)
        from Suc.IH [OF this] obtain k j where "k \<le> n" "Suc i \<le> j" "j < Suc i + n"
          "apply_mutation (contents os (env_run os (Suc i) k (os_env os i s))) path
             (f j (contents os (env_run os (Suc i) k (os_env os i s)) path)) = (Inr value, contents os s')"
          by blast
        then show ?thesis by (intro exI [of _ "Suc k"] conjI exI [of _ j]) auto
      next
        case False
        with Suc.prems got Inr Replace put have ok: "res = PutOk" "v = value" "s' = s1"
          by (cases "os_get os s path"; cases res; auto simp: cur_def)+
        from cas_put_ok [OF laws got put [unfolded ok(1)]] Inr Replace ok show ?thesis
          by (intro exI [of _ 1]) (auto simp: apply_mutation_def cur_def fun_upd_def intro!: exI [of _ i])
      qed
    qed
  qed
qed simp


text \<open>
  A store in operation: it answers, and it accepts a put whose precondition holds.
\<close>

definition store_serves :: "('s, 'r, 'v, 'e) object_client \<Rightarrow> bool" where
  "store_serves os \<longleftrightarrow>
    (\<forall>s path. os_get os s path \<noteq> GetFailed) \<and>
    (\<forall>s path q mode. fst (os_put os s path q mode) \<noteq> PutFailed \<and>
      (mode = put_mode (os_get os s path) \<longrightarrow> fst (os_put os s path q mode) = PutOk))"

definition quiet_attempt :: "('s, 'r, 'v, 'e) object_client \<Rightarrow> string \<Rightarrow> nat \<Rightarrow> bool" where
  "quiet_attempt os path j \<longleftrightarrow> (\<forall>s. os_get os (os_env os j s) path = os_get os s path)"

lemma cas_attempts_quiet:
  assumes laws: "conditional_put os" "versions_not_reused os" "store_serves os"
    and quiet: "quiet_attempt os path j" and range: "i \<le> j" "j < i + n"
  shows "\<exists>k j'. k \<le> Suc (j - i) \<and> i \<le> j' \<and> j' \<le> j \<and>
    (fst (cas_attempts os n i path f s), contents os (snd (cas_attempts os n i path f s))) =
     apply_mutation (contents os (env_run os i k s)) path (f j' (contents os (env_run os i k s) path))"
  using range
proof (induction n arbitrary: i s)
  case (Suc n)
  let ?go = "cas_attempts os (Suc n) i path f s"
  have got: "os_get os s path \<noteq> GetFailed" using laws(3) by (simp add: store_serves_def)
  define cur where "cur = got_record (os_get os s path)"
  have cur: "cur = contents os s path" by (simp add: cur_def contents_def)
  show ?case
  proof (cases "\<exists>q v. f i cur = Inr (Replace q v)")
    case False
    then have "?go = (fst ?go, s)" "(fst ?go, contents os s) = apply_mutation (contents os s) path (f i cur)"
      using got by (auto simp: cur_def apply_mutation_def split: get_result.splits sum.splits Mutation.splits)
    then show ?thesis
      using Suc.prems by (intro exI [of _ 0] exI [of _ i]) (auto simp: cur prod_eq_iff)
  next
    case True
    then obtain q v where rep: "f i cur = Inr (Replace q v)" by blast
    obtain res s1 where put:
      "os_put os (os_env os i s) path q (put_mode (os_get os s path)) = (res, s1)" by fastforce
    have step: "?go = (case res of PutOk \<Rightarrow> (Inr v, s1) | PutFailed \<Rightarrow> (Inl (os_failed os), s1)
        | _ \<Rightarrow> cas_attempts os n (Suc i) path f s1)"
      using got rep put by (auto simp: cur_def split: get_result.splits put_result.splits)
    show ?thesis
    proof (cases "res = PutOk")
      case True
      with cas_put_ok [OF laws(1,2) got] put
      have "contents os s1 = (contents os (os_env os i s))(path \<mapsto> q)"
        "contents os (os_env os i s) path = cur" by (auto simp: cur_def)
      with True step rep Suc.prems show ?thesis
        by (intro exI [of _ 1] exI [of _ i]) (auto simp: apply_mutation_def fun_upd_def)
    next
      case False
      moreover have "res \<noteq> PutFailed"
        using laws(3) put unfolding store_serves_def by (metis fst_conv)
      ultimately have rej: "res = PutAlreadyExists \<or> res = PutPrecondition" by (cases res) auto
      have s1: "s1 = os_env os i s" using cas_put_rejected [OF laws(1) put rej] .
      have "i \<noteq> j"
      proof
        assume "i = j"
        with quiet have "put_mode (os_get os s path) = put_mode (os_get os (os_env os i s) path)"
          by (simp add: quiet_attempt_def)
        with laws(3) put False show False unfolding store_serves_def by (metis fst_conv)
      qed
      with Suc.prems have "Suc i \<le> j" "j < Suc i + n" by auto
      from Suc.IH [OF this, of s1] obtain k j' where k: "k \<le> Suc (j - Suc i)" "Suc i \<le> j'" "j' \<le> j"
        "(fst ?go, contents os (snd ?go)) = apply_mutation (contents os (env_run os (Suc i) k s1)) path
          (f j' (contents os (env_run os (Suc i) k s1) path))"
        using rej step by (auto split: put_result.splits)
      show ?thesis
        using k \<open>Suc i \<le> j\<close> by (intro exI [of _ "Suc k"] exI [of _ j']) (auto simp: s1)
    qed
  qed
qed simp


text \<open>
  C7: The compare-and-swap loop is atomic. Against a store that keeps its documented conditional
  put, a call that answers a value has the answer and the effect of the locked backend, applied
  at one instant to the objects as the other clients have made them by then.
\<close>

theorem cas_mutate_atomic:
  assumes "conditional_put os" and "versions_not_reused os"
    and "cas_mutate os path f s = (Inr value, s')"
  shows "\<exists>k j. k \<le> 32 \<and> j < 32 \<and>
    apply_mutation (contents os (env_run os 0 k s)) path (f j (contents os (env_run os 0 k s) path))
      = (Inr value, contents os s')"
  using cas_attempts_atomic [OF assms(1,2)] assms(3) unfolding cas_mutate_def CAS_RETRIES_def by fastforce

text \<open>An object store that numbers the versions of an object, and a client that gets in once.\<close>

definition demo_os :: "(string \<rightharpoonup> nat \<times> nat, nat, nat, string) object_client" where
  "demo_os = \<lparr>
     os_get = (\<lambda>s path. case s path of None \<Rightarrow> GetNotFound | Some (q, v) \<Rightarrow> GotRecord q v),
     os_put = (\<lambda>s path q mode. case (mode, s path) of
         (PutCreate, None) \<Rightarrow> (PutOk, s(path \<mapsto> (q, 0)))
       | (PutCreate, Some _) \<Rightarrow> (PutAlreadyExists, s)
       | (PutUpdate _, None) \<Rightarrow> (PutPrecondition, s)
       | (PutUpdate v, Some (_, w)) \<Rightarrow> if v = w then (PutOk, s(path \<mapsto> (q, Suc w))) else (PutPrecondition, s)),
     os_env = (\<lambda>i s. if i = 0 then s(''k'' \<mapsto> (7, case s ''k'' of None \<Rightarrow> 0 | Some (_, v) \<Rightarrow> Suc v)) else s),
     os_failed = ''failed'', os_contention = ''contention''\<rparr>"

definition demo_increment :: "nat \<Rightarrow> nat option \<Rightarrow> string + (nat, nat) Mutation" where
  "demo_increment j current = (let old = case_option 0 id current in Inr (Replace (old + 1) old))"

lemma demo_os_laws: "conditional_put demo_os" "versions_not_reused demo_os" "store_serves demo_os"
  by (auto simp: conditional_put_def versions_not_reused_def store_serves_def demo_os_def contents_def
      got_record_def put_mode_def intro!: ext split: option.splits PutMode.splits if_splits prod.splits)

theorem cas_mutate_atomic_witness:
  "\<exists>k j. k \<le> 32 \<and> j < 32 \<and>
    apply_mutation (contents demo_os (env_run demo_os 0 k Map.empty)) ''k''
      (demo_increment j (contents demo_os (env_run demo_os 0 k Map.empty) ''k''))
      = (Inr 7, contents demo_os (snd (cas_mutate demo_os ''k'' demo_increment Map.empty)))"
proof -
  have "fst (cas_mutate demo_os ''k'' demo_increment Map.empty) = Inr 7" by code_simp
  then show ?thesis
    by (intro cas_mutate_atomic [OF demo_os_laws(1,2)]) (simp add: prod_eq_iff)
qed

text \<open>
  C8: The loop makes progress. With a store in operation, one attempt among the 32 in which no
  other client changes the object between the read and the write is enough: the call then
  answers what the locked backend answers, never that there was too much contention.
\<close>

theorem cas_mutate_completes:
  assumes "conditional_put os" and "versions_not_reused os" and "store_serves os"
    and "quiet_attempt os path j" and "j < 32"
  shows "\<exists>k j'. k \<le> Suc j \<and> j' \<le> j \<and>
    (fst (cas_mutate os path f s), contents os (snd (cas_mutate os path f s))) =
     apply_mutation (contents os (env_run os 0 k s)) path (f j' (contents os (env_run os 0 k s) path))"
  using cas_attempts_quiet [OF assms(1-4), of 0 32 f s] assms(5)
  by (auto simp: cas_mutate_def CAS_RETRIES_def)

theorem cas_mutate_completes_witness:
  "\<exists>k j'. k \<le> 2 \<and> j' \<le> 1 \<and>
    (fst (cas_mutate demo_os ''k'' demo_increment Map.empty), contents demo_os (snd (cas_mutate demo_os ''k'' demo_increment Map.empty))) =
     apply_mutation (contents demo_os (env_run demo_os 0 k Map.empty)) ''k''
       (demo_increment j' (contents demo_os (env_run demo_os 0 k Map.empty) ''k''))"
  using cas_mutate_completes [OF demo_os_laws, of "''k''" 1 demo_increment Map.empty]
  by (simp add: quiet_attempt_def demo_os_def numeral_2_eq_2)

subsection \<open>Writing a record file\<close>

text \<open>
  \<open>write_local_record\<close>: create a temporary file beside the record, write and sync it, rename it
  over the record, sync the directory. A file whose bytes are not all there is \<open>Torn\<close>: it does
  not decode. The run control store opens the temporary file with \<open>create\<close> and \<open>truncate\<close>, the
  attempt registry with \<open>create_new\<close>, which fails when the file exists. The name of the
  temporary file holds the process id, here in decimal.
\<close>

datatype 'r disk_file = Torn | Whole 'r

datatype io_error = TemporaryExists | DecodeFailed

datatype write_op = OpenTemporary | WriteAll | SyncAll | RenameOver | SyncDirectory

definition temporary_name :: "string \<Rightarrow> string \<Rightarrow> string" where
  "temporary_name path pid = ''.'' @ path @ ''.'' @ pid @ ''.tmp''"

fun write_step ::
  "bool \<Rightarrow> string \<Rightarrow> string \<Rightarrow> 'r \<Rightarrow> write_op \<Rightarrow> (string \<rightharpoonup> 'r disk_file) \<Rightarrow> io_error + (string \<rightharpoonup> 'r disk_file)" where
  "write_step create_new tmp path q OpenTemporary fs =
     (if create_new \<and> fs tmp \<noteq> None then Inl TemporaryExists else Inr (fs(tmp \<mapsto> Torn)))"
| "write_step create_new tmp path q WriteAll fs = Inr fs"
| "write_step create_new tmp path q SyncAll fs = Inr (fs(tmp \<mapsto> Whole q))"
| "write_step create_new tmp path q RenameOver fs = Inr (fs(path := fs tmp, tmp := None))"
| "write_step create_new tmp path q SyncDirectory fs = Inr fs"

fun write_steps ::
  "bool \<Rightarrow> string \<Rightarrow> string \<Rightarrow> 'r \<Rightarrow> write_op list \<Rightarrow> (string \<rightharpoonup> 'r disk_file) \<Rightarrow> io_error + (string \<rightharpoonup> 'r disk_file)"
  where
  "write_steps create_new tmp path q [] fs = Inr fs"
| "write_steps create_new tmp path q (x # xs) fs =
     rbind (write_step create_new tmp path q x fs) (write_steps create_new tmp path q xs)"

definition write_ops :: "write_op list" where
  "write_ops = [OpenTemporary, WriteAll, SyncAll, RenameOver, SyncDirectory]"

definition write_local_record ::
  "bool \<Rightarrow> string \<Rightarrow> string \<Rightarrow> 'r \<Rightarrow> (string \<rightharpoonup> 'r disk_file) \<Rightarrow> io_error + (string \<rightharpoonup> 'r disk_file)" where
  "write_local_record create_new pid path q fs =
     write_steps create_new (temporary_name path pid) path q write_ops fs"

text \<open>The directory a process leaves behind that dies after \<open>n\<close> of the calls.\<close>

definition crashed_write ::
  "bool \<Rightarrow> string \<Rightarrow> string \<Rightarrow> 'r \<Rightarrow> nat \<Rightarrow> (string \<rightharpoonup> 'r disk_file) \<Rightarrow> io_error + (string \<rightharpoonup> 'r disk_file)" where
  "crashed_write create_new pid path q n fs =
     write_steps create_new (temporary_name path pid) path q (take n write_ops) fs"

definition read_local_record :: "string \<Rightarrow> (string \<rightharpoonup> 'r disk_file) \<Rightarrow> io_error + 'r option" where
  "read_local_record path fs =
    (case fs path of None \<Rightarrow> Inr None | Some Torn \<Rightarrow> Inl DecodeFailed | Some (Whole q) \<Rightarrow> Inr (Some q))"

lemma temporary_name_neq [simp]: "temporary_name path pid \<noteq> path" "path \<noteq> temporary_name path pid"
  by (auto simp: temporary_name_def dest!: arg_cong [where f = length])

lemma write_ops_cases:
  "take n write_ops \<in> {[], [OpenTemporary], [OpenTemporary, WriteAll], [OpenTemporary, WriteAll, SyncAll],
     [OpenTemporary, WriteAll, SyncAll, RenameOver], write_ops}"
proof -
  have "n = 0 \<or> n = 1 \<or> n = 2 \<or> n = 3 \<or> n = 4 \<or> 5 \<le> n" by linarith
  then show ?thesis by (auto simp: write_ops_def numeral_eq_Suc take_Cons split: nat.split)
qed



text \<open>
  A temporary file left by a crash does not stop the run control store, whose next write
  succeeds, but stops the attempt registry: every later write under the same process id fails.
\<close>

theorem stale_temporary_file:
  assumes "crashed_write create_new pid path q n fs = Inr fs'" and "n = 1 \<or> n = 2 \<or> n = 3"
  shows "write_local_record True pid path q' fs' = Inl TemporaryExists \<and>
    (\<exists>fs''. write_local_record False pid path q' fs' = Inr fs'' \<and>
       read_local_record path fs'' = Inr (Some q'))"
  using assms
  by (elim disjE) (auto simp: crashed_write_def write_local_record_def write_ops_def
      read_local_record_def numeral_eq_Suc split: if_splits)

theorem stale_temporary_file_witness:
  "\<exists>fs'. crashed_write True ''7'' ''r.json'' (2::nat) 1 Map.empty = Inr fs' \<and>
    write_local_record True ''7'' ''r.json'' 3 fs' = Inl TemporaryExists"
  using stale_temporary_file [of True "''7''" "''r.json''" "2::nat" 1 Map.empty _ 3]
  by (auto simp: crashed_write_def write_ops_def)

end
