(* ===== verification/RunControl.thy ===== *)
theory RunControl
  imports RunTypes RecordStore
begin

section \<open>The durable run control store\<close>

text \<open>
  \<open>persisting-pchronicle/src/store/run_control.rs\<close>: leases and terminal commits of a run share
  one control record per run. Every operation is a closure from the current record to a
  \<open>Mutation\<close>, which a backend applies: the local backend under an exclusive file lock
  (\<open>mutate_local\<close>), the object store backend in a compare-and-swap loop (theory \<open>RecordStore\<close>).
  The control directory is a map from file names to records; reading and writing a record is
  one JSON document each, and the lock makes a local mutation one atomic step.
  \<open>unix_now_ms\<close> is an argument: \<open>clk i\<close> is the value of its \<open>i\<close>-th call in the operation,
  with no relation assumed between the values.
\<close>

datatype control_error =
    RunLeaseOwnerEmpty
  | RunLeaseEpochOverflow
  | InvalidRunControlRecord RunId
  | RevisionOverflow
  | CommitNotTerminal
  | CommitZeroEpoch
  | CommitDigestEmpty
  | CasContentionExceeded
  | ObjectStoreFailure

type_synonym 't control_mutation =
  "RunControlRecord option \<Rightarrow> control_error + (RunControlRecord, 't) Mutation"

type_synonym control_dir = "string \<rightharpoonup> RunControlRecord"

definition next_record ::
  "RunControlRecord option \<Rightarrow> RunId \<Rightarrow> (RunControlRecord \<Rightarrow> RunControlRecord)
   \<Rightarrow> control_error + RunControlRecord" where
  "next_record current run_id app =
    (let record = (case current of Some r \<Rightarrow> r
       | None \<Rightarrow> \<lparr>rc_revision = 0, rc_run_id = run_id, rc_lease = None, rc_commit = None\<rparr>)
     in if rc_run_id record \<noteq> run_id then Inl (InvalidRunControlRecord run_id)
        else case checked_add (rc_revision record) 1 of
          None \<Rightarrow> Inl RevisionOverflow
        | Some revision \<Rightarrow> Inr (app (record\<lparr>rc_revision := revision\<rparr>)))"

definition current_lease :: "RunControlRecord option \<Rightarrow> RunLeaseRecord option" where
  "current_lease current = Option.bind current rc_lease"

definition current_commit :: "RunControlRecord option \<Rightarrow> RunCommit option" where
  "current_commit current = Option.bind current rc_commit"

subsection \<open>Operations as mutations of one record\<close>

definition lease_deadline :: "u64 \<Rightarrow> u64 \<Rightarrow> u64" where
  "lease_deadline now ttl_ms = saturating_add now (max ttl_ms 1)"

text \<open>The part of the acquire closure that issues a new lease epoch (lines 163 to 183).\<close>

definition acquire_new_epoch ::
  "u64 \<Rightarrow> RunId \<Rightarrow> string option \<Rightarrow> string \<Rightarrow> u64 \<Rightarrow> LeaseAcquireOutcome control_mutation" where
  "acquire_new_epoch now run_id task_id owner ttl_ms current =
    (case checked_add (case current_lease current of Some l \<Rightarrow> l_epoch l | None \<Rightarrow> 0) 1 of
       None \<Rightarrow> Inl RunLeaseEpochOverflow
     | Some epoch \<Rightarrow>
         (let lease = \<lparr>l_run_id = run_id, l_task_id = task_id, l_epoch = epoch, l_owner = owner,
                l_issued_at_unix_ms = now, l_expires_at_unix_ms = lease_deadline now ttl_ms,
                l_attempt_id = None\<rparr>
          in rbind (next_record current run_id (\<lambda>r. r\<lparr>rc_lease := Some lease\<rparr>))
               (\<lambda>record. Inr (Replace record (Acquired lease)))))"

definition acquire_mutation ::
  "u64 \<Rightarrow> RunId \<Rightarrow> string option \<Rightarrow> string \<Rightarrow> u64 \<Rightarrow> bool
   \<Rightarrow> LeaseAcquireOutcome control_mutation" where
  "acquire_mutation now run_id task_id owner ttl_ms force current =
    (case current_commit current of
       Some commit \<Rightarrow> Inr (Unchanged (LeaseAlreadyCommitted commit))
     | None \<Rightarrow>
        (case current_lease current of
           Some existing \<Rightarrow>
             if l_owner existing \<noteq> owner \<and> now < l_expires_at_unix_ms existing \<and> \<not> force
             then Inr (Unchanged (Held existing))
             else if l_owner existing = owner \<and> \<not> force then
               (let renewed = existing\<lparr>l_expires_at_unix_ms := lease_deadline now ttl_ms\<rparr>
                in rbind (next_record current run_id (\<lambda>r. r\<lparr>rc_lease := Some renewed\<rparr>))
                     (\<lambda>record. Inr (Replace record (Acquired renewed))))
             else acquire_new_epoch now run_id task_id owner ttl_ms current
         | None \<Rightarrow> acquire_new_epoch now run_id task_id owner ttl_ms current))"

definition bind_mutation :: "u64 \<Rightarrow> RunId \<Rightarrow> u64 \<Rightarrow> AttemptId \<Rightarrow> bool control_mutation" where
  "bind_mutation now run_id epoch attempt_id current =
    (case current of
       None \<Rightarrow> Inr (Unchanged False)
     | Some rc \<Rightarrow>
        (case rc_lease rc of
           None \<Rightarrow> Inr (Unchanged False)
         | Some lease \<Rightarrow>
             if rc_commit rc \<noteq> None \<or> l_epoch lease \<noteq> epoch \<or> l_expires_at_unix_ms lease \<le> now
             then Inr (Unchanged False)
             else if l_attempt_id lease = Some attempt_id then Inr (Unchanged True)
             else if l_attempt_id lease \<noteq> None then Inr (Unchanged False)
             else rbind (next_record (Some rc) run_id
                      (\<lambda>r. r\<lparr>rc_lease := map_option (\<lambda>l. l\<lparr>l_attempt_id := Some attempt_id\<rparr>)
                          (rc_lease r)\<rparr>))
                    (\<lambda>record. Inr (Replace record True))))"

definition renew_mutation :: "u64 \<Rightarrow> RunId \<Rightarrow> u64 \<Rightarrow> string \<Rightarrow> u64 \<Rightarrow> bool control_mutation" where
  "renew_mutation now run_id epoch owner ttl_ms current =
    (case current of
       None \<Rightarrow> Inr (Unchanged False)
     | Some rc \<Rightarrow>
        (let matches = (rc_commit rc = None \<and> (case rc_lease rc of None \<Rightarrow> False
             | Some lease \<Rightarrow> l_epoch lease = epoch \<and> l_owner lease = owner
                 \<and> now < l_expires_at_unix_ms lease))
         in if \<not> matches then Inr (Unchanged False)
            else rbind (next_record (Some rc) run_id
                     (\<lambda>r. r\<lparr>rc_lease := map_option
                         (\<lambda>l. l\<lparr>l_expires_at_unix_ms := lease_deadline now ttl_ms\<rparr>) (rc_lease r)\<rparr>))
                   (\<lambda>record. Inr (Replace record True))))"

definition lease_matches :: "u64 \<Rightarrow> RunCommitRequest \<Rightarrow> RunLeaseRecord \<Rightarrow> bool" where
  "lease_matches now request lease \<longleftrightarrow>
     l_epoch lease = rq_lease_epoch request \<and> now < l_expires_at_unix_ms lease \<and>
     (case l_attempt_id lease of None \<Rightarrow> True | Some a \<Rightarrow> a = rq_attempt_id request)"

definition attempt_get_or_insert :: "AttemptId \<Rightarrow> RunLeaseRecord \<Rightarrow> RunLeaseRecord" where
  "attempt_get_or_insert a l =
     (case l_attempt_id l of None \<Rightarrow> l\<lparr>l_attempt_id := Some a\<rparr> | Some _ \<Rightarrow> l)"

definition commit_mutation ::
  "u64 \<Rightarrow> u64 \<Rightarrow> RunCommitRequest \<Rightarrow> CommitRunOutcome control_mutation" where
  "commit_mutation now committed_at request current =
    (case current_commit current of
       Some existing \<Rightarrow>
         if c_request existing = request then Inr (Unchanged (AlreadyCommitted existing))
         else Inr (Unchanged (Conflict existing))
     | None \<Rightarrow>
        (let current_epoch = map_option l_epoch (current_lease current);
             matches = (case current_lease current of None \<Rightarrow> False
               | Some l \<Rightarrow> lease_matches now request l)
         in if \<not> matches
            then Inr (Unchanged (StaleLease (rq_lease_epoch request) current_epoch))
            else (let commit = \<lparr>c_request = request, c_committed_at_unix_ms = committed_at\<rparr>
                  in rbind (next_record current (rq_run_id request)
                       (\<lambda>r. r\<lparr>rc_lease := map_option (attempt_get_or_insert (rq_attempt_id request))
                                (rc_lease r), rc_commit := Some commit\<rparr>))
                     (\<lambda>record. Inr (Replace record (Committed commit))))))"

text \<open>The checks \<open>commit_run\<close> makes before it looks at the store (lines 259 to 267).\<close>

definition commit_request_check :: "RunCommitRequest \<Rightarrow> control_error + unit" where
  "commit_request_check request =
    (if \<not> is_terminal (rq_state request) then Inl CommitNotTerminal
     else if rq_lease_epoch request = 0 then Inl CommitZeroEpoch
     else if trim (rq_result_digest request) = [] then Inl CommitDigestEmpty
     else Inr ())"

subsection \<open>The local backend\<close>

definition mutate_local ::
  "control_dir \<Rightarrow> RunId \<Rightarrow> 't control_mutation \<Rightarrow> (control_error + 't) \<times> control_dir" where
  "mutate_local dir run_id f = apply_mutation dir (record_path run_id) (f (dir (record_path run_id)))"

definition acquire_lease_inner ::
  "clock \<Rightarrow> control_dir \<Rightarrow> RunId \<Rightarrow> string option \<Rightarrow> string \<Rightarrow> u64 \<Rightarrow> bool
   \<Rightarrow> (control_error + LeaseAcquireOutcome) \<times> control_dir" where
  "acquire_lease_inner clk dir run_id task_id owner ttl_ms force =
    (if trim owner = [] then (Inl RunLeaseOwnerEmpty, dir)
     else mutate_local dir run_id (acquire_mutation (clk 0) run_id task_id owner ttl_ms force))"

definition acquire_lease ::
  "clock \<Rightarrow> control_dir \<Rightarrow> RunId \<Rightarrow> string option \<Rightarrow> string \<Rightarrow> u64
   \<Rightarrow> (control_error + LeaseAcquireOutcome) \<times> control_dir" where
  "acquire_lease clk dir run_id task_id owner ttl_ms =
     acquire_lease_inner clk dir run_id task_id owner ttl_ms False"

definition takeover_lease ::
  "clock \<Rightarrow> control_dir \<Rightarrow> RunId \<Rightarrow> string option \<Rightarrow> string \<Rightarrow> u64
   \<Rightarrow> (control_error + LeaseAcquireOutcome) \<times> control_dir" where
  "takeover_lease clk dir run_id task_id owner ttl_ms =
     acquire_lease_inner clk dir run_id task_id owner ttl_ms True"

definition bind_attempt ::
  "clock \<Rightarrow> control_dir \<Rightarrow> RunId \<Rightarrow> u64 \<Rightarrow> AttemptId \<Rightarrow> (control_error + bool) \<times> control_dir" where
  "bind_attempt clk dir run_id epoch attempt_id =
     mutate_local dir run_id (bind_mutation (clk 0) run_id epoch attempt_id)"

definition renew_lease ::
  "clock \<Rightarrow> control_dir \<Rightarrow> RunId \<Rightarrow> u64 \<Rightarrow> string \<Rightarrow> u64 \<Rightarrow> (control_error + bool) \<times> control_dir"
  where
  "renew_lease clk dir run_id epoch owner ttl_ms =
     mutate_local dir run_id (renew_mutation (clk 0) run_id epoch owner ttl_ms)"

definition commit_run ::
  "clock \<Rightarrow> control_dir \<Rightarrow> RunCommitRequest \<Rightarrow> (control_error + CommitRunOutcome) \<times> control_dir"
  where
  "commit_run clk dir request =
    (case commit_request_check request of
       Inl e \<Rightarrow> (Inl e, dir)
     | Inr _ \<Rightarrow> mutate_local dir (rq_run_id request) (commit_mutation (clk 0) (clk 1) request))"

definition get_run :: "control_dir \<Rightarrow> RunId \<Rightarrow> RunControlRecord option" where
  "get_run dir run_id = dir (record_path run_id)"


subsection \<open>Well-formed records and how a record may advance\<close>

text \<open>
  A stored record belongs to the run of its file, has been written at least once, carries a
  lease with a non-zero epoch, and a commit agrees with that lease on epoch and attempt.
\<close>

definition rc_wf :: "RunId \<Rightarrow> RunControlRecord \<Rightarrow> bool" where
  "rc_wf run_id r \<longleftrightarrow> rc_run_id r = run_id \<and> 0 < rc_revision r \<and>
     (\<exists>l. rc_lease r = Some l \<and> l_run_id l = run_id \<and> 0 < l_epoch l \<and>
       (\<forall>c. rc_commit r = Some c \<longrightarrow> rq_run_id (c_request c) = run_id \<and>
          rq_lease_epoch (c_request c) = l_epoch l \<and>
          l_attempt_id l = Some (rq_attempt_id (c_request c))))"

text \<open>
  One replacement of a record: it was not committed, its revision grows, and the lease either
  moves to a larger epoch or keeps epoch, owner and an attempt already bound.
\<close>

definition rc_advances :: "RunControlRecord \<Rightarrow> RunControlRecord \<Rightarrow> bool" where
  "rc_advances a b \<longleftrightarrow> rc_commit a = None \<and> rc_revision a < rc_revision b \<and>
     (\<exists>l m. rc_lease a = Some l \<and> rc_lease b = Some m \<and>
        (l_epoch l < l_epoch m \<or>
         l_epoch m = l_epoch l \<and> l_owner m = l_owner l \<and>
         (\<forall>x. l_attempt_id l = Some x \<longrightarrow> l_attempt_id m = Some x)))"

definition dir_wf :: "control_dir \<Rightarrow> bool" where
  "dir_wf dir \<longleftrightarrow> (\<forall>path r. dir path = Some r \<longrightarrow> (\<exists>run_id. path = record_path run_id \<and> rc_wf run_id r))"

lemma dir_wf_get: "dir_wf dir \<Longrightarrow> get_run dir run_id = Some r \<Longrightarrow> rc_wf run_id r"
  by (force simp: dir_wf_def get_run_def)

lemma dir_wf_input: "dir_wf dir \<Longrightarrow> pred_option (rc_wf run_id) (dir (record_path run_id))"
  using dir_wf_get by (force simp: get_run_def pred_option_def)

lemma dir_wf_empty [simp]: "dir_wf Map.empty"
  by (simp add: dir_wf_def)

lemma next_record_Inr:
  "next_record current run_id app = Inr r \<longleftrightarrow>
    (\<exists>old rev'. old = (case current of Some q \<Rightarrow> q
        | None \<Rightarrow> \<lparr>rc_revision = 0, rc_run_id = run_id, rc_lease = None, rc_commit = None\<rparr>) \<and>
      rc_run_id old = run_id \<and> checked_add (rc_revision old) 1 = Some rev' \<and>
      r = app (old\<lparr>rc_revision := rev'\<rparr>))"
  by (auto simp: next_record_def Let_def split: option.splits)

lemmas mutation_unfold = next_record_Inr current_lease_def current_commit_def Let_def

subsection \<open>The contract every control mutation keeps\<close>

locale control_op = record_op "record_path run_id" mut "rc_wf run_id" rc_advances
  for run_id :: RunId and mut :: "'t control_mutation" +
  fixes may_commit :: "RunCommit \<Rightarrow> bool"
  assumes replace_commit: "pred_option (rc_wf run_id) cur \<Longrightarrow> mut cur = Inr (Replace r v) \<Longrightarrow>
      rc_commit r = Some c \<Longrightarrow> may_commit c"
begin

lemma mutate_wf:
  assumes "dir_wf dir" and "mutate_local dir run_id mut = (res, dir')"
  shows "dir_wf dir'"
  unfolding dir_wf_def
proof (intro allI impI)
  fix path r
  assume r: "dir' path = Some r"
  show "\<exists>run_id. path = record_path run_id \<and> rc_wf run_id r"
  proof (cases "path = record_path run_id")
    case True
    with apply_wf [OF assms(2) [unfolded mutate_local_def] dir_wf_input [OF assms(1)]] r
    show ?thesis by auto
  next
    case False
    with apply_frame [OF assms(2) [unfolded mutate_local_def]] r assms(1)
    show ?thesis by (auto simp: dir_wf_def)
  qed
qed

lemma mutate_frame:
  "mutate_local dir run_id mut = (res, dir') \<Longrightarrow> r \<noteq> run_id \<Longrightarrow> get_run dir' r = get_run dir r"
  unfolding mutate_local_def get_run_def by (drule apply_frame) auto

lemma mutate_advances:
  assumes "dir_wf dir" and "mutate_local dir run_id mut = (res, dir')"
    and "get_run dir r = Some a"
  shows "get_run dir' r = Some a \<or> (\<exists>b. get_run dir' r = Some b \<and> rc_advances a b)"
  using apply_adv [OF assms(2) [unfolded mutate_local_def] dir_wf_input [OF assms(1)]] assms(3)
  by (simp add: get_run_def)

lemma mutate_commit_origin:
  assumes "dir_wf dir" and "mutate_local dir run_id mut = (res, dir')"
    and "get_run dir' r = Some b" and "rc_commit b = Some c"
  shows "get_run dir r = Some b \<or> r = run_id \<and> may_commit c"
proof (cases "r = run_id")
  case False
  with mutate_frame [OF assms(2)] assms(3) show ?thesis by simp
next
  case True
  from assms(2) show ?thesis
    unfolding mutate_local_def
  proof (cases rule: apply_cases)
    case same
    with assms(3) show ?thesis by simp
  next
    case (replaced q v)
    with replace_commit [OF dir_wf_input [OF assms(1)] replaced(1)] assms(3,4) True
    show ?thesis by (simp add: get_run_def)
  qed
qed

end

lemma acquire_new_epoch_replace:
  assumes "pred_option (rc_wf run_id) cur" and "current_commit cur = None"
    and "acquire_new_epoch now run_id task_id owner ttl_ms cur = Inr (Replace r v)"
  shows "rc_wf run_id r \<and> rc_commit r = None \<and> (\<forall>a. cur = Some a \<longrightarrow> rc_advances a r)"
  using assms checked_succ_pos checked_succ_Some
  by (auto simp: acquire_new_epoch_def mutation_unfold rc_wf_def rc_advances_def
      split: option.splits rbind_splits)

lemma acquire_replace:
  assumes "pred_option (rc_wf run_id) cur"
    and "acquire_mutation now run_id task_id owner ttl_ms force cur = Inr (Replace r v)"
  shows "rc_wf run_id r \<and> rc_commit r = None \<and> (\<forall>a. cur = Some a \<longrightarrow> rc_advances a r)"
proof (cases "acquire_new_epoch now run_id task_id owner ttl_ms cur = Inr (Replace r v)
    \<and> current_commit cur = None")
  case True
  with acquire_new_epoch_replace [OF assms(1)] show ?thesis by blast
next
  case False
  with assms checked_succ_pos checked_succ_Some show ?thesis
    by (auto simp: acquire_mutation_def mutation_unfold rc_wf_def rc_advances_def
        split: option.splits rbind_splits if_splits)
qed

interpretation acquire_op: control_op run_id
  "acquire_mutation now run_id task_id owner ttl_ms force" "\<lambda>_. False"
  for now run_id task_id owner ttl_ms force
  by unfold_locales (auto dest: acquire_replace acquire_replace [of _ "Some a" for a, simplified])

interpretation bind_op: control_op run_id "bind_mutation now run_id epoch attempt_id" "\<lambda>_. False"
  for now run_id epoch attempt_id
  by unfold_locales
    (auto simp: bind_mutation_def mutation_unfold rc_wf_def rc_advances_def
      dest: checked_succ_pos checked_succ_Some split: option.splits rbind_splits if_splits)

interpretation renew_op: control_op run_id "renew_mutation now run_id epoch owner ttl_ms" "\<lambda>_. False"
  for now run_id epoch owner ttl_ms
  by unfold_locales
    (auto simp: renew_mutation_def mutation_unfold rc_wf_def rc_advances_def
      dest: checked_succ_pos checked_succ_Some split: option.splits rbind_splits if_splits)

interpretation commit_op: control_op "rq_run_id request" "commit_mutation now committed_at request"
  "\<lambda>c. c_request c = request"
  for now committed_at request
  by unfold_locales
    (auto simp: commit_mutation_def mutation_unfold rc_wf_def rc_advances_def
      lease_matches_def attempt_get_or_insert_def
      dest: checked_succ_pos checked_succ_Some split: option.splits rbind_splits if_splits)


subsection \<open>Histories of calls\<close>

text \<open>
  The calls a client can make on the store, each answered by the operation it names: the run
  control arms of \<open>handle_request\<close> in \<open>persisting-pchronicle-cli/src/control.rs\<close>. A history is a
  list of calls, each with the clock readings it saw; the lock orders the calls of all clients.
\<close>

datatype control_call =
    AcquireLease RunId "string option" string u64
  | TakeoverLease RunId "string option" string u64
  | BindAttempt RunId u64 AttemptId
  | RenewLease RunId u64 string u64
  | CommitRunCall RunCommitRequest
  | GetRun RunId

datatype control_reply =
    LeaseAcquireReply LeaseAcquireOutcome
  | CommitRunReply CommitRunOutcome
  | BooleanReply bool
  | RunReply "RunControlRecord option"
  | ErrorReply control_error

definition reply_of :: "('t \<Rightarrow> control_reply) \<Rightarrow> (control_error + 't) \<times> 's \<Rightarrow> control_reply \<times> 's" where
  "reply_of wrap rs = (case fst rs of Inl e \<Rightarrow> ErrorReply e | Inr v \<Rightarrow> wrap v, snd rs)"

fun exec_call :: "clock \<Rightarrow> control_call \<Rightarrow> control_dir \<Rightarrow> control_reply \<times> control_dir" where
  "exec_call clk (AcquireLease run_id task_id owner ttl_ms) dir =
     reply_of LeaseAcquireReply (acquire_lease clk dir run_id task_id owner ttl_ms)"
| "exec_call clk (TakeoverLease run_id task_id owner ttl_ms) dir =
     reply_of LeaseAcquireReply (takeover_lease clk dir run_id task_id owner ttl_ms)"
| "exec_call clk (BindAttempt run_id epoch attempt_id) dir =
     reply_of BooleanReply (bind_attempt clk dir run_id epoch attempt_id)"
| "exec_call clk (RenewLease run_id epoch owner ttl_ms) dir =
     reply_of BooleanReply (renew_lease clk dir run_id epoch owner ttl_ms)"
| "exec_call clk (CommitRunCall request) dir = reply_of CommitRunReply (commit_run clk dir request)"
| "exec_call clk (GetRun run_id) dir = (RunReply (get_run dir run_id), dir)"

fun run_calls :: "(clock \<times> control_call) list \<Rightarrow> control_dir \<Rightarrow> control_reply list \<times> control_dir" where
  "run_calls [] dir = ([], dir)"
| "run_calls ((clk, call) # calls) dir =
     (let (reply, dir1) = exec_call clk call dir; (replies, dir2) = run_calls calls dir1
      in (reply # replies, dir2))"

lemma reply_of_eq: "reply_of wrap rs = (rep, dir') \<Longrightarrow> \<exists>res. rs = (res, dir')"
  by (cases rs) (simp add: reply_of_def)

text \<open>Every call changes at most one record, by one of the four mutations.\<close>

lemma exec_call_cases [consumes 1, case_names same acquire bind renew commit]:
  assumes "exec_call clk call dir = (rep, dir')"
  obtains "dir' = dir"
  | now run_id task_id owner ttl_ms force res where
      "mutate_local dir run_id (acquire_mutation now run_id task_id owner ttl_ms force) = (res, dir')"
  | now run_id epoch attempt_id res where
      "mutate_local dir run_id (bind_mutation now run_id epoch attempt_id) = (res, dir')"
  | now run_id epoch owner ttl_ms res where
      "mutate_local dir run_id (renew_mutation now run_id epoch owner ttl_ms) = (res, dir')"
  | now at request res where "call = CommitRunCall request" "commit_request_check request = Inr ()"
      "mutate_local dir (rq_run_id request) (commit_mutation now at request) = (res, dir')"
proof (cases call)
  case (CommitRunCall request)
  show ?thesis
  proof (cases "commit_request_check request")
    case (Inl e)
    with assms CommitRunCall have "dir' = dir" by (simp add: reply_of_def commit_run_def)
    then show ?thesis by (rule that(1))
  next
    case (Inr u)
    with assms CommitRunCall show ?thesis
      by (auto simp: commit_run_def dest!: reply_of_eq intro: that(5))
  qed
qed (use assms that in \<open>auto simp: acquire_lease_def takeover_lease_def acquire_lease_inner_def
    bind_attempt_def renew_lease_def dest!: reply_of_eq split: if_splits\<close>)

lemma exec_call_wf: "exec_call clk call dir = (rep, dir') \<Longrightarrow> dir_wf dir \<Longrightarrow> dir_wf dir'"
  by (cases rule: exec_call_cases)
    (auto dest: acquire_op.mutate_wf bind_op.mutate_wf renew_op.mutate_wf commit_op.mutate_wf)

lemma exec_call_advances:
  assumes "exec_call clk call dir = (rep, dir')" and "dir_wf dir" and "get_run dir r = Some a"
  shows "get_run dir' r = Some a \<or> (\<exists>b. get_run dir' r = Some b \<and> rc_advances a b)"
  using assms(1)
proof (cases rule: exec_call_cases)
  case (acquire now run_id task_id owner ttl_ms force res)
  then show ?thesis by (rule acquire_op.mutate_advances [OF assms(2) _ assms(3)])
next
  case (bind now run_id epoch attempt_id res)
  then show ?thesis by (rule bind_op.mutate_advances [OF assms(2) _ assms(3)])
next
  case (renew now run_id epoch owner ttl_ms res)
  then show ?thesis by (rule renew_op.mutate_advances [OF assms(2) _ assms(3)])
next
  case (commit now at request res)
  show ?thesis by (rule commit_op.mutate_advances [OF assms(2) commit(3) assms(3)])
qed (use assms(3) in simp)

lemma exec_call_commit_origin:
  assumes "exec_call clk call dir = (rep, dir')" and "dir_wf dir"
    and "get_run dir' r = Some b" and "rc_commit b = Some c"
  shows "get_run dir r = Some b \<or>
    (\<exists>request. call = CommitRunCall request \<and> commit_request_check request = Inr () \<and>
       c_request c = request)"
  using assms(1)
proof (cases rule: exec_call_cases)
  case (acquire now run_id task_id owner ttl_ms force res)
  with acquire_op.mutate_commit_origin [OF assms(2) _ assms(3,4)] show ?thesis by blast
next
  case (bind now run_id epoch attempt_id res)
  with bind_op.mutate_commit_origin [OF assms(2) _ assms(3,4)] show ?thesis by blast
next
  case (renew now run_id epoch owner ttl_ms res)
  with renew_op.mutate_commit_origin [OF assms(2) _ assms(3,4)] show ?thesis by blast
next
  case (commit now at request res)
  with commit_op.mutate_commit_origin [OF assms(2) _ assms(3,4)] show ?thesis by blast
qed (use assms(3) in simp)

text \<open>Lifting to histories.\<close>

lemma run_calls_wf: "run_calls calls dir = (reps, dir') \<Longrightarrow> dir_wf dir \<Longrightarrow> dir_wf dir'"
  by (induction calls dir arbitrary: reps rule: run_calls.induct)
    (auto split: prod.splits dest: exec_call_wf)

lemma rc_advances_trans: "rc_advances a b \<Longrightarrow> rc_advances b c \<Longrightarrow> rc_advances a c"
  unfolding rc_advances_def by fastforce

lemma run_calls_advances:
  assumes "run_calls calls dir = (reps, dir')" and "dir_wf dir" and "get_run dir r = Some a"
  shows "get_run dir' r = Some a \<or> (\<exists>b. get_run dir' r = Some b \<and> rc_advances a b)"
  using assms
proof (induction calls dir arbitrary: reps a rule: run_calls.induct)
  case (2 clk call calls dir)
  obtain rep dir1 reps1 where ex: "exec_call clk call dir = (rep, dir1)"
    and run: "run_calls calls dir1 = (reps1, dir')"
    using "2.prems"(1) by (auto split: prod.splits)
  have wf1: "dir_wf dir1" using ex "2.prems"(2) by (rule exec_call_wf)
  from exec_call_advances [OF ex "2.prems"(2,3)]
  obtain b where b: "get_run dir1 r = Some b" "b = a \<or> rc_advances a b" by blast
  from "2.IH" [OF refl ex [symmetric] run wf1 b(1)] b(2) show ?case
    by (auto intro: rc_advances_trans)
qed simp


lemma run_calls_commit_origin:
  assumes "run_calls calls dir = (reps, dir')" and "dir_wf dir"
    and "get_run dir' r = Some b" and "rc_commit b = Some c"
  shows "(\<exists>a. get_run dir r = Some a \<and> rc_commit a = Some c) \<or>
    CommitRunCall (c_request c) \<in> snd ` set calls \<and> commit_request_check (c_request c) = Inr ()"
  using assms
proof (induction calls dir arbitrary: reps rule: run_calls.induct)
  case (2 clk call calls dir)
  obtain rep dir1 reps1 where ex: "exec_call clk call dir = (rep, dir1)"
    and run: "run_calls calls dir1 = (reps1, dir')"
    using "2.prems"(1) by (auto split: prod.splits)
  have wf1: "dir_wf dir1" using ex "2.prems"(2) by (rule exec_call_wf)
  from "2.IH" [OF refl ex [symmetric] run wf1 "2.prems"(3,4)] show ?case
  proof (elim disjE exE conjE)
    fix a assume "get_run dir1 r = Some a" "rc_commit a = Some c"
    with exec_call_commit_origin [OF ex "2.prems"(2)] show ?thesis by fastforce
  qed auto
qed auto

text \<open>
  Whether a call was the one that made the commit of a run visible, and whether a run has one.
\<close>

fun commits_run :: "RunId \<Rightarrow> control_reply \<Rightarrow> bool" where
  "commits_run run_id (CommitRunReply (Committed c)) = (rq_run_id (c_request c) = run_id)"
| "commits_run run_id _ = False"

definition run_committed :: "control_dir \<Rightarrow> RunId \<Rightarrow> bool" where
  "run_committed dir run_id = (case get_run dir run_id of None \<Rightarrow> False | Some r \<Rightarrow> rc_commit r \<noteq> None)"


lemma commit_mutation_cases [consumes 1, case_names already conflict stale failed committed]:
  assumes "commit_mutation now at request cur = res"
  obtains c where "current_commit cur = Some c" "c_request c = request"
      "res = Inr (Unchanged (AlreadyCommitted c))"
  | c where "current_commit cur = Some c" "c_request c \<noteq> request" "res = Inr (Unchanged (Conflict c))"
  | "current_commit cur = None"
      "\<And>l. current_lease cur = Some l \<Longrightarrow> \<not> lease_matches now request l"
      "res = Inr (Unchanged (StaleLease (rq_lease_epoch request) (map_option l_epoch (current_lease cur))))"
  | e where "res = Inl e"
  | r l where "current_commit cur = None" "current_lease cur = Some l" "lease_matches now request l"
      "rc_commit r = Some \<lparr>c_request = request, c_committed_at_unix_ms = at\<rparr>"
      "rc_lease r = Some (attempt_get_or_insert (rq_attempt_id request) l)"
      "res = Inr (Replace r (Committed \<lparr>c_request = request, c_committed_at_unix_ms = at\<rparr>))"
proof (cases "current_commit cur")
  case (Some c)
  with assms that(1,2) show ?thesis
    by (cases "c_request c = request") (auto simp: commit_mutation_def)
next
  case None
  show ?thesis
  proof (cases "\<exists>l. current_lease cur = Some l \<and> lease_matches now request l")
    case False
    with None assms that(3) show ?thesis
      by (auto simp: commit_mutation_def split: option.splits)
  next
    case True
    then obtain l where l: "current_lease cur = Some l" "lease_matches now request l" by blast
    show ?thesis
    proof (cases res)
      case (Inl e)
      then show ?thesis by (rule that(4))
    next
      case (Inr m)
      with None l assms have "\<exists>r. rc_commit r = Some \<lparr>c_request = request, c_committed_at_unix_ms = at\<rparr>
          \<and> rc_lease r = Some (attempt_get_or_insert (rq_attempt_id request) l)
          \<and> res = Inr (Replace r (Committed \<lparr>c_request = request, c_committed_at_unix_ms = at\<rparr>))"
        by (auto simp: commit_mutation_def mutation_unfold split: rbind_splits option.splits)
      with that(5) [OF None l] show ?thesis by blast
    qed
  qed
qed

lemma commit_reply_Committed:
  assumes "exec_call clk call dir = (CommitRunReply (Committed c), dir')"
  obtains request r where "call = CommitRunCall request" "c_request c = request"
    "\<not> run_committed dir (rq_run_id request)"
    "dir' = dir(record_path (rq_run_id request) \<mapsto> r)" "rc_commit r = Some c"
proof -
  obtain request where call: "call = CommitRunCall request"
    using assms by (cases call) (auto simp: reply_of_def split: sum.splits)
  with assms have run: "mutate_local dir (rq_run_id request)
      (commit_mutation (clk 0) (clk 1) request) = (Inr (Committed c), dir')"
    by (auto simp: commit_run_def reply_of_def prod_eq_iff split: sum.splits)
  obtain res where "commit_mutation (clk 0) (clk 1) request
      (dir (record_path (rq_run_id request))) = res" by blast
  then show ?thesis
  proof (cases rule: commit_mutation_cases)
    case (committed r l)
    with run \<open>commit_mutation _ _ _ _ = res\<close> show ?thesis
      by (intro that [OF call, of r]) (auto simp: mutate_local_def apply_mutation_def
          run_committed_def get_run_def current_commit_def split: option.splits)
  qed (use run \<open>commit_mutation _ _ _ _ = res\<close> in \<open>auto simp: mutate_local_def apply_mutation_def\<close>)
qed

lemma commits_run_iff:
  "commits_run r rep \<longleftrightarrow> (\<exists>c. rep = CommitRunReply (Committed c) \<and> rq_run_id (c_request c) = r)"
  by (cases "(r, rep)" rule: commits_run.cases) auto

lemma exec_commits_run:
  assumes "exec_call clk call dir = (rep, dir')" and "commits_run r rep"
  shows "\<not> run_committed dir r \<and> run_committed dir' r"
  using assms commit_reply_Committed
  by (fastforce simp: commits_run_iff run_committed_def get_run_def)

lemma exec_keeps_committed:
  assumes "exec_call clk call dir = (rep, dir')" and "dir_wf dir" and "run_committed dir r"
  shows "run_committed dir' r"
  using assms(3) exec_call_advances [OF assms(1,2)]
  by (fastforce simp: run_committed_def rc_advances_def split: option.splits)

lemma commits_run_count:
  assumes "run_calls calls dir = (reps, dir')" and "dir_wf dir"
  shows "length (filter (commits_run r) reps) \<le> (if run_committed dir r then 0 else 1)"
  using assms
proof (induction calls dir arbitrary: reps rule: run_calls.induct)
  case (2 clk call calls dir)
  obtain rep dir1 reps1 where ex: "exec_call clk call dir = (rep, dir1)"
    and run: "run_calls calls dir1 = (reps1, dir')" and reps: "reps = rep # reps1"
    using "2.prems"(1) by (auto split: prod.splits)
  have wf1: "dir_wf dir1" using ex "2.prems"(2) by (rule exec_call_wf)
  from "2.IH" [OF refl ex [symmetric] run wf1] exec_commits_run [OF ex]
    exec_keeps_committed [OF ex "2.prems"(2)] reps
  show ?case by (auto split: if_splits)
qed simp


subsection \<open>Correctness of the store\<close>

text \<open>A sample history for the instances below: one owner acquires, binds, commits.\<close>

definition demo_request :: RunCommitRequest where
  "demo_request = \<lparr>rq_run_id = ''run-1'', rq_task_id = Some ''t'', rq_attempt_id = ''att-1'',
     rq_lease_epoch = 1, rq_state = RunCompleted, rq_event_high_watermark = None,
     rq_result_digest = ''d1''\<rparr>"

definition demo_lease :: "u64 \<Rightarrow> string \<Rightarrow> RunLeaseRecord" where
  "demo_lease epoch owner = \<lparr>l_run_id = ''run-1'', l_task_id = Some ''t'', l_epoch = epoch, l_owner = owner,
     l_issued_at_unix_ms = 100, l_expires_at_unix_ms = 1100, l_attempt_id = Some ''att-1''\<rparr>"

definition demo_commit :: RunCommit where
  "demo_commit = \<lparr>c_request = demo_request, c_committed_at_unix_ms = 300\<rparr>"

definition demo_open :: "(clock \<times> control_call) list" where
  "demo_open =
    [(\<lambda>_. 100, AcquireLease ''run-1'' (Some ''t'') ''owner-a'' 1000),
     (\<lambda>_. 200, BindAttempt ''run-1'' 1 ''att-1'')]"

definition demo_late :: "(clock \<times> control_call) list" where
  "demo_late =
    [(\<lambda>_. 300, CommitRunCall demo_request),
     (\<lambda>_. 400, TakeoverLease ''run-1'' (Some ''t'') ''owner-b'' 1000),
     (\<lambda>_. 500, CommitRunCall (demo_request\<lparr>rq_result_digest := ''d2''\<rparr>))]"

definition demo_takeover :: "(clock \<times> control_call) list" where
  "demo_takeover = [(\<lambda>_. 150, TakeoverLease ''run-1'' (Some ''t'') ''owner-b'' 1000)]"

definition demo_dir :: "(clock \<times> control_call) list \<Rightarrow> control_dir" where
  "demo_dir calls = snd (run_calls calls Map.empty)"

lemma demo_dir_wf: "dir_wf (demo_dir calls)"
  using run_calls_wf [of calls Map.empty] by (cases "run_calls calls Map.empty") (simp add: demo_dir_def)

text \<open>
  C2: A committed run is final. From a well-formed store, whatever calls follow, by any client and
  at any clock readings, the control record of a committed run stays exactly as it is.
\<close>

theorem committed_record_final:
  assumes "dir_wf dir" and "get_run dir run_id = Some a" and "rc_commit a = Some c"
    and "run_calls calls dir = (replies, dir')"
  shows "get_run dir' run_id = Some a"
  using run_calls_advances [OF assms(4,1,2)] assms(3) by (auto simp: rc_advances_def)

theorem committed_record_final_witness:
  "get_run (snd (run_calls demo_late (demo_dir (demo_open @ take 1 demo_late)))) ''run-1''
    = Some \<lparr>rc_revision = 3, rc_run_id = ''run-1'', rc_lease = Some (demo_lease 1 ''owner-a''),
        rc_commit = Some demo_commit\<rparr>"
proof -
  let ?d = "demo_dir (demo_open @ take 1 demo_late)"
  have "get_run ?d ''run-1'' = Some \<lparr>rc_revision = 3, rc_run_id = ''run-1'',
      rc_lease = Some (demo_lease 1 ''owner-a''), rc_commit = Some demo_commit\<rparr>"
    by code_simp
  then show ?thesis
    by (rule committed_record_final [OF demo_dir_wf _ _ surjective_pairing]) simp
qed

text \<open>
  C1: At most one commit wins. In every history of calls on a store that starts empty, at most
  one commit call for a given run is answered \<open>Committed\<close>.
\<close>

theorem at_most_one_commit_wins:
  "length (filter (commits_run run_id) (fst (run_calls calls Map.empty))) \<le> 1"
  using commits_run_count [of calls Map.empty _ _ run_id]
  by (cases "run_calls calls Map.empty") (simp add: run_committed_def get_run_def)

text \<open>
  Every visible commit is a request a client made: in every history from the empty store, a
  commit that a run carries was passed to \<open>commit_run\<close>, its state is terminal, its result digest
  is not blank, and it names the epoch and the attempt of the lease the record still carries.
\<close>

theorem visible_commit_was_requested:
  assumes "get_run (snd (run_calls calls Map.empty)) run_id = Some r" and "rc_commit r = Some c"
  shows "CommitRunCall (c_request c) \<in> snd ` set calls \<and> rq_run_id (c_request c) = run_id \<and>
    is_terminal (rq_state (c_request c)) \<and> trim (rq_result_digest (c_request c)) \<noteq> [] \<and>
    (\<exists>l. rc_lease r = Some l \<and> 0 < l_epoch l \<and> l_epoch l = rq_lease_epoch (c_request c) \<and>
       l_attempt_id l = Some (rq_attempt_id (c_request c)))"
proof -
  obtain reps dir where run: "run_calls calls Map.empty = (reps, dir)" by fastforce
  with assms(1) have get: "get_run dir run_id = Some r" by simp
  have wf: "rc_wf run_id r"
    using run_calls_wf [OF run dir_wf_empty] get by (rule dir_wf_get)
  from run_calls_commit_origin [OF run dir_wf_empty get assms(2)]
  have "CommitRunCall (c_request c) \<in> snd ` set calls"
    and "commit_request_check (c_request c) = Inr ()"
    by (auto simp: get_run_def)
  with wf assms(2) show ?thesis
    by (auto simp: rc_wf_def commit_request_check_def split: if_splits)
qed

theorem visible_commit_was_requested_witness:
  "CommitRunCall demo_request \<in> snd ` set (demo_open @ demo_late) \<and> is_terminal (rq_state demo_request)"
proof -
  have "get_run (snd (run_calls (demo_open @ demo_late) Map.empty)) ''run-1''
      = Some \<lparr>rc_revision = 3, rc_run_id = ''run-1'', rc_lease = Some (demo_lease 1 ''owner-a''),
          rc_commit = Some demo_commit\<rparr>"
    by code_simp
  from visible_commit_was_requested [OF this] show ?thesis by (simp add: demo_commit_def)
qed


lemma bind_stale_epoch:
  "dir (record_path run_id) = Some b \<Longrightarrow> rc_lease b = Some m \<Longrightarrow> l_epoch m \<noteq> epoch \<Longrightarrow>
   bind_attempt clk dir run_id epoch attempt_id = (Inr False, dir)"
  by (simp add: bind_attempt_def mutate_local_def apply_mutation_def bind_mutation_def)

lemma renew_stale_epoch:
  "dir (record_path run_id) = Some b \<Longrightarrow> rc_lease b = Some m \<Longrightarrow> l_epoch m \<noteq> epoch \<Longrightarrow>
   renew_lease clk dir run_id epoch owner ttl_ms = (Inr False, dir)"
  by (simp add: renew_lease_def mutate_local_def apply_mutation_def renew_mutation_def)

lemma commit_stale_epoch:
  assumes "dir (record_path (rq_run_id request)) = Some b" and "rc_lease b = Some m"
    and "rc_wf (rq_run_id request) b" and "rq_lease_epoch request \<noteq> l_epoch m"
    and "commit_request_check request = Inr ()"
  shows "commit_run clk dir request =
      (Inr (case rc_commit b of None \<Rightarrow> StaleLease (rq_lease_epoch request) (Some (l_epoch m))
            | Some c \<Rightarrow> Conflict c), dir)"
proof (cases "rc_commit b")
  case None
  with assms show ?thesis
    by (simp add: commit_run_def mutate_local_def apply_mutation_def commit_mutation_def
        lease_matches_def current_lease_def current_commit_def)
next
  case (Some c)
  with assms(2-4) have "c_request c \<noteq> request" by (auto simp: rc_wf_def)
  with Some assms show ?thesis
    by (simp add: commit_run_def mutate_local_def apply_mutation_def commit_mutation_def
        current_commit_def)
qed

text \<open>
  C3: Fencing. Once the lease of a run has moved to another epoch, the old epoch is smaller and is
  dead for good: binding an attempt and renewing under it are refused, and a well-formed commit
  under it is answered \<open>StaleLease\<close> with the current epoch (\<open>Conflict\<close> when the run is already
  committed). None of these calls changes the store.
\<close>

theorem stale_epoch_is_fenced:
  assumes "dir_wf dir" and "get_run dir run_id = Some a" and "rc_lease a = Some l"
    and "run_calls calls dir = (replies, dir')"
    and "get_run dir' run_id = Some b" and "rc_lease b = Some m" and "l_epoch m \<noteq> l_epoch l"
    and "rq_run_id request = run_id" and "rq_lease_epoch request = l_epoch l"
    and "commit_request_check request = Inr ()"
  shows "l_epoch l < l_epoch m \<and>
    bind_attempt clk dir' run_id (l_epoch l) attempt_id = (Inr False, dir') \<and>
    renew_lease clk dir' run_id (l_epoch l) owner ttl_ms = (Inr False, dir') \<and>
    commit_run clk dir' request =
      (Inr (case rc_commit b of None \<Rightarrow> StaleLease (l_epoch l) (Some (l_epoch m))
            | Some c \<Rightarrow> Conflict c), dir')"
proof -
  from run_calls_advances [OF assms(4,1,2)] assms(3,5,6,7) have "l_epoch l < l_epoch m"
    by (auto simp: rc_advances_def)
  moreover have "rc_wf run_id b"
    using run_calls_wf [OF assms(4,1)] assms(5) by (rule dir_wf_get)
  moreover have "dir' (record_path run_id) = Some b"
    using assms(5) by (simp add: get_run_def)
  ultimately show ?thesis
    using assms(6-10) by (simp add: bind_stale_epoch renew_stale_epoch commit_stale_epoch
        split: option.split)
qed

theorem stale_epoch_is_fenced_witness:
  "commit_run (\<lambda>_. 200) (demo_dir (demo_open @ demo_takeover)) demo_request
    = (Inr (StaleLease 1 (Some 2)), demo_dir (demo_open @ demo_takeover))"
proof -
  let ?a = "\<lparr>rc_revision = 2, rc_run_id = ''run-1'', rc_lease = Some (demo_lease 1 ''owner-a''),
      rc_commit = None\<rparr>"
  let ?m = "\<lparr>l_run_id = ''run-1'', l_task_id = Some ''t'', l_epoch = 2, l_owner = ''owner-b'',
      l_issued_at_unix_ms = 150, l_expires_at_unix_ms = 1150, l_attempt_id = None\<rparr>"
  let ?b = "\<lparr>rc_revision = 3, rc_run_id = ''run-1'', rc_lease = Some ?m, rc_commit = None\<rparr>"
  have a: "get_run (demo_dir demo_open) ''run-1'' = Some ?a" by code_simp
  have b: "get_run (demo_dir (demo_open @ demo_takeover)) ''run-1'' = Some ?b" by code_simp
  have run: "run_calls demo_takeover (demo_dir demo_open) =
      (fst (run_calls demo_takeover (demo_dir demo_open)), demo_dir (demo_open @ demo_takeover))"
    by (simp add: demo_dir_def demo_open_def demo_takeover_def split: prod.splits)
  have chk: "commit_request_check demo_request = Inr ()" by code_simp
  show ?thesis
    using stale_epoch_is_fenced [OF demo_dir_wf a _ run b _ _ _ _ chk, of "demo_lease 1 ''owner-a''" ?m
        "\<lambda>_. 200"]
    by (simp add: demo_lease_def demo_request_def)
qed

text \<open>
  Who may disturb a lease of a run: an owner other than the holder who does not take over and
  whose clock is before the expiry is not among them.
\<close>

fun respects_lease :: "RunId \<Rightarrow> RunLeaseRecord \<Rightarrow> clock \<times> control_call \<Rightarrow> bool" where
  "respects_lease run_id l (clk, AcquireLease r task_id owner ttl_ms) =
     (r = run_id \<longrightarrow> owner \<noteq> l_owner l \<and> clk 0 < l_expires_at_unix_ms l)"
| "respects_lease run_id l (clk, TakeoverLease r task_id owner ttl_ms) = (r \<noteq> run_id)"
| "respects_lease run_id l (clk, RenewLease r epoch owner ttl_ms) =
     (r = run_id \<longrightarrow> owner \<noteq> l_owner l)"
| "respects_lease run_id l (clk, call) = True"

definition rc_holds :: "RunLeaseRecord \<Rightarrow> RunControlRecord \<Rightarrow> bool" where
  "rc_holds l r = (case rc_lease r of None \<Rightarrow> False
    | Some m \<Rightarrow> l_owner m = l_owner l \<and> l_epoch m = l_epoch l \<and>
        l_expires_at_unix_ms m = l_expires_at_unix_ms l)"

definition holds_lease :: "control_dir \<Rightarrow> RunId \<Rightarrow> RunLeaseRecord \<Rightarrow> bool" where
  "holds_lease dir run_id l = (case get_run dir run_id of None \<Rightarrow> False | Some r \<Rightarrow> rc_holds l r)"

lemma mutate_holds:
  assumes "mutate_local dir r f = (res, dir')" and "holds_lease dir run_id l"
    and "\<And>a b v. r = run_id \<Longrightarrow> rc_holds l a \<Longrightarrow> f (Some a) = Inr (Replace b v) \<Longrightarrow> rc_holds l b"
  shows "holds_lease dir' run_id l"
  using assms
  by (auto simp: mutate_local_def apply_mutation_def holds_lease_def get_run_def
      split: option.splits sum.splits Mutation.splits if_splits)

lemma acquire_mutation_holds:
  "rc_holds l a \<Longrightarrow> owner \<noteq> l_owner l \<Longrightarrow> now < l_expires_at_unix_ms l \<Longrightarrow>
   acquire_mutation now run_id task_id owner ttl_ms False (Some a) \<noteq> Inr (Replace b v)"
  by (auto simp: rc_holds_def acquire_mutation_def current_lease_def current_commit_def
      split: option.splits)

lemma bind_mutation_holds:
  "rc_holds l a \<Longrightarrow> bind_mutation now run_id epoch att (Some a) = Inr (Replace b v) \<Longrightarrow> rc_holds l b"
  by (auto simp: rc_holds_def bind_mutation_def next_record_Inr split: option.splits if_splits rbind_splits)

lemma renew_mutation_holds:
  "rc_holds l a \<Longrightarrow> owner \<noteq> l_owner l \<Longrightarrow>
   renew_mutation now run_id epoch owner ttl_ms (Some a) \<noteq> Inr (Replace b v)"
  by (auto simp: rc_holds_def renew_mutation_def split: option.splits)

lemma commit_mutation_holds:
  assumes "rc_holds l a" and "commit_mutation now at request (Some a) = Inr (Replace b v)"
  shows "rc_holds l b"
  using assms(2)
proof (cases rule: commit_mutation_cases)
  case (committed r m)
  with assms(1) show ?thesis
    by (auto simp: rc_holds_def current_lease_def attempt_get_or_insert_def split: option.splits)
qed simp_all

lemma acquire_inner_holds:
  assumes "acquire_lease_inner clk dir r task_id owner ttl_ms force = (res, dir')"
    and "holds_lease dir run_id l"
    and "r = run_id \<Longrightarrow> \<not> force \<and> owner \<noteq> l_owner l \<and> clk 0 < l_expires_at_unix_ms l"
  shows "holds_lease dir' run_id l"
proof (cases "trim owner = []")
  case True
  with assms(1,2) show ?thesis by (simp add: acquire_lease_inner_def)
next
  case False
  with assms(1) have "mutate_local dir r (acquire_mutation (clk 0) r task_id owner ttl_ms force) = (res, dir')"
    by (simp add: acquire_lease_inner_def)
  then show ?thesis
    by (rule mutate_holds [OF _ assms(2)]) (use assms(3) in \<open>auto dest: acquire_mutation_holds\<close>)
qed

lemma commit_run_holds:
  assumes "commit_run clk dir request = (res, dir')" and "holds_lease dir run_id l"
  shows "holds_lease dir' run_id l"
proof (cases "commit_request_check request")
  case (Inl e)
  with assms show ?thesis by (simp add: commit_run_def)
next
  case (Inr u)
  with assms(1) have "mutate_local dir (rq_run_id request)
      (commit_mutation (clk 0) (clk 1) request) = (res, dir')"
    by (simp add: commit_run_def)
  then show ?thesis by (rule mutate_holds [OF _ assms(2)]) (rule commit_mutation_holds)
qed

lemma exec_call_respects:
  assumes "respects_lease run_id l (clk, call)" and "holds_lease dir run_id l"
    and "exec_call clk call dir = (rep, dir')"
  shows "holds_lease dir' run_id l"
proof (cases call)
  case (AcquireLease r task_id owner ttl_ms)
  then obtain res where "acquire_lease_inner clk dir r task_id owner ttl_ms False = (res, dir')"
    using assms(3) by (auto simp: acquire_lease_def dest!: reply_of_eq)
  then show ?thesis using assms(1,2) AcquireLease by (auto intro: acquire_inner_holds)
next
  case (TakeoverLease r task_id owner ttl_ms)
  then obtain res where "acquire_lease_inner clk dir r task_id owner ttl_ms True = (res, dir')"
    using assms(3) by (auto simp: takeover_lease_def dest!: reply_of_eq)
  then show ?thesis using assms(1,2) TakeoverLease by (auto intro: acquire_inner_holds)
next
  case (BindAttempt r epoch attempt_id)
  then obtain res where "mutate_local dir r (bind_mutation (clk 0) r epoch attempt_id) = (res, dir')"
    using assms(3) by (auto simp: bind_attempt_def dest!: reply_of_eq)
  then show ?thesis by (rule mutate_holds [OF _ assms(2)]) (rule bind_mutation_holds)
next
  case (RenewLease r epoch owner ttl_ms)
  then obtain res where "mutate_local dir r (renew_mutation (clk 0) r epoch owner ttl_ms) = (res, dir')"
    using assms(3) by (auto simp: renew_lease_def dest!: reply_of_eq)
  then show ?thesis
    by (rule mutate_holds [OF _ assms(2)])
      (use assms(1) RenewLease in \<open>auto dest: renew_mutation_holds\<close>)
next
  case (CommitRunCall request)
  then obtain res where "commit_run clk dir request = (res, dir')"
    using assms(3) by (auto dest!: reply_of_eq)
  then show ?thesis using assms(2) by (rule commit_run_holds)
qed (use assms in simp)

lemma run_calls_respects:
  "run_calls calls dir = (replies, dir') \<Longrightarrow> holds_lease dir run_id l \<Longrightarrow>
   \<forall>x \<in> set calls. respects_lease run_id l x \<Longrightarrow> holds_lease dir' run_id l"
  by (induction calls dir arbitrary: replies rule: run_calls.induct)
    (auto split: prod.splits dest: exec_call_respects)

text \<open>
  C4: A lease is exclusive until it expires. Calls of other clients that are not takeovers leave
  the holder, the epoch and the expiry of the lease as they are, as long as no other owner asks
  for the run at a clock reading at or after the expiry.
\<close>

theorem lease_exclusive_until_expiry:
  assumes "get_run dir run_id = Some a" and "rc_lease a = Some l"
    and "\<forall>x \<in> set calls. respects_lease run_id l x"
    and "run_calls calls dir = (replies, dir')"
  shows "\<exists>b m. get_run dir' run_id = Some b \<and> rc_lease b = Some m \<and> l_owner m = l_owner l \<and>
    l_epoch m = l_epoch l \<and> l_expires_at_unix_ms m = l_expires_at_unix_ms l"
proof -
  have "holds_lease dir run_id l"
    using assms(1,2) by (simp add: holds_lease_def rc_holds_def)
  with run_calls_respects [OF assms(4)] assms(3) have "holds_lease dir' run_id l" by blast
  then show ?thesis by (auto simp: holds_lease_def rc_holds_def split: option.splits)
qed

theorem lease_exclusive_until_expiry_witness:
  "\<exists>b m. get_run (snd (run_calls [(\<lambda>_. 900, AcquireLease ''run-1'' None ''owner-b'' 5000)]
      (demo_dir demo_open))) ''run-1'' = Some b \<and> rc_lease b = Some m \<and> l_owner m = ''owner-a''"
proof -
  let ?calls = "[(\<lambda>_. 900, AcquireLease ''run-1'' None ''owner-b'' 5000)] :: (clock \<times> control_call) list"
  have a: "get_run (demo_dir demo_open) ''run-1'' = Some \<lparr>rc_revision = 2, rc_run_id = ''run-1'',
      rc_lease = Some (demo_lease 1 ''owner-a''), rc_commit = None\<rparr>"
    by code_simp
  have resp: "\<forall>x \<in> set ?calls. respects_lease ''run-1'' (demo_lease 1 ''owner-a'') x"
    by (simp add: demo_lease_def)
  show ?thesis
    using lease_exclusive_until_expiry [OF a _ resp surjective_pairing] by (auto simp: demo_lease_def)
qed


text \<open>
  C5: What an acquired lease is. When acquiring answers \<open>Acquired\<close>, the run was not committed, the
  answered lease is the stored one, it belongs to the caller and its deadline is the clock reading
  plus the requested time (at least one millisecond, saturating). It either extends the epoch the
  same caller held, or is the next epoch with no attempt bound; a foreign lease is only replaced
  once expired or by a takeover.
\<close>

theorem acquired_lease_spec:
  assumes "acquire_lease_inner clk dir run_id task_id owner ttl_ms force = (Inr (Acquired lease), dir')"
  shows "\<not> run_committed dir run_id \<and> Option.bind (get_run dir' run_id) rc_lease = Some lease \<and>
    l_owner lease = owner \<and> l_expires_at_unix_ms lease = saturating_add (clk 0) (max ttl_ms 1) \<and>
    (case Option.bind (get_run dir run_id) rc_lease of
       None \<Rightarrow> unat (l_epoch lease) = 1 \<and> l_attempt_id lease = None
     | Some old \<Rightarrow>
         \<not> force \<and> l_owner old = owner \<and> l_epoch lease = l_epoch old \<and> l_attempt_id lease = l_attempt_id old
         \<or> (force \<or> l_owner old \<noteq> owner \<and> l_expires_at_unix_ms old \<le> clk 0) \<and>
           unat (l_epoch lease) = unat (l_epoch old) + 1 \<and> l_attempt_id lease = None)"
proof -
  let ?cur = "dir (record_path run_id)"
  from assms obtain r where
    mut: "acquire_mutation (clk 0) run_id task_id owner ttl_ms force ?cur = Inr (Replace r (Acquired lease))"
    and dir': "dir' = dir(record_path run_id \<mapsto> r)"
    by (auto simp: acquire_lease_inner_def mutate_local_def apply_mutation_def acquire_mutation_def
        acquire_new_epoch_def next_record_def Let_def split: if_splits sum.splits Mutation.splits option.splits)
  show ?thesis
    using mut unfolding dir'
    by (auto simp: acquire_mutation_def acquire_new_epoch_def mutation_unfold run_committed_def
        get_run_def lease_deadline_def checked_add_Some not_less
        split: option.splits if_splits rbind_splits)
qed

theorem acquired_lease_spec_witness:
  "acquire_lease_inner (\<lambda>_. 100) Map.empty ''run-1'' None ''owner-a'' 1000 False =
     (Inr (Acquired \<lparr>l_run_id = ''run-1'', l_task_id = None, l_epoch = 1, l_owner = ''owner-a'',
        l_issued_at_unix_ms = 100, l_expires_at_unix_ms = 1100, l_attempt_id = None\<rparr>),
      snd (acquire_lease_inner (\<lambda>_. 100) Map.empty ''run-1'' None ''owner-a'' 1000 False)) \<and>
   \<not> run_committed Map.empty ''run-1''"
proof -
  have "acquire_lease_inner (\<lambda>_. 100) Map.empty ''run-1'' None ''owner-a'' 1000 False =
     (Inr (Acquired \<lparr>l_run_id = ''run-1'', l_task_id = None, l_epoch = 1, l_owner = ''owner-a'',
        l_issued_at_unix_ms = 100, l_expires_at_unix_ms = 1100, l_attempt_id = None\<rparr>),
      snd (acquire_lease_inner (\<lambda>_. 100) Map.empty ''run-1'' None ''owner-a'' 1000 False))"
    (is "?call = (?res, _)")
    by (subgoal_tac "fst ?call = ?res", simp add: prod_eq_iff, code_simp)
  with acquired_lease_spec [OF this] show ?thesis by simp
qed

end
