(* ===== verification/RunControlObject.thy ===== *)
theory RunControlObject
  imports RunControl
begin

section \<open>Run control on an object store\<close>

text \<open>
  The object store backend of \<open>persisting-pchronicle/src/store/run_control.rs\<close>: the same
  mutations as in theory \<open>RunControl\<close>, applied by the compare-and-swap loop of theory
  \<open>RecordStore\<close> to the object \<open>root/<encoded run id>.json\<close>. \<open>ObjectPath::join\<close> is external and
  enters as the function \<open>join\<close>; the loop needs of it only that it keeps names apart.
  The clock is read inside the closure by most operations, so it has one reading sequence per
  attempt (\<open>clk j\<close> for attempt \<open>j\<close>); acquiring reads it once, before the loop.
\<close>

definition object_record_path :: "(string \<Rightarrow> string \<Rightarrow> string) \<Rightarrow> string \<Rightarrow> RunId \<Rightarrow> string" where
  "object_record_path join root run_id = join root (encoded_run_id run_id @ ''.json'')"

definition object_mutate ::
  "('s, RunControlRecord, 'v, control_error) object_client \<Rightarrow> (string \<Rightarrow> string \<Rightarrow> string) \<Rightarrow> string
   \<Rightarrow> RunId \<Rightarrow> (nat \<Rightarrow> 't control_mutation) \<Rightarrow> 's \<Rightarrow> (control_error + 't) \<times> 's" where
  "object_mutate os join root run_id f s = cas_mutate os (object_record_path join root run_id) f s"

definition object_acquire_inner where
  "object_acquire_inner os join root clk s run_id task_id owner ttl_ms force =
    (if trim owner = [] then (Inl RunLeaseOwnerEmpty, s)
     else object_mutate os join root run_id
       (\<lambda>_. acquire_mutation (clk 0 0) run_id task_id owner ttl_ms force) s)"

definition object_commit_run where
  "object_commit_run os join root clk s request =
    (case commit_request_check request of
       Inl e \<Rightarrow> (Inl e, s)
     | Inr _ \<Rightarrow> object_mutate os join root (rq_run_id request)
         (\<lambda>j. commit_mutation (clk j 0) (clk j 1) request) s)"

definition object_get where
  "object_get os join root s run_id =
    (case os_get os s (object_record_path join root run_id) of
       GetFailed \<Rightarrow> Inl ObjectStoreFailure
     | current \<Rightarrow> Inr (got_record current))"

fun object_exec_call ::
  "('s, RunControlRecord, 'v, control_error) object_client \<Rightarrow> (string \<Rightarrow> string \<Rightarrow> string) \<Rightarrow> string
   \<Rightarrow> (nat \<Rightarrow> clock) \<Rightarrow> control_call \<Rightarrow> 's \<Rightarrow> control_reply \<times> 's" where
  "object_exec_call os join root clk (AcquireLease run_id task_id owner ttl_ms) s =
     reply_of LeaseAcquireReply (object_acquire_inner os join root clk s run_id task_id owner ttl_ms False)"
| "object_exec_call os join root clk (TakeoverLease run_id task_id owner ttl_ms) s =
     reply_of LeaseAcquireReply (object_acquire_inner os join root clk s run_id task_id owner ttl_ms True)"
| "object_exec_call os join root clk (BindAttempt run_id epoch attempt_id) s =
     reply_of BooleanReply
       (object_mutate os join root run_id (\<lambda>j. bind_mutation (clk j 0) run_id epoch attempt_id) s)"
| "object_exec_call os join root clk (RenewLease run_id epoch owner ttl_ms) s =
     reply_of BooleanReply
       (object_mutate os join root run_id (\<lambda>j. renew_mutation (clk j 0) run_id epoch owner ttl_ms) s)"
| "object_exec_call os join root clk (CommitRunCall request) s =
     reply_of CommitRunReply (object_commit_run os join root clk s request)"
| "object_exec_call os join root clk (GetRun run_id) s =
     reply_of RunReply (object_get os join root s run_id, s)"

subsection \<open>Refinement of the locked backend\<close>

text \<open>The control directory an object store holds under a root.\<close>

definition dir_of ::
  "('s, RunControlRecord, 'v, control_error) object_client \<Rightarrow> (string \<Rightarrow> string \<Rightarrow> string) \<Rightarrow> string
   \<Rightarrow> 's \<Rightarrow> control_dir" where
  "dir_of os join root s = (\<lambda>name. contents os s (join root name))"

text \<open>
  The other clients of the store are clients of this interface too: whatever they do in one gap
  is some sequence of calls.
\<close>

definition clients_only ::
  "('s, RunControlRecord, 'v, control_error) object_client \<Rightarrow> (string \<Rightarrow> string \<Rightarrow> string) \<Rightarrow> string \<Rightarrow> bool"
  where
  "clients_only os join root \<longleftrightarrow>
    (\<forall>i s. \<exists>calls. dir_of os join root (os_env os i s) = snd (run_calls calls (dir_of os join root s)))"

lemma run_calls_append:
  "run_calls (xs @ ys) dir = (let (r1, d1) = run_calls xs dir; (r2, d2) = run_calls ys d1 in (r1 @ r2, d2))"
  by (induction xs dir rule: run_calls.induct) (simp_all add: Let_def split: prod.splits)

lemma env_run_calls:
  assumes "clients_only os join root"
  shows "\<exists>calls. dir_of os join root (env_run os i n s) = snd (run_calls calls (dir_of os join root s))"
proof (induction n arbitrary: i s)
  case 0
  show ?case by (rule exI [of _ "[]"]) simp
next
  case (Suc n)
  from assms obtain a where
    a: "dir_of os join root (os_env os i s) = snd (run_calls a (dir_of os join root s))"
    unfolding clients_only_def by blast
  from Suc.IH [of "Suc i" "os_env os i s"] obtain b where
    "dir_of os join root (env_run os (Suc i) n (os_env os i s)) =
      snd (run_calls b (dir_of os join root (os_env os i s)))" by blast
  with a show ?case
    by (intro exI [of _ "a @ b"]) (simp add: run_calls_append split: prod.splits)
qed

lemma object_path_eq: "object_record_path join root run_id = join root (record_path run_id)"
  by (simp add: object_record_path_def record_path_def)

lemma dir_of_apply:
  assumes "inj (join root)"
    and "apply_mutation (contents os s) (join root p) m = (res, contents os s')"
  shows "apply_mutation (dir_of os join root s) p m = (res, dir_of os join root s')"
proof -
  have upd: "dir_of os join root s' = (dir_of os join root s)(p \<mapsto> q)"
    if "(contents os s)(join root p \<mapsto> q) = contents os s'" for q
    using assms(1) unfolding dir_of_def that [symmetric] by (auto simp: fun_eq_iff inj_eq)
  have same: "dir_of os join root s' = dir_of os join root s" if "contents os s = contents os s'"
    using that by (simp add: dir_of_def)
  show ?thesis
    using assms(2) upd same by (auto simp: apply_mutation_def split: sum.splits Mutation.splits)
qed

lemma object_mutate_atomic:
  assumes "conditional_put os" "versions_not_reused os" "inj (join root)" "clients_only os join root"
    and "object_mutate os join root run_id f s = (Inr value, s')"
  obtains calls j where
    "mutate_local (snd (run_calls calls (dir_of os join root s))) run_id (f j)
      = (Inr value, dir_of os join root s')"
proof -
  let ?p = "join root (record_path run_id)"
  from assms(5) have "cas_attempts os CAS_RETRIES 0 ?p f s = (Inr value, s')"
    by (simp add: object_mutate_def cas_mutate_def object_path_eq)
  from cas_attempts_atomic [OF assms(1,2) this] obtain k j where
    "apply_mutation (contents os (env_run os 0 k s)) ?p (f j (contents os (env_run os 0 k s) ?p))
      = (Inr value, contents os s')" by blast
  from dir_of_apply [where join = join and root = root, OF assms(3) this]
  have "mutate_local (dir_of os join root (env_run os 0 k s)) run_id (f j)
      = (Inr value, dir_of os join root s')"
    by (simp add: mutate_local_def dir_of_def)
  with env_run_calls [OF assms(4), of 0 k s] that show thesis by metis
qed

lemma reply_of_value:
  assumes "reply_of wrap rs = (reply, s')" and "\<forall>e. reply \<noteq> ErrorReply e"
  obtains v where "rs = (Inr v, s')" "reply = wrap v"
  using assms by (cases rs; cases "fst rs") (auto simp: reply_of_def)

text \<open>A call that acts like its locked counterpart after some calls of others.\<close>

lemma linearize:
  assumes "exec_call clk call (snd (run_calls calls dir)) = (reply, dir')"
  shows "\<exists>calls clk replies. run_calls (calls @ [(clk, call)]) dir = (replies @ [reply], dir')"
proof -
  obtain r1 d1 where "run_calls calls dir = (r1, d1)" by fastforce
  with assms have "run_calls (calls @ [(clk, call)]) dir = (r1 @ [reply], dir')"
    by (simp add: run_calls_append)
  then show ?thesis by blast
qed

text \<open>
  C6: The object store backend refines the locked one. Against a store that keeps its documented
  conditional put, shared with clients of the same interface, every call that is answered with a
  value has its place in a history of the locked backend: the calls of others first, then this
  call with this answer, and the objects afterwards are the directory that history ends in.
\<close>

theorem object_backend_refines_local:
  assumes "conditional_put os" and "versions_not_reused os" and "inj (join root)"
    and "clients_only os join root"
    and "object_exec_call os join root clk call s = (reply, s')" and "\<forall>e. reply \<noteq> ErrorReply e"
  shows "\<exists>calls clk' replies. run_calls (calls @ [(clk', call)]) (dir_of os join root s)
    = (replies @ [reply], dir_of os join root s')"
proof (cases call)
  case (AcquireLease run_id task_id owner ttl_ms)
  with assms(5,6) obtain v where v: "reply = LeaseAcquireReply v" "trim owner \<noteq> []"
    "object_mutate os join root run_id
       (\<lambda>_. acquire_mutation (clk 0 0) run_id task_id owner ttl_ms False) s = (Inr v, s')"
    by (auto simp: object_acquire_inner_def elim!: reply_of_value split: if_splits)
  from object_mutate_atomic [OF assms(1-4) v(3)] obtain calls where
    "mutate_local (snd (run_calls calls (dir_of os join root s))) run_id
       (acquire_mutation (clk 0 0) run_id task_id owner ttl_ms False) = (Inr v, dir_of os join root s')"
    by blast
  with v AcquireLease show ?thesis
    by (intro linearize [of "clk 0" _ calls]) (simp add: acquire_lease_def acquire_lease_inner_def reply_of_def)
next
  case (TakeoverLease run_id task_id owner ttl_ms)
  with assms(5,6) obtain v where v: "reply = LeaseAcquireReply v" "trim owner \<noteq> []"
    "object_mutate os join root run_id
       (\<lambda>_. acquire_mutation (clk 0 0) run_id task_id owner ttl_ms True) s = (Inr v, s')"
    by (auto simp: object_acquire_inner_def elim!: reply_of_value split: if_splits)
  from object_mutate_atomic [OF assms(1-4) v(3)] obtain calls where
    "mutate_local (snd (run_calls calls (dir_of os join root s))) run_id
       (acquire_mutation (clk 0 0) run_id task_id owner ttl_ms True) = (Inr v, dir_of os join root s')"
    by blast
  with v TakeoverLease show ?thesis
    by (intro linearize [of "clk 0" _ calls]) (simp add: takeover_lease_def acquire_lease_inner_def reply_of_def)
next
  case (BindAttempt run_id epoch attempt_id)
  with assms(5,6) obtain v where v: "reply = BooleanReply v"
    "object_mutate os join root run_id (\<lambda>j. bind_mutation (clk j 0) run_id epoch attempt_id) s = (Inr v, s')"
    by (auto elim!: reply_of_value)
  from object_mutate_atomic [OF assms(1-4) v(2)] obtain calls j where
    "mutate_local (snd (run_calls calls (dir_of os join root s))) run_id
       (bind_mutation (clk j 0) run_id epoch attempt_id) = (Inr v, dir_of os join root s')" .
  with v BindAttempt show ?thesis
    by (intro linearize [of "clk j" _ calls]) (simp add: bind_attempt_def reply_of_def)
next
  case (RenewLease run_id epoch owner ttl_ms)
  with assms(5,6) obtain v where v: "reply = BooleanReply v"
    "object_mutate os join root run_id (\<lambda>j. renew_mutation (clk j 0) run_id epoch owner ttl_ms) s = (Inr v, s')"
    by (auto elim!: reply_of_value)
  from object_mutate_atomic [OF assms(1-4) v(2)] obtain calls j where
    "mutate_local (snd (run_calls calls (dir_of os join root s))) run_id
       (renew_mutation (clk j 0) run_id epoch owner ttl_ms) = (Inr v, dir_of os join root s')" .
  with v RenewLease show ?thesis
    by (intro linearize [of "clk j" _ calls]) (simp add: renew_lease_def reply_of_def)
next
  case (CommitRunCall request)
  with assms(5,6) obtain v where v: "reply = CommitRunReply v" "commit_request_check request = Inr ()"
    "object_mutate os join root (rq_run_id request)
       (\<lambda>j. commit_mutation (clk j 0) (clk j 1) request) s = (Inr v, s')"
    by (auto simp: object_commit_run_def elim!: reply_of_value split: sum.splits)
  from object_mutate_atomic [OF assms(1-4) v(3)] obtain calls j where
    "mutate_local (snd (run_calls calls (dir_of os join root s))) (rq_run_id request)
       (commit_mutation (clk j 0) (clk j 1) request) = (Inr v, dir_of os join root s')" .
  with v CommitRunCall show ?thesis
    by (intro linearize [of "clk j" _ calls]) (simp add: commit_run_def reply_of_def)
next
  case (GetRun run_id)
  with assms(5,6) have "reply = RunReply (dir_of os join root s (record_path run_id))" "s' = s"
    by (auto simp: object_get_def dir_of_def contents_def object_path_eq elim!: reply_of_value
        split: get_result.splits)
  with GetRun show ?thesis by (intro linearize [of _ _ "[]"]) (simp add: get_run_def)
qed


text \<open>
  A sample store: objects with version numbers, and a rival who takes the lease over in the gap
  of the first attempt.
\<close>

definition slash_join :: "string \<Rightarrow> string \<Rightarrow> string" where
  "slash_join root name = root @ ''/'' @ name"

definition rival :: "control_dir \<Rightarrow> control_dir" where
  "rival dir = snd (run_calls [(\<lambda>_. 150, TakeoverLease ''run-1'' None ''owner-b'' 1000)] dir)"

definition rival_gap ::
  "(string \<rightharpoonup> RunControlRecord \<times> nat) \<Rightarrow> (string \<rightharpoonup> RunControlRecord \<times> nat)" where
  "rival_gap s =
    (let path = slash_join ''ctl'' (record_path ''run-1'');
         now = rival (\<lambda>name. map_option fst (s (slash_join ''ctl'' name))) (record_path ''run-1'')
     in case now of None \<Rightarrow> s
        | Some q \<Rightarrow> if map_option fst (s path) = Some q then s
            else s(path \<mapsto> (q, case s path of None \<Rightarrow> 0 | Some (_, v) \<Rightarrow> Suc v)))"

definition rival_os ::
  "(string \<rightharpoonup> RunControlRecord \<times> nat, RunControlRecord, nat, control_error) object_client" where
  "rival_os = \<lparr>
     os_get = (\<lambda>s path. case s path of None \<Rightarrow> GetNotFound | Some (q, v) \<Rightarrow> GotRecord q v),
     os_put = (\<lambda>s path q mode. case (mode, s path) of
         (PutCreate, None) \<Rightarrow> (PutOk, s(path \<mapsto> (q, 0)))
       | (PutCreate, Some _) \<Rightarrow> (PutAlreadyExists, s)
       | (PutUpdate _, None) \<Rightarrow> (PutPrecondition, s)
       | (PutUpdate v, Some (_, w)) \<Rightarrow> if v = w then (PutOk, s(path \<mapsto> (q, Suc w))) else (PutPrecondition, s)),
     os_env = (\<lambda>i s. if i = 0 then rival_gap s else s),
     os_failed = ObjectStoreFailure, os_contention = CasContentionExceeded\<rparr>"

lemma slash_join_inj: "inj (slash_join root)"
  by (auto simp: slash_join_def inj_def)

lemma rival_os_put: "conditional_put rival_os"
  by (auto simp: conditional_put_def rival_os_def contents_def got_record_def intro!: ext
      split: option.splits PutMode.splits if_splits prod.splits)

lemma rival_os_versions: "versions_not_reused rival_os"
  by (auto simp: versions_not_reused_def rival_os_def rival_gap_def Let_def
      split: option.splits if_splits)

lemma rival_cases: "rival dir = dir \<or> (\<exists>q. rival dir = dir(record_path ''run-1'' \<mapsto> q))"
  by (auto simp: rival_def takeover_lease_def acquire_lease_inner_def reply_of_def mutate_local_def
      apply_mutation_def split: prod.splits if_splits sum.splits Mutation.splits)

lemma rival_os_dir:
  "dir_of rival_os slash_join ''ctl'' s = (\<lambda>name. map_option fst (s (slash_join ''ctl'' name)))"
  by (auto simp: dir_of_def contents_def got_record_def rival_os_def split: option.splits)

lemma rival_os_clients: "clients_only rival_os slash_join ''ctl''"
proof -
  let ?dir = "dir_of rival_os slash_join ''ctl''"
  have gap: "?dir (rival_gap s) = rival (?dir s)" for s
    using rival_cases [of "?dir s"] injD [OF slash_join_inj [of "''ctl''"]]
    by (auto simp: rival_os_dir rival_gap_def Let_def fun_eq_iff split: option.splits)
  show ?thesis
    unfolding clients_only_def
  proof (intro allI)
    fix i s
    show "\<exists>calls. ?dir (os_env rival_os i s) = snd (run_calls calls (?dir s))"
    proof (cases "i = 0")
      case True
      then have "os_env rival_os i s = rival_gap s" by (simp add: rival_os_def)
      then have "?dir (os_env rival_os i s) = rival (?dir s)" using gap by simp
      then show ?thesis unfolding rival_def by blast
    next
      case False
      then show ?thesis by (intro exI [of _ "[]"]) (simp add: rival_os_def)
    qed
  qed
qed

theorem object_backend_refines_local_witness:
  "\<exists>calls clk' replies. run_calls (calls @ [(clk', AcquireLease ''run-1'' None ''owner-a'' 1000)]) Map.empty
    = (replies @ [LeaseAcquireReply (Held \<lparr>l_run_id = ''run-1'', l_task_id = None, l_epoch = 1,
         l_owner = ''owner-b'', l_issued_at_unix_ms = 150, l_expires_at_unix_ms = 1150, l_attempt_id = None\<rparr>)],
       dir_of rival_os slash_join ''ctl'' (snd (object_exec_call rival_os slash_join ''ctl'' (\<lambda>_ _. 200)
         (AcquireLease ''run-1'' None ''owner-a'' 1000) Map.empty)))"
proof -
  let ?call = "AcquireLease ''run-1'' None ''owner-a'' 1000"
  let ?run = "object_exec_call rival_os slash_join ''ctl'' (\<lambda>_ _. 200) ?call Map.empty"
  have "fst ?run = LeaseAcquireReply (Held \<lparr>l_run_id = ''run-1'', l_task_id = None, l_epoch = 1,
      l_owner = ''owner-b'', l_issued_at_unix_ms = 150, l_expires_at_unix_ms = 1150, l_attempt_id = None\<rparr>)"
    (is "_ = ?reply")
    by code_simp
  then have "?run = (?reply, snd ?run)" by (metis prod.collapse)
  from object_backend_refines_local [OF rival_os_put rival_os_versions slash_join_inj rival_os_clients this]
  show ?thesis by (simp add: rival_os_dir del: object_exec_call.simps)
qed

end
