(* ===== verification/AttemptRegistry.thy ===== *)
theory AttemptRegistry
  imports RunTypes RecordStore
begin

section \<open>The attempt registry\<close>

text \<open>
  \<open>persisting-pchronicle/src/store/attempt_registry.rs\<close>: one record per run says which attempt
  is alive under which lease epoch, until when, and with which terminal result. A newer epoch
  fences every update of an older one. A terminal result is a JSON value, of which the registry
  only uses equality: it is the type parameter. Local calls are \<open>apply_mutation\<close>, calls on an
  object store \<open>cas_mutate\<close>, as in the run control store.
\<close>

datatype AttemptRecordState = AttemptActive | AttemptTerminal

record 'j AttemptRecord =
  ar_revision :: u64
  ar_run_id :: string
  ar_attempt_id :: string
  ar_lease_epoch :: u64
  ar_state :: AttemptRecordState
  ar_heartbeat_at_unix_ms :: u64
  ar_expires_at_unix_ms :: u64
  ar_terminal_result :: "'j option"

definition is_live_at :: "'j AttemptRecord \<Rightarrow> u64 \<Rightarrow> bool" where
  "is_live_at r now \<longleftrightarrow> ar_state r = AttemptActive \<and> now < ar_expires_at_unix_ms r"

datatype attempt_error = AttemptIdentityInvalid | AttemptRevisionOverflow | AttemptStoreFailure
  | AttemptCasContention

type_synonym 'j attempt_dir = "string \<rightharpoonup> 'j AttemptRecord"

type_synonym 'j attempt_mutation =
  "'j AttemptRecord option \<Rightarrow> attempt_error + ('j AttemptRecord, bool) Mutation"

definition validate_identity :: "string \<Rightarrow> string \<Rightarrow> u64 \<Rightarrow> attempt_error + unit" where
  "validate_identity run_id attempt_id lease_epoch =
    (if trim run_id = [] \<or> trim attempt_id = [] \<or> lease_epoch = 0 then Inl AttemptIdentityInvalid
     else Inr ())"

definition next_revision :: "'j AttemptRecord option \<Rightarrow> attempt_error + u64" where
  "next_revision current =
    (case checked_add (case current of Some r \<Rightarrow> ar_revision r | None \<Rightarrow> 0) 1 of
       None \<Rightarrow> Inl AttemptRevisionOverflow | Some revision \<Rightarrow> Inr revision)"

definition encoded_id :: "string \<Rightarrow> string" where
  "encoded_id value = concat (map encode_id_byte value)"

definition attempt_record_path :: "string \<Rightarrow> string" where
  "attempt_record_path run_id = encoded_id run_id @ ''.json''"

definition active_mutation :: "u64 \<Rightarrow> string \<Rightarrow> string \<Rightarrow> u64 \<Rightarrow> u64 \<Rightarrow> 'j attempt_mutation" where
  "active_mutation now run_id attempt_id lease_epoch ttl_ms current =
    (if (case current of None \<Rightarrow> False
         | Some r \<Rightarrow> lease_epoch < ar_lease_epoch r \<or>
             ar_lease_epoch r = lease_epoch \<and>
               (ar_attempt_id r \<noteq> attempt_id \<or> ar_state r = AttemptTerminal))
     then Inr (Unchanged False)
     else rbind (next_revision current) (\<lambda>revision.
       Inr (Replace \<lparr>ar_revision = revision, ar_run_id = run_id, ar_attempt_id = attempt_id,
         ar_lease_epoch = lease_epoch, ar_state = AttemptActive, ar_heartbeat_at_unix_ms = now,
         ar_expires_at_unix_ms = saturating_add now (max ttl_ms 1), ar_terminal_result = None\<rparr> True)))"

definition heartbeat_mutation :: "u64 \<Rightarrow> string \<Rightarrow> string \<Rightarrow> u64 \<Rightarrow> u64 \<Rightarrow> 'j attempt_mutation" where
  "heartbeat_mutation now run_id attempt_id lease_epoch ttl_ms current =
    (case current of None \<Rightarrow> Inr (Unchanged False)
     | Some r \<Rightarrow>
        if ar_run_id r \<noteq> run_id \<or> ar_attempt_id r \<noteq> attempt_id \<or> ar_lease_epoch r \<noteq> lease_epoch
           \<or> ar_state r \<noteq> AttemptActive
        then Inr (Unchanged False)
        else rbind (next_revision (Some r)) (\<lambda>revision.
          Inr (Replace (r\<lparr>ar_revision := revision, ar_heartbeat_at_unix_ms := now,
            ar_expires_at_unix_ms := saturating_add now (max ttl_ms 1)\<rparr>) True)))"

definition terminal_mutation :: "u64 \<Rightarrow> string \<Rightarrow> string \<Rightarrow> u64 \<Rightarrow> 'j \<Rightarrow> 'j attempt_mutation" where
  "terminal_mutation now run_id attempt_id lease_epoch result current =
    (case current of None \<Rightarrow> Inr (Unchanged False)
     | Some r \<Rightarrow>
        if ar_run_id r \<noteq> run_id \<or> ar_attempt_id r \<noteq> attempt_id \<or> ar_lease_epoch r \<noteq> lease_epoch
        then Inr (Unchanged False)
        else if ar_state r = AttemptTerminal
        then Inr (Unchanged (ar_terminal_result r = Some result))
        else rbind (next_revision (Some r)) (\<lambda>revision.
          Inr (Replace (r\<lparr>ar_revision := revision, ar_state := AttemptTerminal,
            ar_heartbeat_at_unix_ms := now, ar_expires_at_unix_ms := now,
            ar_terminal_result := Some result\<rparr>) True)))"

definition registry_mutate ::
  "'j attempt_dir \<Rightarrow> string \<Rightarrow> 'j attempt_mutation \<Rightarrow> (attempt_error + bool) \<times> 'j attempt_dir" where
  "registry_mutate dir run_id f =
    apply_mutation dir (attempt_record_path run_id) (f (dir (attempt_record_path run_id)))"

definition publish_active ::
  "clock \<Rightarrow> 'j attempt_dir \<Rightarrow> string \<Rightarrow> string \<Rightarrow> u64 \<Rightarrow> u64 \<Rightarrow> (attempt_error + bool) \<times> 'j attempt_dir"
  where
  "publish_active clk dir run_id attempt_id lease_epoch ttl_ms =
    (case validate_identity run_id attempt_id lease_epoch of Inl e \<Rightarrow> (Inl e, dir)
     | Inr _ \<Rightarrow> registry_mutate dir run_id (active_mutation (clk 0) run_id attempt_id lease_epoch ttl_ms))"

definition heartbeat ::
  "clock \<Rightarrow> 'j attempt_dir \<Rightarrow> string \<Rightarrow> string \<Rightarrow> u64 \<Rightarrow> u64 \<Rightarrow> (attempt_error + bool) \<times> 'j attempt_dir"
  where
  "heartbeat clk dir run_id attempt_id lease_epoch ttl_ms =
    (case validate_identity run_id attempt_id lease_epoch of Inl e \<Rightarrow> (Inl e, dir)
     | Inr _ \<Rightarrow> registry_mutate dir run_id (heartbeat_mutation (clk 0) run_id attempt_id lease_epoch ttl_ms))"

definition publish_terminal ::
  "clock \<Rightarrow> 'j attempt_dir \<Rightarrow> string \<Rightarrow> string \<Rightarrow> u64 \<Rightarrow> 'j \<Rightarrow> (attempt_error + bool) \<times> 'j attempt_dir"
  where
  "publish_terminal clk dir run_id attempt_id lease_epoch result =
    (case validate_identity run_id attempt_id lease_epoch of Inl e \<Rightarrow> (Inl e, dir)
     | Inr _ \<Rightarrow> registry_mutate dir run_id (terminal_mutation (clk 0) run_id attempt_id lease_epoch result))"

definition registry_get :: "'j attempt_dir \<Rightarrow> string \<Rightarrow> 'j AttemptRecord option" where
  "registry_get dir run_id = dir (attempt_record_path run_id)"

text \<open>The same calls on an object store, whose closure reads the clock in each attempt.\<close>

definition registry_mutate_object ::
  "('s, 'j AttemptRecord, 'v, attempt_error) object_client \<Rightarrow> (string \<Rightarrow> string \<Rightarrow> string) \<Rightarrow> string
   \<Rightarrow> string \<Rightarrow> (nat \<Rightarrow> 'j attempt_mutation) \<Rightarrow> 's \<Rightarrow> (attempt_error + bool) \<times> 's" where
  "registry_mutate_object os join root run_id f s = cas_mutate os (join root (encoded_id run_id @ ''.json'')) f s"

subsection \<open>Well-formed records and how a record may advance\<close>

definition ar_wf :: "string \<Rightarrow> 'j AttemptRecord \<Rightarrow> bool" where
  "ar_wf run_id r \<longleftrightarrow> ar_run_id r = run_id \<and> 0 < ar_revision r \<and> 0 < ar_lease_epoch r \<and>
     (ar_state r = AttemptTerminal \<longleftrightarrow> ar_terminal_result r \<noteq> None)"

text \<open>Either a larger epoch, or the same active attempt under the same epoch.\<close>

definition ar_advances :: "'j AttemptRecord \<Rightarrow> 'j AttemptRecord \<Rightarrow> bool" where
  "ar_advances a b \<longleftrightarrow> ar_revision a < ar_revision b \<and>
     (ar_lease_epoch a < ar_lease_epoch b \<or>
      ar_lease_epoch b = ar_lease_epoch a \<and> ar_attempt_id b = ar_attempt_id a \<and>
      ar_state a = AttemptActive)"

definition registry_wf :: "'j attempt_dir \<Rightarrow> bool" where
  "registry_wf dir \<longleftrightarrow>
    (\<forall>path r. dir path = Some r \<longrightarrow> (\<exists>run_id. path = attempt_record_path run_id \<and> ar_wf run_id r))"

lemma encoded_id_eq: "encoded_id = encoded_run_id"
  by (simp add: fun_eq_iff encoded_id_def encoded_run_id_def)

lemma attempt_record_path_inj [simp]: "attempt_record_path a = attempt_record_path b \<longleftrightarrow> a = b"
  by (simp add: attempt_record_path_def encoded_id_eq)

lemma registry_wf_get: "registry_wf dir \<Longrightarrow> registry_get dir run_id = Some r \<Longrightarrow> ar_wf run_id r"
  by (force simp: registry_wf_def registry_get_def)

lemma registry_wf_input: "registry_wf dir \<Longrightarrow> pred_option (ar_wf run_id) (dir (attempt_record_path run_id))"
  using registry_wf_get by (force simp: registry_get_def pred_option_def)

lemma next_revision_Inr:
  "next_revision current = Inr n \<longleftrightarrow> checked_add (case current of Some r \<Rightarrow> ar_revision r | None \<Rightarrow> 0) 1 = Some n"
  by (auto simp: next_revision_def split: option.splits)

locale attempt_op = record_op "attempt_record_path run_id" mut "ar_wf run_id" ar_advances
  for run_id :: string and mut :: "'j attempt_mutation"
begin

lemma mutate_wf:
  assumes "registry_wf dir" and "registry_mutate dir run_id mut = (res, dir')"
  shows "registry_wf dir'"
  unfolding registry_wf_def
proof (intro allI impI)
  fix path r
  assume r: "dir' path = Some r"
  show "\<exists>run_id. path = attempt_record_path run_id \<and> ar_wf run_id r"
  proof (cases "path = attempt_record_path run_id")
    case True
    with apply_wf [OF assms(2) [unfolded registry_mutate_def] registry_wf_input [OF assms(1)]] r
    show ?thesis by auto
  next
    case False
    with apply_frame [OF assms(2) [unfolded registry_mutate_def]] r assms(1)
    show ?thesis by (auto simp: registry_wf_def)
  qed
qed

lemma mutate_advances:
  assumes "registry_wf dir" and "registry_mutate dir run_id mut = (res, dir')"
    and "registry_get dir r = Some a"
  shows "registry_get dir' r = Some a \<or> (\<exists>b. registry_get dir' r = Some b \<and> ar_advances a b)"
  using apply_adv [OF assms(2) [unfolded registry_mutate_def] registry_wf_input [OF assms(1)]] assms(3)
  by (simp add: registry_get_def)

end

text \<open>The identity check before the mutation, as one closure.\<close>

definition guarded :: "string \<Rightarrow> string \<Rightarrow> u64 \<Rightarrow> 'j attempt_mutation \<Rightarrow> 'j attempt_mutation" where
  "guarded run_id attempt_id lease_epoch f current =
     rbind (validate_identity run_id attempt_id lease_epoch) (\<lambda>_. f current)"

lemma publish_active_eq:
  "publish_active clk dir run_id attempt_id lease_epoch ttl_ms = registry_mutate dir run_id
     (guarded run_id attempt_id lease_epoch (active_mutation (clk 0) run_id attempt_id lease_epoch ttl_ms))"
  by (simp add: publish_active_def registry_mutate_def guarded_def apply_mutation_def split: sum.splits)

lemma heartbeat_eq:
  "heartbeat clk dir run_id attempt_id lease_epoch ttl_ms = registry_mutate dir run_id
     (guarded run_id attempt_id lease_epoch (heartbeat_mutation (clk 0) run_id attempt_id lease_epoch ttl_ms))"
  by (simp add: heartbeat_def registry_mutate_def guarded_def apply_mutation_def split: sum.splits)

lemma publish_terminal_eq:
  "publish_terminal clk dir run_id attempt_id lease_epoch result = registry_mutate dir run_id
     (guarded run_id attempt_id lease_epoch (terminal_mutation (clk 0) run_id attempt_id lease_epoch result))"
  by (simp add: publish_terminal_def registry_mutate_def guarded_def apply_mutation_def split: sum.splits)

lemma not_terminal [simp]: "s \<noteq> AttemptTerminal \<longleftrightarrow> s = AttemptActive"
  by (cases s) simp_all

lemmas attempt_unfold = ar_wf_def ar_advances_def next_revision_Inr guarded_def validate_identity_def

interpretation active_op: attempt_op run_id
  "guarded run_id attempt_id lease_epoch (active_mutation now run_id attempt_id lease_epoch ttl_ms)"
  for now run_id attempt_id lease_epoch ttl_ms
  by unfold_locales
    (auto simp: active_mutation_def attempt_unfold word_neq_0_conv dest: checked_succ_pos checked_succ_Some
      split: option.splits rbind_splits if_splits)

interpretation heartbeat_op: attempt_op run_id
  "guarded run_id attempt_id lease_epoch (heartbeat_mutation now run_id attempt_id lease_epoch ttl_ms)"
  for now run_id attempt_id lease_epoch ttl_ms
  by unfold_locales
    (auto simp: heartbeat_mutation_def attempt_unfold dest: checked_succ_pos checked_succ_Some
      split: option.splits rbind_splits if_splits)

interpretation terminal_op: attempt_op run_id
  "guarded run_id attempt_id lease_epoch (terminal_mutation now run_id attempt_id lease_epoch result)"
  for now run_id attempt_id lease_epoch result
  by unfold_locales
    (auto simp: terminal_mutation_def attempt_unfold dest: checked_succ_pos checked_succ_Some
      split: option.splits rbind_splits if_splits)

subsection \<open>Histories of calls\<close>

datatype 'j registry_call =
    PublishActive string string u64 u64
  | Heartbeat string string u64 u64
  | PublishTerminal string string u64 'j

fun exec_registry ::
  "clock \<Rightarrow> 'j registry_call \<Rightarrow> 'j attempt_dir \<Rightarrow> (attempt_error + bool) \<times> 'j attempt_dir" where
  "exec_registry clk (PublishActive run_id attempt_id lease_epoch ttl_ms) dir =
     publish_active clk dir run_id attempt_id lease_epoch ttl_ms"
| "exec_registry clk (Heartbeat run_id attempt_id lease_epoch ttl_ms) dir =
     heartbeat clk dir run_id attempt_id lease_epoch ttl_ms"
| "exec_registry clk (PublishTerminal run_id attempt_id lease_epoch result) dir =
     publish_terminal clk dir run_id attempt_id lease_epoch result"

fun run_registry :: "(clock \<times> 'j registry_call) list \<Rightarrow> 'j attempt_dir \<Rightarrow> 'j attempt_dir" where
  "run_registry [] dir = dir"
| "run_registry ((clk, call) # calls) dir = run_registry calls (snd (exec_registry clk call dir))"

lemma exec_registry_wf:
  "registry_wf dir \<Longrightarrow> registry_wf (snd (exec_registry clk call dir))"
  by (cases call) (auto simp: publish_active_eq heartbeat_eq publish_terminal_eq
      intro: active_op.mutate_wf heartbeat_op.mutate_wf terminal_op.mutate_wf surjective_pairing)

lemma exec_registry_advances:
  assumes "registry_wf dir" and "registry_get dir r = Some a"
  shows "registry_get (snd (exec_registry clk call dir)) r = Some a \<or>
    (\<exists>b. registry_get (snd (exec_registry clk call dir)) r = Some b \<and> ar_advances a b)"
  by (cases call) (use assms in \<open>auto simp: publish_active_eq heartbeat_eq publish_terminal_eq
      dest: active_op.mutate_advances [OF _ surjective_pairing]
        heartbeat_op.mutate_advances [OF _ surjective_pairing]
        terminal_op.mutate_advances [OF _ surjective_pairing]\<close>)

lemma run_registry_wf: "registry_wf dir \<Longrightarrow> registry_wf (run_registry calls dir)"
  by (induction calls dir rule: run_registry.induct) (simp_all add: exec_registry_wf)

lemma ar_advances_trans: "ar_advances a b \<Longrightarrow> ar_advances b c \<Longrightarrow> ar_advances a c"
  unfolding ar_advances_def by fastforce

lemma run_registry_advances:
  assumes "registry_wf dir" and "registry_get dir r = Some a"
  shows "registry_get (run_registry calls dir) r = Some a \<or>
    (\<exists>b. registry_get (run_registry calls dir) r = Some b \<and> ar_advances a b)"
  using assms
proof (induction calls dir arbitrary: a rule: run_registry.induct)
  case (2 clk call calls dir)
  from exec_registry_advances [OF "2.prems"]
  obtain b where b: "registry_get (snd (exec_registry clk call dir)) r = Some b" "b = a \<or> ar_advances a b"
    by blast
  from "2.IH" [OF exec_registry_wf [OF "2.prems"(1)] b(1)] b(2) show ?case
    by (auto intro: ar_advances_trans)
qed simp


subsection \<open>Correctness of the registry\<close>

definition demo_attempt :: "string \<Rightarrow> u64 \<Rightarrow> (clock \<times> nat registry_call) list" where
  "demo_attempt attempt_id epoch =
    [(\<lambda>_. 100, PublishActive ''run-1'' attempt_id epoch 1000),
     (\<lambda>_. 200, PublishTerminal ''run-1'' attempt_id epoch 5)]"

lemma registry_wf_empty [simp]: "registry_wf Map.empty"
  by (simp add: registry_wf_def)

text \<open>
  C10: Attempts are fenced by lease epoch. Whatever calls follow, the epoch of a run in the registry
  never goes back; and once it is larger than the epoch an attempt was started under, that
  attempt can neither announce itself, nor send a heartbeat, nor publish its result: each call
  answers \<open>False\<close> and changes nothing.
\<close>

theorem attempt_epoch_fenced:
  assumes "registry_wf dir" and "registry_get dir run_id = Some a" and "dir' = run_registry calls dir"
    and "validate_identity run_id attempt_id epoch = Inr ()"
  shows "\<exists>b. registry_get dir' run_id = Some b \<and> ar_lease_epoch a \<le> ar_lease_epoch b \<and>
    (epoch < ar_lease_epoch b \<longrightarrow>
      publish_active clk dir' run_id attempt_id epoch ttl_ms = (Inr False, dir') \<and>
      heartbeat clk dir' run_id attempt_id epoch ttl_ms = (Inr False, dir') \<and>
      publish_terminal clk dir' run_id attempt_id epoch result = (Inr False, dir'))"
proof -
  from run_registry_advances [OF assms(1,2)] obtain b where
    b: "registry_get dir' run_id = Some b" "b = a \<or> ar_advances a b"
    unfolding assms(3) by blast
  from b(1) have "dir' (attempt_record_path run_id) = Some b" by (simp add: registry_get_def)
  with assms(4) have "epoch < ar_lease_epoch b \<longrightarrow>
      publish_active clk dir' run_id attempt_id epoch ttl_ms = (Inr False, dir') \<and>
      heartbeat clk dir' run_id attempt_id epoch ttl_ms = (Inr False, dir') \<and>
      publish_terminal clk dir' run_id attempt_id epoch result = (Inr False, dir')"
    by (auto simp: publish_active_def heartbeat_def publish_terminal_def registry_mutate_def
        apply_mutation_def active_mutation_def heartbeat_mutation_def terminal_mutation_def)
  with b show ?thesis by (auto simp: ar_advances_def)
qed

theorem attempt_epoch_fenced_witness:
  "fst (publish_active (\<lambda>_. 300) (run_registry (demo_attempt ''a2'' 2)
      (run_registry (demo_attempt ''a1'' 1) Map.empty)) ''run-1'' ''a1'' 1 1000) = Inr False"
proof -
  have a: "registry_get (run_registry (demo_attempt ''a1'' 1) Map.empty) ''run-1'' = Some
      \<lparr>ar_revision = 2, ar_run_id = ''run-1'', ar_attempt_id = ''a1'', ar_lease_epoch = 1,
       ar_state = AttemptTerminal, ar_heartbeat_at_unix_ms = 200, ar_expires_at_unix_ms = 200,
       ar_terminal_result = Some 5\<rparr>" by code_simp
  have id: "validate_identity ''run-1'' ''a1'' 1 = Inr ()" by code_simp
  have b: "map_option ar_lease_epoch (registry_get (run_registry (demo_attempt ''a2'' 2)
      (run_registry (demo_attempt ''a1'' 1) Map.empty)) ''run-1'') = Some 2" by code_simp
  show ?thesis
    using attempt_epoch_fenced [OF run_registry_wf [OF registry_wf_empty] a refl id,
        of "demo_attempt ''a2'' 2" "\<lambda>_. 300" 1000 5] b
    by auto
qed

text \<open>
  C11: A terminal result is final under its epoch. After an attempt has published its terminal
  result, the record of the run stays as it is until a larger epoch announces itself; publishing
  again answers whether the result is the same one, and changes nothing.
\<close>

theorem terminal_result_final:
  assumes "registry_wf dir" and "registry_get dir run_id = Some a" and "ar_state a = AttemptTerminal"
    and "registry_get (run_registry calls dir) run_id = Some b" and "ar_lease_epoch b = ar_lease_epoch a"
    and "validate_identity run_id (ar_attempt_id a) (ar_lease_epoch a) = Inr ()"
  shows "b = a \<and> publish_terminal clk (run_registry calls dir) run_id (ar_attempt_id a) (ar_lease_epoch a) result
    = (Inr (ar_terminal_result a = Some result), run_registry calls dir)"
proof -
  have "b = a"
    using run_registry_advances [OF assms(1,2), of calls] assms(3-5) by (auto simp: ar_advances_def)
  moreover have "ar_run_id a = run_id"
    using registry_wf_get [OF assms(1,2)] by (simp add: ar_wf_def)
  ultimately show ?thesis
    using assms(3,4,6) by (auto simp: publish_terminal_def registry_mutate_def apply_mutation_def
        terminal_mutation_def registry_get_def)
qed

theorem terminal_result_final_witness:
  "fst (publish_terminal (\<lambda>_. 900) (run_registry [(\<lambda>_. 800, PublishTerminal ''run-1'' ''a1'' 1 6)]
      (run_registry (demo_attempt ''a1'' 1) Map.empty)) ''run-1'' ''a1'' 1 5) = Inr True"
proof -
  let ?d = "run_registry (demo_attempt ''a1'' 1) Map.empty"
  let ?calls = "[(\<lambda>_. 800, PublishTerminal ''run-1'' ''a1'' 1 6)] :: (clock \<times> nat registry_call) list"
  let ?a = "\<lparr>ar_revision = 2, ar_run_id = ''run-1'', ar_attempt_id = ''a1'', ar_lease_epoch = 1,
       ar_state = AttemptTerminal, ar_heartbeat_at_unix_ms = 200, ar_expires_at_unix_ms = 200,
       ar_terminal_result = Some 5\<rparr>"
  have a: "registry_get ?d ''run-1'' = Some ?a" by code_simp
  have b: "registry_get (run_registry ?calls ?d) ''run-1'' = Some ?a" by code_simp
  have id: "validate_identity ''run-1'' ''a1'' 1 = Inr ()" by code_simp
  show ?thesis
    using terminal_result_final [OF run_registry_wf [OF registry_wf_empty] a _ b, of "\<lambda>_. 900" 5] id
    by simp
qed

end
