(* ===== verification/BTreeMap.thy ===== *)
theory BTreeMap
  imports RustStr "HOL-Library.List_Lexorder" "HOL-Library.Char_ord"
begin

section \<open>Ordered maps and sets of the Rust standard library\<close>

text \<open>
  \<open>BTreeMap\<close> as the list of its entries in ascending key order, which is the order its iterators
  have; \<open>BTreeSet\<close> as a map to \<open>unit\<close>. Strings are ordered by their bytes, as in Rust. The
  operations are specified by the finite map \<open>bt_get m\<close> and the invariant \<open>bt_sorted\<close>.
\<close>

type_synonym ('k, 'v) btree = "('k \<times> 'v) list"

fun bt_get :: "('k, 'v) btree \<Rightarrow> 'k \<rightharpoonup> 'v" where
  "bt_get [] k = None"
| "bt_get ((k', v) # m) k = (if k = k' then Some v else bt_get m k)"

fun bt_insert :: "'k :: linorder \<Rightarrow> 'v \<Rightarrow> ('k, 'v) btree \<Rightarrow> ('k, 'v) btree" where
  "bt_insert k v [] = [(k, v)]"
| "bt_insert k v ((k', v') # m) =
    (if k < k' then (k, v) # (k', v') # m
     else if k = k' then (k, v) # m
     else (k', v') # bt_insert k v m)"

definition bt_remove :: "'k \<Rightarrow> ('k, 'v) btree \<Rightarrow> ('k, 'v) btree" where
  "bt_remove k m = filter (\<lambda>(k', _). k' \<noteq> k) m"

definition bt_keys :: "('k, 'v) btree \<Rightarrow> 'k list" where
  "bt_keys m = map fst m"

definition bt_values :: "('k, 'v) btree \<Rightarrow> 'v list" where
  "bt_values m = map snd m"

definition bt_contains :: "('k, 'v) btree \<Rightarrow> 'k \<Rightarrow> bool" where
  "bt_contains m k \<longleftrightarrow> bt_get m k \<noteq> None"

definition bt_sorted :: "('k :: linorder, 'v) btree \<Rightarrow> bool" where
  "bt_sorted m \<longleftrightarrow> sorted_wrt (<) (map fst m)"

lemma bt_get_map_of: "bt_get m = map_of m"
  by (rule ext, induction m) auto

lemma bt_get_insert [simp]: "bt_get (bt_insert k v m) = (bt_get m)(k \<mapsto> v)"
  by (induction k v m rule: bt_insert.induct) (auto simp: fun_eq_iff)

lemma bt_get_remove [simp]: "bt_get (bt_remove k m) = (bt_get m)(k := None)"
  by (rule ext, induction m) (auto simp: bt_remove_def)

lemma fst_set_bt_insert: "fst ` set (bt_insert k v m) = insert k (fst ` set m)"
  by (induction k v m rule: bt_insert.induct) auto

lemma bt_sorted_Nil [simp]: "bt_sorted []"
  by (simp add: bt_sorted_def)

lemma bt_sorted_Cons:
  "bt_sorted ((k, v) # m) \<longleftrightarrow> bt_sorted m \<and> (\<forall>k' \<in> fst ` set m. k < k')"
  by (auto simp: bt_sorted_def)

lemma bt_sorted_insert [simp]: "bt_sorted m \<Longrightarrow> bt_sorted (bt_insert k v m)"
  by (induction k v m rule: bt_insert.induct) (auto simp: bt_sorted_Cons fst_set_bt_insert)

lemma bt_sorted_remove [simp]: "bt_sorted m \<Longrightarrow> bt_sorted (bt_remove k m)"
  unfolding bt_sorted_def bt_remove_def
  by (induction m) (auto simp: sorted_wrt_append)

lemma bt_sorted_distinct: "bt_sorted m \<Longrightarrow> distinct (map fst m)"
  unfolding bt_sorted_def by (simp add: strict_sorted_iff)

lemma bt_get_iff: "bt_sorted m \<Longrightarrow> bt_get m k = Some v \<longleftrightarrow> (k, v) \<in> set m"
  by (simp add: bt_get_map_of bt_sorted_distinct map_of_eq_Some_iff)

lemma bt_get_None: "bt_get m k = None \<longleftrightarrow> k \<notin> fst ` set m"
  by (simp add: bt_get_map_of map_of_eq_None_iff)

text \<open>The entries of a map are determined by its lookups.\<close>

lemma bt_entries:
  assumes "bt_sorted m"
  shows "m = map (\<lambda>k. (k, the (bt_get m k))) (map fst m)"
proof -
  have "(k, v) = (k, the (bt_get m k))" if "(k, v) \<in> set m" for k v
    using bt_get_iff [OF assms, of k v] that by simp
  then have "map (\<lambda>x. (fst x, the (bt_get m (fst x)))) m = map (\<lambda>x. x) m"
    by (intro map_cong refl) force
  then show ?thesis by (simp add: comp_def)
qed

lemma bt_ext:
  assumes "bt_sorted m" and "bt_sorted n" and "bt_get m = bt_get n"
  shows "m = n"
proof -
  have "k \<in> fst ` set m \<longleftrightarrow> k \<in> fst ` set n" for k
    using bt_get_None [of m k] bt_get_None [of n k] assms(3) by argo
  then have "fst ` set m = fst ` set n" by (rule set_eqI)
  then have keys: "map fst m = map fst n"
    using assms(1,2) by (intro strict_sorted_equal) (auto simp: bt_sorted_def)
  have "m = map (\<lambda>k. (k, the (bt_get m k))) (map fst m)" by (rule bt_entries [OF assms(1)])
  also have "\<dots> = map (\<lambda>k. (k, the (bt_get n k))) (map fst n)" unfolding keys assms(3) ..
  also have "\<dots> = n" by (rule bt_entries [OF assms(2), symmetric])
  finally show ?thesis .
qed

end
