(* ===== verification/MemoryControl.thy ===== *)
theory MemoryControl
  imports RunControl AttemptRegistry BTreeMap
begin

section \<open>The in-memory control implementation\<close>

text \<open>
  \<open>MemoryChronicleControl\<close> of \<open>persisting-events/src/control.rs\<close>: the same interface as the
  durable store, on two ordered maps behind a mutex. It is written independently of the durable
  store (its own control flow, saturating revisions, one clock reading per call), so its
  agreement with the durable store is a theorem here. A poisoned mutex, which needs an earlier
  panic while it is held, is not modelled.
\<close>

record 'j MemoryChronicleControl =
  mc_runs :: "(RunId, RunControlRecord) btree"
  mc_attempts :: "(string, 'j AttemptRecord) btree"

definition mem_new :: "'j MemoryChronicleControl" where
  "mem_new = \<lparr>mc_runs = [], mc_attempts = []\<rparr>"

definition mem_acquire_inner ::
  "clock \<Rightarrow> 'j MemoryChronicleControl \<Rightarrow> RunId \<Rightarrow> string option \<Rightarrow> string \<Rightarrow> u64 \<Rightarrow> bool
   \<Rightarrow> (control_error + LeaseAcquireOutcome) \<times> 'j MemoryChronicleControl" where
  "mem_acquire_inner clk m run_id task_id owner ttl_ms force =
    (if trim owner = [] then (Inl RunLeaseOwnerEmpty, m)
     else
      (let now = clk 0; current = bt_get (mc_runs m) run_id;
           fresh = (case checked_add (case current_lease current of Some l \<Rightarrow> l_epoch l | None \<Rightarrow> 0) 1 of
               None \<Rightarrow> (Inl RunLeaseEpochOverflow, m)
             | Some epoch \<Rightarrow>
                (let lease = \<lparr>l_run_id = run_id, l_task_id = task_id, l_epoch = epoch, l_owner = owner,
                       l_issued_at_unix_ms = now, l_expires_at_unix_ms = saturating_add now (max ttl_ms 1),
                       l_attempt_id = None\<rparr>;
                     revision = (case current of None \<Rightarrow> 1 | Some r \<Rightarrow> saturating_add (rc_revision r) 1);
                     r' = \<lparr>rc_revision = revision, rc_run_id = run_id, rc_lease = Some lease, rc_commit = None\<rparr>
                 in (Inr (Acquired lease), m\<lparr>mc_runs := bt_insert run_id r' (mc_runs m)\<rparr>)))
       in case current_commit current of
            Some commit \<Rightarrow> (Inr (LeaseAlreadyCommitted commit), m)
          | None \<Rightarrow>
             (case current of None \<Rightarrow> fresh
              | Some r \<Rightarrow>
                (case rc_lease r of None \<Rightarrow> fresh
                 | Some existing \<Rightarrow>
                    if l_owner existing \<noteq> owner \<and> now < l_expires_at_unix_ms existing \<and> \<not> force
                    then (Inr (Held existing), m)
                    else if l_owner existing = owner \<and> \<not> force then
                      (let lease = existing\<lparr>l_expires_at_unix_ms := saturating_add now (max ttl_ms 1)\<rparr>;
                           r' = r\<lparr>rc_revision := saturating_add (rc_revision r) 1, rc_lease := Some lease\<rparr>
                       in (Inr (Acquired lease), m\<lparr>mc_runs := bt_insert run_id r' (mc_runs m)\<rparr>))
                    else fresh))))"

definition mem_acquire_lease where
  "mem_acquire_lease clk m run_id task_id owner ttl_ms = mem_acquire_inner clk m run_id task_id owner ttl_ms False"

definition mem_takeover_lease where
  "mem_takeover_lease clk m run_id task_id owner ttl_ms = mem_acquire_inner clk m run_id task_id owner ttl_ms True"

definition mem_bind_attempt ::
  "clock \<Rightarrow> 'j MemoryChronicleControl \<Rightarrow> RunId \<Rightarrow> u64 \<Rightarrow> AttemptId
   \<Rightarrow> (control_error + bool) \<times> 'j MemoryChronicleControl" where
  "mem_bind_attempt clk m run_id epoch attempt_id =
    (case bt_get (mc_runs m) run_id of None \<Rightarrow> (Inr False, m)
     | Some r \<Rightarrow>
      (case rc_lease r of None \<Rightarrow> (Inr False, m)
       | Some lease \<Rightarrow>
          if rc_commit r \<noteq> None \<or> l_epoch lease \<noteq> epoch \<or> l_expires_at_unix_ms lease \<le> clk 0
          then (Inr False, m)
          else if (case l_attempt_id lease of None \<Rightarrow> False | Some current \<Rightarrow> current \<noteq> attempt_id)
          then (Inr False, m)
          else if l_attempt_id lease = None then
            (Inr True, m\<lparr>mc_runs := bt_insert run_id
               (r\<lparr>rc_lease := Some (lease\<lparr>l_attempt_id := Some attempt_id\<rparr>),
                  rc_revision := saturating_add (rc_revision r) 1\<rparr>) (mc_runs m)\<rparr>)
          else (Inr True, m)))"

definition mem_renew_lease ::
  "clock \<Rightarrow> 'j MemoryChronicleControl \<Rightarrow> RunId \<Rightarrow> u64 \<Rightarrow> string \<Rightarrow> u64
   \<Rightarrow> (control_error + bool) \<times> 'j MemoryChronicleControl" where
  "mem_renew_lease clk m run_id epoch owner ttl_ms =
    (case bt_get (mc_runs m) run_id of None \<Rightarrow> (Inr False, m)
     | Some r \<Rightarrow>
      (case rc_lease r of None \<Rightarrow> (Inr False, m)
       | Some lease \<Rightarrow>
          if rc_commit r \<noteq> None \<or> l_epoch lease \<noteq> epoch \<or> l_owner lease \<noteq> owner
             \<or> l_expires_at_unix_ms lease \<le> clk 0
          then (Inr False, m)
          else (Inr True, m\<lparr>mc_runs := bt_insert run_id
            (r\<lparr>rc_lease := Some (lease\<lparr>l_expires_at_unix_ms := saturating_add (clk 0) (max ttl_ms 1)\<rparr>),
               rc_revision := saturating_add (rc_revision r) 1\<rparr>) (mc_runs m)\<rparr>)))"

definition mem_commit_run ::
  "clock \<Rightarrow> 'j MemoryChronicleControl \<Rightarrow> RunCommitRequest
   \<Rightarrow> (control_error + CommitRunOutcome) \<times> 'j MemoryChronicleControl" where
  "mem_commit_run clk m request =
    (if \<not> is_terminal (rq_state request) then (Inl CommitNotTerminal, m)
     else if \<not> 0 < rq_lease_epoch request then (Inl CommitZeroEpoch, m)
     else if trim (rq_result_digest request) = [] then (Inl CommitDigestEmpty, m)
     else case bt_get (mc_runs m) (rq_run_id request) of
       None \<Rightarrow> (Inr (StaleLease (rq_lease_epoch request) None), m)
     | Some r \<Rightarrow>
        (case rc_commit r of
           Some existing \<Rightarrow>
             (Inr (if c_request existing = request then AlreadyCommitted existing else Conflict existing), m)
         | None \<Rightarrow>
            (let current_epoch = map_option l_epoch (rc_lease r);
                 matches = (case rc_lease r of None \<Rightarrow> False
                   | Some lease \<Rightarrow> l_epoch lease = rq_lease_epoch request \<and>
                       clk 0 < l_expires_at_unix_ms lease \<and>
                       (case l_attempt_id lease of None \<Rightarrow> True | Some a \<Rightarrow> a = rq_attempt_id request))
             in if \<not> matches then (Inr (StaleLease (rq_lease_epoch request) current_epoch), m)
                else (let commit = \<lparr>c_request = request, c_committed_at_unix_ms = clk 0\<rparr>;
                          r' = r\<lparr>rc_lease := map_option (attempt_get_or_insert (rq_attempt_id request)) (rc_lease r),
                                 rc_commit := Some commit, rc_revision := saturating_add (rc_revision r) 1\<rparr>
                      in (Inr (Committed commit),
                          m\<lparr>mc_runs := bt_insert (rq_run_id request) r' (mc_runs m)\<rparr>)))))"

definition mem_get_run :: "'j MemoryChronicleControl \<Rightarrow> RunId \<Rightarrow> RunControlRecord option" where
  "mem_get_run m run_id = bt_get (mc_runs m) run_id"

definition mem_list_runs :: "'j MemoryChronicleControl \<Rightarrow> RunControlRecord list" where
  "mem_list_runs m = bt_values (mc_runs m)"

definition mem_get_attempt :: "'j MemoryChronicleControl \<Rightarrow> string \<Rightarrow> 'j AttemptRecord option" where
  "mem_get_attempt m run_id = bt_get (mc_attempts m) run_id"

definition mem_publish_active ::
  "clock \<Rightarrow> 'j MemoryChronicleControl \<Rightarrow> string \<Rightarrow> string \<Rightarrow> u64 \<Rightarrow> u64
   \<Rightarrow> (attempt_error + bool) \<times> 'j MemoryChronicleControl" where
  "mem_publish_active clk m run_id attempt_id lease_epoch ttl_ms =
    (if \<not> (trim run_id \<noteq> [] \<and> trim attempt_id \<noteq> [] \<and> 0 < lease_epoch) then (Inl AttemptIdentityInvalid, m)
     else
      (let current = bt_get (mc_attempts m) run_id in
       if (case current of None \<Rightarrow> False
           | Some r \<Rightarrow> lease_epoch < ar_lease_epoch r \<or> ar_lease_epoch r = lease_epoch \<and>
               (ar_attempt_id r \<noteq> attempt_id \<or> ar_state r = AttemptTerminal))
       then (Inr False, m)
       else
        (let revision = (case current of None \<Rightarrow> 1 | Some r \<Rightarrow> saturating_add (ar_revision r) 1) in
         (Inr True, m\<lparr>mc_attempts := bt_insert run_id
           \<lparr>ar_revision = revision, ar_run_id = run_id, ar_attempt_id = attempt_id,
            ar_lease_epoch = lease_epoch, ar_state = AttemptActive, ar_heartbeat_at_unix_ms = clk 0,
            ar_expires_at_unix_ms = saturating_add (clk 0) (max ttl_ms 1), ar_terminal_result = None\<rparr>
           (mc_attempts m)\<rparr>))))"

definition mem_publish_terminal ::
  "clock \<Rightarrow> 'j MemoryChronicleControl \<Rightarrow> string \<Rightarrow> string \<Rightarrow> u64 \<Rightarrow> 'j
   \<Rightarrow> (attempt_error + bool) \<times> 'j MemoryChronicleControl" where
  "mem_publish_terminal clk m run_id attempt_id lease_epoch result =
    (case bt_get (mc_attempts m) run_id of None \<Rightarrow> (Inr False, m)
     | Some r \<Rightarrow>
        if ar_attempt_id r \<noteq> attempt_id \<or> ar_lease_epoch r \<noteq> lease_epoch then (Inr False, m)
        else if ar_state r = AttemptTerminal then (Inr (ar_terminal_result r = Some result), m)
        else (Inr True, m\<lparr>mc_attempts := bt_insert run_id
          (r\<lparr>ar_revision := saturating_add (ar_revision r) 1, ar_state := AttemptTerminal,
             ar_heartbeat_at_unix_ms := clk 0, ar_expires_at_unix_ms := clk 0,
             ar_terminal_result := Some result\<rparr>) (mc_attempts m)\<rparr>))"

definition mem_heartbeat ::
  "clock \<Rightarrow> 'j MemoryChronicleControl \<Rightarrow> string \<Rightarrow> string \<Rightarrow> u64 \<Rightarrow> u64
   \<Rightarrow> (attempt_error + bool) \<times> 'j MemoryChronicleControl" where
  "mem_heartbeat clk m run_id attempt_id lease_epoch ttl_ms =
    (case bt_get (mc_attempts m) run_id of None \<Rightarrow> (Inr False, m)
     | Some r \<Rightarrow>
        if ar_attempt_id r \<noteq> attempt_id \<or> ar_lease_epoch r \<noteq> lease_epoch \<or> ar_state r \<noteq> AttemptActive
        then (Inr False, m)
        else (Inr True, m\<lparr>mc_attempts := bt_insert run_id
          (r\<lparr>ar_revision := saturating_add (ar_revision r) 1, ar_heartbeat_at_unix_ms := clk 0,
             ar_expires_at_unix_ms := saturating_add (clk 0) (max ttl_ms 1)\<rparr>) (mc_attempts m)\<rparr>))"

fun mem_exec_call ::
  "clock \<Rightarrow> control_call \<Rightarrow> 'j MemoryChronicleControl \<Rightarrow> control_reply \<times> 'j MemoryChronicleControl" where
  "mem_exec_call clk (AcquireLease run_id task_id owner ttl_ms) m =
     reply_of LeaseAcquireReply (mem_acquire_lease clk m run_id task_id owner ttl_ms)"
| "mem_exec_call clk (TakeoverLease run_id task_id owner ttl_ms) m =
     reply_of LeaseAcquireReply (mem_takeover_lease clk m run_id task_id owner ttl_ms)"
| "mem_exec_call clk (BindAttempt run_id epoch attempt_id) m =
     reply_of BooleanReply (mem_bind_attempt clk m run_id epoch attempt_id)"
| "mem_exec_call clk (RenewLease run_id epoch owner ttl_ms) m =
     reply_of BooleanReply (mem_renew_lease clk m run_id epoch owner ttl_ms)"
| "mem_exec_call clk (CommitRunCall request) m = reply_of CommitRunReply (mem_commit_run clk m request)"
| "mem_exec_call clk (GetRun run_id) m = (RunReply (mem_get_run m run_id), m)"

fun mem_run_calls ::
  "(clock \<times> control_call) list \<Rightarrow> 'j MemoryChronicleControl \<Rightarrow> control_reply list \<times> 'j MemoryChronicleControl"
  where
  "mem_run_calls [] m = ([], m)"
| "mem_run_calls ((clk, call) # calls) m =
     (let (reply, m1) = mem_exec_call clk call m; (replies, m2) = mem_run_calls calls m1
      in (reply # replies, m2))"

subsection \<open>Agreement with the durable store\<close>

definition same_runs :: "'j MemoryChronicleControl \<Rightarrow> control_dir \<Rightarrow> bool" where
  "same_runs m dir \<longleftrightarrow> (\<forall>r. bt_get (mc_runs m) r = get_run dir r)"

text \<open>The revision of every run may still grow.\<close>

definition revisions_below :: "nat \<Rightarrow> control_dir \<Rightarrow> bool" where
  "revisions_below n dir \<longleftrightarrow> (\<forall>r a. get_run dir r = Some a \<longrightarrow> unat (rc_revision a) \<le> n)"

lemma same_runs_upd:
  "same_runs m dir \<Longrightarrow> same_runs (m\<lparr>mc_runs := bt_insert r a (mc_runs m)\<rparr>) (dir(record_path r \<mapsto> a))"
  by (auto simp: same_runs_def get_run_def)

lemma next_record_known:
  assumes "rc_run_id a = run_id" and "unat (rc_revision a) < 2 ^ 64 - 1"
  shows "next_record (Some a) run_id app = Inr (app (a\<lparr>rc_revision := saturating_add (rc_revision a) 1\<rparr>))"
  using assms by (auto simp: next_record_def checked_add_def saturating_add_def)

lemma next_record_fresh:
  "next_record None run_id app =
     Inr (app \<lparr>rc_revision = 1, rc_run_id = run_id, rc_lease = None, rc_commit = None\<rparr>)"
  by (simp add: next_record_def checked_add_def)


definition step_agrees :: "'r \<times> 'j MemoryChronicleControl \<Rightarrow> 'r \<times> control_dir \<Rightarrow> bool" where
  "step_agrees x y \<longleftrightarrow> fst x = fst y \<and> same_runs (snd x) (snd y)"

lemma step_agrees_reply: "step_agrees x y \<Longrightarrow> step_agrees (reply_of wrap x) (reply_of wrap y)"
  by (simp add: step_agrees_def reply_of_def)

lemma agree_simps:
  assumes "same_runs m dir"
  shows "step_agrees (res, m) (res, dir)"
    and "step_agrees (res, m\<lparr>mc_runs := bt_insert r a (mc_runs m)\<rparr>) (res, dir(record_path r \<mapsto> a))"
  using assms same_runs_upd [OF assms] by (simp_all add: step_agrees_def)

lemma revision_first:
  "a\<lparr>rc_lease := x, rc_revision := v\<rparr> = a\<lparr>rc_revision := v, rc_lease := x\<rparr>"
  "a\<lparr>rc_lease := x, rc_commit := y, rc_revision := v\<rparr> = a\<lparr>rc_revision := v, rc_lease := x, rc_commit := y\<rparr>"
  by simp_all

lemma run_known:
  assumes "same_runs m dir" and "dir_wf dir" and "revisions_below (2 ^ 64 - 2) dir"
    and "bt_get (mc_runs m) run_id = Some a"
  shows "rc_run_id a = run_id" "unat (rc_revision a) < 2 ^ 64 - 1" "dir (record_path run_id) = Some a"
    "\<exists>l. rc_lease a = Some l"
proof -
  have get: "get_run dir run_id = Some a" using assms(1,4) by (simp add: same_runs_def)
  then show "dir (record_path run_id) = Some a" by (simp add: get_run_def)
  from dir_wf_get [OF assms(2) get] show "rc_run_id a = run_id" "\<exists>l. rc_lease a = Some l"
    by (auto simp: rc_wf_def)
  have "unat (rc_revision a) \<le> 2 ^ 64 - 2"
    using assms(3) get unfolding revisions_below_def by blast
  then show "unat (rc_revision a) < 2 ^ 64 - 1" by simp
qed

lemma run_unknown: "same_runs m dir \<Longrightarrow> bt_get (mc_runs m) run_id = None \<Longrightarrow> dir (record_path run_id) = None"
  by (simp add: same_runs_def get_run_def)

lemma acquire_agrees:
  assumes "same_runs m dir" and "dir_wf dir" and "revisions_below (2 ^ 64 - 2) dir"
  shows "step_agrees (mem_acquire_inner clk m run_id task_id owner ttl_ms force)
    (acquire_lease_inner (\<lambda>_. clk 0) dir run_id task_id owner ttl_ms force)"
proof (cases "bt_get (mc_runs m) run_id")
  case None
  with run_unknown [OF assms(1)] show ?thesis
    by (auto simp: agree_simps [OF assms(1)] revision_first mem_acquire_inner_def acquire_lease_inner_def mutate_local_def acquire_mutation_def
        acquire_new_epoch_def apply_mutation_def next_record_fresh current_lease_def current_commit_def
        lease_deadline_def Let_def split: option.splits)
next
  case (Some a)
  from run_known(4) [OF assms Some] obtain l where l: "rc_lease a = Some l" by blast
  note known = run_known(1-3) [OF assms Some]
  show ?thesis
  proof (cases "rc_commit a")
    case (Some c)
    with known l \<open>bt_get _ _ = _\<close> show ?thesis
      by (simp add: agree_simps [OF assms(1)] revision_first mem_acquire_inner_def acquire_lease_inner_def mutate_local_def acquire_mutation_def
          apply_mutation_def current_lease_def current_commit_def)
  next
    case None
    with known(1) l obtain v where
      "a = \<lparr>rc_revision = v, rc_run_id = run_id, rc_lease = Some l, rc_commit = None\<rparr>"
      by (cases a) auto
    with known \<open>bt_get _ _ = _\<close> show ?thesis
      by (auto simp: agree_simps [OF assms(1)] revision_first mem_acquire_inner_def acquire_lease_inner_def mutate_local_def acquire_mutation_def
          acquire_new_epoch_def apply_mutation_def next_record_known current_lease_def current_commit_def
          lease_deadline_def Let_def split: option.splits)
  qed
qed

lemma bind_agrees:
  assumes "same_runs m dir" and "dir_wf dir" and "revisions_below (2 ^ 64 - 2) dir"
  shows "step_agrees (mem_bind_attempt clk m run_id epoch attempt_id)
    (bind_attempt (\<lambda>_. clk 0) dir run_id epoch attempt_id)"
proof (cases "bt_get (mc_runs m) run_id")
  case None
  with run_unknown [OF assms(1)] show ?thesis
    by (simp add: agree_simps [OF assms(1)] revision_first mem_bind_attempt_def bind_attempt_def mutate_local_def bind_mutation_def apply_mutation_def)
next
  case (Some a)
  from run_known(4) [OF assms Some] obtain l where l: "rc_lease a = Some l" by blast
  with run_known(1-3) [OF assms Some] l Some show ?thesis
    by (auto simp: agree_simps [OF assms(1)] revision_first mem_bind_attempt_def bind_attempt_def mutate_local_def bind_mutation_def
        apply_mutation_def next_record_known split: option.splits)
qed

lemma renew_agrees:
  assumes "same_runs m dir" and "dir_wf dir" and "revisions_below (2 ^ 64 - 2) dir"
  shows "step_agrees (mem_renew_lease clk m run_id epoch owner ttl_ms)
    (renew_lease (\<lambda>_. clk 0) dir run_id epoch owner ttl_ms)"
proof (cases "bt_get (mc_runs m) run_id")
  case None
  with run_unknown [OF assms(1)] show ?thesis
    by (simp add: agree_simps [OF assms(1)] revision_first mem_renew_lease_def renew_lease_def mutate_local_def renew_mutation_def apply_mutation_def)
next
  case (Some a)
  from run_known(4) [OF assms Some] obtain l where l: "rc_lease a = Some l" by blast
  with run_known(1-3) [OF assms Some] l Some show ?thesis
    by (auto simp: agree_simps [OF assms(1)] revision_first mem_renew_lease_def renew_lease_def mutate_local_def renew_mutation_def
        apply_mutation_def next_record_known lease_deadline_def Let_def)
qed

lemma commit_agrees:
  assumes "same_runs m dir" and "dir_wf dir" and "revisions_below (2 ^ 64 - 2) dir"
  shows "step_agrees (mem_commit_run clk m request) (commit_run (\<lambda>_. clk 0) dir request)"
proof (cases "bt_get (mc_runs m) (rq_run_id request)")
  case None
  with run_unknown [OF assms(1)] show ?thesis
    by (auto simp: agree_simps [OF assms(1)] revision_first mem_commit_run_def commit_run_def commit_request_check_def mutate_local_def
        commit_mutation_def apply_mutation_def current_lease_def current_commit_def word_neq_0_conv)
next
  case (Some a)
  from run_known(4) [OF assms Some] obtain l where l: "rc_lease a = Some l" by blast
  with run_known(1-3) [OF assms Some] l Some show ?thesis
    by (auto simp: agree_simps [OF assms(1)] revision_first mem_commit_run_def commit_run_def commit_request_check_def mutate_local_def
        commit_mutation_def apply_mutation_def next_record_known current_lease_def current_commit_def
        lease_matches_def word_neq_0_conv Let_def split: option.splits)
qed

lemma mem_exec_agrees:
  assumes "same_runs m dir" and "dir_wf dir" and "revisions_below (2 ^ 64 - 2) dir"
  shows "step_agrees (mem_exec_call clk call m) (exec_call (\<lambda>_. clk 0) call dir)"
  using acquire_agrees [OF assms] bind_agrees [OF assms] renew_agrees [OF assms] commit_agrees [OF assms] assms(1)
  by (cases call) (auto simp: agree_simps [OF assms(1)] revision_first mem_acquire_lease_def mem_takeover_lease_def acquire_lease_def takeover_lease_def
      mem_get_run_def same_runs_def step_agrees_def [of "(_, m)"] intro!: step_agrees_reply)


text \<open>Revisions grow by one per call.\<close>

definition bumps_revision :: "'t control_mutation \<Rightarrow> bool" where
  "bumps_revision f \<longleftrightarrow> (\<forall>cur q v. f cur = Inr (Replace q v) \<longrightarrow>
     unat (rc_revision q) = Suc (case cur of None \<Rightarrow> 0 | Some a \<Rightarrow> unat (rc_revision a)))"

lemma bumps_revisionI:
  "(\<And>cur q v. f cur = Inr (Replace q v) \<Longrightarrow>
     unat (rc_revision q) = Suc (case cur of None \<Rightarrow> 0 | Some a \<Rightarrow> unat (rc_revision a))) \<Longrightarrow> bumps_revision f"
  by (simp add: bumps_revision_def)

lemma acquire_bumps: "bumps_revision (acquire_mutation now run_id task_id owner ttl_ms force)"
  by (rule bumps_revisionI)
    (auto simp: acquire_mutation_def acquire_new_epoch_def next_record_Inr checked_add_Some Let_def
      split: option.splits if_splits rbind_splits)

lemma bind_bumps: "bumps_revision (bind_mutation now run_id epoch attempt_id)"
  by (rule bumps_revisionI)
    (auto simp: bind_mutation_def next_record_Inr checked_add_Some split: option.splits if_splits rbind_splits)

lemma renew_bumps: "bumps_revision (renew_mutation now run_id epoch owner ttl_ms)"
  by (rule bumps_revisionI)
    (auto simp: renew_mutation_def next_record_Inr checked_add_Some Let_def
      split: option.splits if_splits rbind_splits)

lemma commit_bumps: "bumps_revision (commit_mutation now at request)"
  by (rule bumps_revisionI)
    (auto simp: commit_mutation_def next_record_Inr checked_add_Some Let_def
      split: option.splits if_splits rbind_splits)

lemma mutate_revisions:
  assumes "bumps_revision f" and "revisions_below n dir" and "mutate_local dir run_id f = (res, dir')"
  shows "revisions_below (Suc n) dir'"
proof -
  have old: "unat (rc_revision a) \<le> n" if "dir (record_path r) = Some a" for r a
    using assms(2) that by (auto simp: revisions_below_def get_run_def)
  consider "dir' = dir" | q v where "f (dir (record_path run_id)) = Inr (Replace q v)"
      "dir' = dir(record_path run_id \<mapsto> q)"
    using assms(3) by (auto simp: mutate_local_def apply_mutation_def split: sum.splits Mutation.splits)
  then show ?thesis
  proof cases
    case 1
    with old show ?thesis by (auto simp: revisions_below_def get_run_def le_Suc_eq)
  next
    case (2 q v)
    with assms(1) have "unat (rc_revision q) = Suc (case dir (record_path run_id) of None \<Rightarrow> 0
        | Some a \<Rightarrow> unat (rc_revision a))"
      unfolding bumps_revision_def by blast
    with old 2 show ?thesis
      by (auto simp: revisions_below_def get_run_def intro: le_SucI split: option.splits if_splits)
  qed
qed

lemma exec_revisions:
  assumes "revisions_below n dir" and "exec_call clk call dir = (rep, dir')"
  shows "revisions_below (Suc n) dir'"
  using assms(2)
proof (cases rule: exec_call_cases)
  case same
  with assms(1) show ?thesis by (auto simp: revisions_below_def intro: le_SucI)
next
  case (acquire now run_id task_id owner ttl_ms force res)
  then show ?thesis by (rule mutate_revisions [OF acquire_bumps assms(1)])
next
  case (bind now run_id epoch attempt_id res)
  then show ?thesis by (rule mutate_revisions [OF bind_bumps assms(1)])
next
  case (renew now run_id epoch owner ttl_ms res)
  then show ?thesis by (rule mutate_revisions [OF renew_bumps assms(1)])
next
  case (commit now at request res)
  show ?thesis by (rule mutate_revisions [OF commit_bumps assms(1) commit(3)])
qed

lemma mem_run_calls_agrees:
  assumes "same_runs m dir" and "dir_wf dir" and "revisions_below n dir"
    and "n + length calls \<le> 2 ^ 64 - 2"
  shows "step_agrees (mem_run_calls calls m) (run_calls (map (\<lambda>(clk, call). (\<lambda>_. clk 0, call)) calls) dir)"
  using assms
proof (induction calls m arbitrary: dir n rule: mem_run_calls.induct)
  case (1 m)
  then show ?case by (simp add: step_agrees_def)
next
  case (2 clk call calls m)
  obtain rep m1 where mem: "mem_exec_call clk call m = (rep, m1)" by fastforce
  have "revisions_below (2 ^ 64 - 2) dir"
    using "2.prems"(3,4) by (fastforce simp: revisions_below_def)
  from mem_exec_agrees [OF "2.prems"(1,2) this, of clk call] mem
  obtain dir1 where dur: "exec_call (\<lambda>_. clk 0) call dir = (rep, dir1)" and same: "same_runs m1 dir1"
    by (cases "exec_call (\<lambda>_. clk 0) call dir") (auto simp: step_agrees_def)
  have "step_agrees (mem_run_calls calls m1) (run_calls (map (\<lambda>(clk, call). (\<lambda>_. clk 0, call)) calls) dir1)"
    by (rule "2.IH" [OF mem [symmetric] refl same exec_call_wf [OF dur "2.prems"(2)]
          exec_revisions [OF "2.prems"(3) dur]]) (use "2.prems"(4) in simp)
  with mem dur show ?case by (auto simp: step_agrees_def split: prod.splits)
qed

text \<open>
  C12: The in-memory control implementation answers like the durable store. For every history of
  fewer than \<open>2 ^ 64 - 2\<close> calls from the empty state, the replies of \<open>MemoryChronicleControl\<close> are
  those of the durable store that reads the same clock, and so are the records of all runs
  afterwards.
\<close>

theorem memory_control_agrees:
  assumes "length calls \<le> 2 ^ 64 - 2"
    and "mem_run_calls calls (mem_new :: 'j MemoryChronicleControl) = (replies, m)"
    and "run_calls (map (\<lambda>(clk, call). (\<lambda>_. clk 0, call)) calls) Map.empty = (replies', dir)"
  shows "replies = replies' \<and> mem_get_run m run_id = get_run dir run_id"
proof -
  have "step_agrees (mem_run_calls calls (mem_new :: 'j MemoryChronicleControl))
      (run_calls (map (\<lambda>(clk, call). (\<lambda>_. clk 0, call)) calls) Map.empty)"
    by (rule mem_run_calls_agrees [where n = 0])
      (use assms(1) in \<open>simp_all add: same_runs_def mem_new_def get_run_def revisions_below_def\<close>)
  with assms(2,3) show ?thesis by (simp add: step_agrees_def same_runs_def mem_get_run_def)
qed

theorem memory_control_agrees_witness:
  "fst (mem_run_calls (demo_open @ demo_late) (mem_new :: nat MemoryChronicleControl)) =
   fst (run_calls (map (\<lambda>(clk, call). (\<lambda>_. clk 0, call)) (demo_open @ demo_late)) Map.empty)"
proof -
  have "length (demo_open @ demo_late) \<le> 2 ^ 64 - 2" by (simp add: demo_open_def demo_late_def)
  from memory_control_agrees [OF this surjective_pairing surjective_pairing] show ?thesis by blast
qed


subsection \<open>Agreement of the attempt registries\<close>

fun mem_exec_registry ::
  "clock \<Rightarrow> 'j registry_call \<Rightarrow> 'j MemoryChronicleControl \<Rightarrow> (attempt_error + bool) \<times> 'j MemoryChronicleControl"
  where
  "mem_exec_registry clk (PublishActive run_id attempt_id lease_epoch ttl_ms) m =
     mem_publish_active clk m run_id attempt_id lease_epoch ttl_ms"
| "mem_exec_registry clk (Heartbeat run_id attempt_id lease_epoch ttl_ms) m =
     mem_heartbeat clk m run_id attempt_id lease_epoch ttl_ms"
| "mem_exec_registry clk (PublishTerminal run_id attempt_id lease_epoch result) m =
     mem_publish_terminal clk m run_id attempt_id lease_epoch result"

definition same_attempts :: "'j MemoryChronicleControl \<Rightarrow> 'j attempt_dir \<Rightarrow> bool" where
  "same_attempts m dir \<longleftrightarrow> (\<forall>r. bt_get (mc_attempts m) r = registry_get dir r)"

fun call_identity :: "'j registry_call \<Rightarrow> attempt_error + unit" where
  "call_identity (PublishActive run_id attempt_id lease_epoch ttl_ms) = validate_identity run_id attempt_id lease_epoch"
| "call_identity (Heartbeat run_id attempt_id lease_epoch ttl_ms) = validate_identity run_id attempt_id lease_epoch"
| "call_identity (PublishTerminal run_id attempt_id lease_epoch result) = validate_identity run_id attempt_id lease_epoch"

lemma same_attempts_upd:
  "same_attempts m dir \<Longrightarrow>
   same_attempts (m\<lparr>mc_attempts := bt_insert r a (mc_attempts m)\<rparr>) (dir(attempt_record_path r \<mapsto> a))"
  by (auto simp: same_attempts_def registry_get_def)

lemma next_revision_below:
  "unat (ar_revision a) < 2 ^ 64 - 1 \<Longrightarrow> next_revision (Some a) = Inr (saturating_add (ar_revision a) 1)"
  "next_revision None = Inr 1"
  by (auto simp: next_revision_def checked_add_def saturating_add_def)

text \<open>
  The in-memory attempt registry answers like the durable one. On the same records, and as long
  as the revision of the record can grow, a call with a valid identity (non-blank ids, non-zero
  epoch) gets the same answer from both and leaves them with the same records.
\<close>

theorem memory_attempts_agree:
  assumes "same_attempts m dir" and "registry_wf dir"
    and "\<forall>r a. registry_get dir r = Some a \<longrightarrow> unat (ar_revision a) < 2 ^ 64 - 1"
    and "call_identity call = Inr ()"
  shows "fst (mem_exec_registry clk call m) = fst (exec_registry clk call dir) \<and>
    same_attempts (snd (mem_exec_registry clk call m)) (snd (exec_registry clk call dir))"
proof -
  have known: "bt_get (mc_attempts m) r = dir (attempt_record_path r)" for r
    using assms(1) by (simp add: same_attempts_def registry_get_def)
  have inv: "ar_run_id a = r \<and> unat (ar_revision a) < 2 ^ 64 - 1"
    if "dir (attempt_record_path r) = Some a" for r a
    using assms(2,3) registry_wf_get [of dir r a] that by (auto simp: registry_get_def ar_wf_def)
  note rules = registry_mutate_def apply_mutation_def next_revision_below known assms(1)
    same_attempts_upd [OF assms(1)] validate_identity_def word_neq_0_conv
  show ?thesis
  proof (cases call)
    case (PublishActive run_id attempt_id lease_epoch ttl_ms)
    with assms(4) inv [of run_id] show ?thesis
      by (auto simp: rules mem_publish_active_def publish_active_def active_mutation_def Let_def
          split: option.splits if_splits)
  next
    case (Heartbeat run_id attempt_id lease_epoch ttl_ms)
    with assms(4) inv [of run_id] show ?thesis
      by (auto simp: rules mem_heartbeat_def heartbeat_def heartbeat_mutation_def
          split: option.splits if_splits)
  next
    case (PublishTerminal run_id attempt_id lease_epoch result)
    with assms(4) inv [of run_id] show ?thesis
      by (auto simp: rules mem_publish_terminal_def publish_terminal_def terminal_mutation_def
          split: option.splits if_splits)
  qed
qed

theorem memory_attempts_agree_witness:
  "fst (mem_exec_registry (\<lambda>_. 100) (PublishActive ''run-1'' ''a1'' 1 1000) (mem_new :: nat MemoryChronicleControl))
    = fst (exec_registry (\<lambda>_. 100) (PublishActive ''run-1'' ''a1'' 1 1000) (Map.empty :: nat attempt_dir))"
proof -
  have id: "call_identity (PublishActive ''run-1'' ''a1'' 1 1000 :: nat registry_call) = Inr ()" by code_simp
  show ?thesis
    using memory_attempts_agree [OF _ registry_wf_empty _ id, of mem_new]
    by (simp add: same_attempts_def mem_new_def registry_get_def)
qed

end
