(* ===== verification/ControlServer.thy ===== *)
theory ControlServer
  imports MemoryControl
begin

section \<open>The control protocol between pPilot and pChronicle\<close>

text \<open>
  The JSON line protocol: requests and responses of \<open>persisting-events/src/control.rs\<close>, the client
  call there, and the server of \<open>persisting-pchronicle-cli/src/control.rs\<close> with its dispatcher
  \<open>handle_request\<close> over the run control store and the attempt registry. \<open>serde_json\<close> is external:
  the encoders and decoders are the fields of a codec record. So are the order in which a
  directory lists its names (\<open>read_dir\<close>) and the Lance event store behind \<open>append_trajectory\<close>.
  A connection is the byte string one side sends and the byte string it gets back.
\<close>

subsection \<open>Listing the runs\<close>

text \<open>\<open>Path::extension\<close> is \<open>json\<close>: the name ends in \<open>.json\<close> and has something before it.\<close>

definition has_json_extension :: "string \<Rightarrow> bool" where
  "has_json_extension name = (case strip_suffix name ''.json'' of None \<Rightarrow> False | Some stem \<Rightarrow> stem \<noteq> [])"

definition list_runs :: "(control_dir \<Rightarrow> string list) \<Rightarrow> control_dir \<Rightarrow> RunControlRecord list" where
  "list_runs read_dir dir =
     sort_key rc_run_id (List.map_filter dir (filter has_json_extension (read_dir dir)))"

definition lists_directory :: "(control_dir \<Rightarrow> string list) \<Rightarrow> control_dir \<Rightarrow> bool" where
  "lists_directory read_dir dir \<longleftrightarrow> distinct (read_dir dir) \<and> set (read_dir dir) = dom dir"

lemma has_json_extension_path: "has_json_extension (record_path run_id) \<longleftrightarrow> run_id \<noteq> []"
proof -
  have "strip_suffix (record_path run_id) ''.json'' = Some (encoded_run_id run_id)"
    by (simp add: strip_suffix_Some record_path_def)
  moreover have "encoded_run_id run_id = [] \<longleftrightarrow> run_id = []"
    using encoded_run_id_inj [of run_id "[]"] by (simp add: encoded_run_id_def)
  ultimately show ?thesis by (simp add: has_json_extension_def)
qed

lemma listed_name:
  assumes "dir_wf dir" and "dir name = Some r" and "has_json_extension name"
  shows "name = record_path (rc_run_id r)" "rc_run_id r \<noteq> []"
proof -
  from assms(1,2) show *: "name = record_path (rc_run_id r)"
    unfolding dir_wf_def rc_wf_def by blast
  with assms(3) show "rc_run_id r \<noteq> []" by (metis has_json_extension_path)
qed

lemma listed_records:
  assumes "dir_wf dir" and "set names = dom dir"
  shows "set (List.map_filter dir (filter has_json_extension names)) =
    {r. \<exists>run_id. run_id \<noteq> [] \<and> get_run dir run_id = Some r}"
proof (intro set_eqI iffI)
  fix r assume "r \<in> set (List.map_filter dir (filter has_json_extension names))"
  then obtain name where "dir name = Some r" "has_json_extension name" by (auto simp: in_map_filter)
  with listed_name [OF assms(1) this] show "r \<in> {r. \<exists>run_id. run_id \<noteq> [] \<and> get_run dir run_id = Some r}"
    by (auto simp: get_run_def)
next
  fix r assume "r \<in> {r. \<exists>run_id. run_id \<noteq> [] \<and> get_run dir run_id = Some r}"
  then obtain run_id where "run_id \<noteq> []" "dir (record_path run_id) = Some r" by (auto simp: get_run_def)
  with assms(2) show "r \<in> set (List.map_filter dir (filter has_json_extension names))"
    by (auto simp: in_map_filter has_json_extension_path intro!: bexI [of _ "record_path run_id"])
qed

lemma listed_distinct:
  assumes "dir_wf dir" and "distinct names"
  shows "distinct (map rc_run_id (List.map_filter dir (filter has_json_extension names)))"
  using assms(2)
proof (induction names)
  case (Cons x xs)
  show ?case
  proof (cases "has_json_extension x \<and> dir x \<noteq> None")
    case True
    then obtain r where r: "dir x = Some r" "has_json_extension x" by blast
    have "rc_run_id q \<noteq> rc_run_id r" if "q \<in> set (List.map_filter dir (filter has_json_extension xs))" for q
      using that listed_name(1) [OF assms(1)] listed_name(1) [OF assms(1) r] Cons.prems
      by (fastforce simp: in_map_filter)
    then have "rc_run_id r \<notin> rc_run_id ` set (List.map_filter dir (filter has_json_extension xs))"
      by (metis imageE)
    with r Cons show ?thesis by (simp add: map_filter_simps)
  qed (use Cons in \<open>auto simp: map_filter_simps\<close>)
qed (simp add: map_filter_simps)

text \<open>
  C13: Listing is complete and ordered. On a well-formed directory the list holds exactly the record
  of every run whose id is not empty, once, in ascending order of run ids. (The record of the
  empty run id lives in the file \<open>.json\<close>, which has no extension.)
\<close>

theorem list_runs_complete:
  assumes "dir_wf dir" and "lists_directory read_dir dir"
  shows "set (list_runs read_dir dir) = {r. \<exists>run_id. run_id \<noteq> [] \<and> get_run dir run_id = Some r} \<and>
    sorted_wrt (<) (map rc_run_id (list_runs read_dir dir))"
proof -
  have names: "set (read_dir dir) = dom dir" "distinct (read_dir dir)"
    using assms(2) by (auto simp: lists_directory_def)
  have "distinct (map rc_run_id (list_runs read_dir dir))"
    using listed_distinct [OF assms(1) names(2)] by (simp add: list_runs_def distinct_map)
  with listed_records [OF assms(1) names(1)] show ?thesis
    by (simp add: list_runs_def strict_sorted_iff)
qed

theorem list_runs_complete_witness:
  "map rc_run_id (list_runs (\<lambda>_. [record_path ''run-1'']) [record_path ''run-1'' \<mapsto>
     \<lparr>rc_revision = 1, rc_run_id = ''run-1'', rc_lease = Some (demo_lease 1 ''owner-a''), rc_commit = None\<rparr>])
    = [''run-1''] \<and>
   set (list_runs (\<lambda>_. [record_path ''run-1'']) [record_path ''run-1'' \<mapsto>
     \<lparr>rc_revision = 1, rc_run_id = ''run-1'', rc_lease = Some (demo_lease 1 ''owner-a''), rc_commit = None\<rparr>])
    = {\<lparr>rc_revision = 1, rc_run_id = ''run-1'', rc_lease = Some (demo_lease 1 ''owner-a''), rc_commit = None\<rparr>}"
proof -
  let ?r = "\<lparr>rc_revision = 1, rc_run_id = ''run-1'', rc_lease = Some (demo_lease 1 ''owner-a''), rc_commit = None\<rparr>"
  have wf: "dir_wf [record_path ''run-1'' \<mapsto> ?r]"
    by (auto simp: dir_wf_def rc_wf_def demo_lease_def)
  have listed: "lists_directory (\<lambda>_. [record_path ''run-1'']) [record_path ''run-1'' \<mapsto> ?r]"
    by (simp add: lists_directory_def)
  have "{r. \<exists>run_id. run_id \<noteq> [] \<and> get_run [record_path ''run-1'' \<mapsto> ?r] run_id = Some r} = {?r}"
    by (auto simp: get_run_def)
  with list_runs_complete [OF wf listed] show ?thesis
    by (simp add: list_runs_def map_filter_simps has_json_extension_path)
qed


subsection \<open>Requests, responses and the dispatcher\<close>

definition CHRONICLE_CONTROL_VERSION :: u32 where
  "CHRONICLE_CONTROL_VERSION = 2"

definition CHRONICLE_CONTROL_MAX_FRAME_BYTES :: nat where
  "CHRONICLE_CONTROL_MAX_FRAME_BYTES = 8 * 1024 * 1024"

record 'ev TrajectoryAppendRequest =
  ta_storage :: string
  ta_agent_id :: string
  ta_session_id :: string
  ta_root_session_id :: "string option"
  ta_records :: "'ev list"

record TrajectoryAppendResponse =
  tr_storage :: string
  tr_agent_id :: string
  tr_session_id :: string
  tr_accepted_records :: nat
  tr_dataset :: string
  tr_status :: string
  tr_note :: string

text \<open>
  The request enum, with the six requests to the run control store and the three writes to the
  attempt registry grouped as in theories \<open>RunControl\<close> and \<open>AttemptRegistry\<close>.
\<close>

datatype ('j, 'ev) ChronicleControlRequest =
    Ping
  | ControlRequest control_call
  | ListRuns
  | GetAttempt string
  | AttemptRequest "'j registry_call"
  | AppendTrajectory "'ev TrajectoryAppendRequest"

datatype chronicle_error =
    ControlFailed control_error
  | AttemptFailed attempt_error
  | AppendFailed
  | FrameTooLong
  | DecodeRequestFailed
  | UnsupportedVersion
  | InvalidToken

datatype 'j ChronicleControlResponse =
    Pong
  | LeaseAcquireResponse LeaseAcquireOutcome
  | CommitRunResponse CommitRunOutcome
  | BooleanResponse bool
  | RunResponse "RunControlRecord option"
  | RunsResponse "RunControlRecord list"
  | AttemptResponse "'j AttemptRecord option"
  | TrajectoryAppendResponse TrajectoryAppendResponse
  | ErrorResponse chronicle_error

record ('j, 'ev) ChronicleControlEnvelope =
  ce_version :: u32
  ce_request_id :: u64
  ce_auth_token :: string
  ce_request :: "('j, 'ev) ChronicleControlRequest"

record 'j ChronicleControlResponseEnvelope =
  cre_version :: u32
  cre_request_id :: u64
  cre_response :: "'j ChronicleControlResponse"

record ('j, 'w) chronicle_state =
  cs_control :: control_dir
  cs_attempts :: "'j attempt_dir"
  cs_events :: 'w

record ('j, 'ev, 'w) chronicle_env =
  ev_read_dir :: "control_dir \<Rightarrow> string list"
  ev_append :: "'ev TrajectoryAppendRequest \<Rightarrow> 'w \<Rightarrow> TrajectoryAppendResponse option \<times> 'w"
  ev_encode_request :: "('j, 'ev) ChronicleControlEnvelope \<Rightarrow> string"
  ev_decode_request :: "string \<Rightarrow> ('j, 'ev) ChronicleControlEnvelope option"
  ev_encode_response :: "'j ChronicleControlResponseEnvelope \<Rightarrow> string"
  ev_decode_response :: "string \<Rightarrow> 'j ChronicleControlResponseEnvelope option"

fun response_of_reply :: "control_reply \<Rightarrow> chronicle_error + 'j ChronicleControlResponse" where
  "response_of_reply (LeaseAcquireReply outcome) = Inr (LeaseAcquireResponse outcome)"
| "response_of_reply (CommitRunReply outcome) = Inr (CommitRunResponse outcome)"
| "response_of_reply (BooleanReply b) = Inr (BooleanResponse b)"
| "response_of_reply (RunReply r) = Inr (RunResponse r)"
| "response_of_reply (ErrorReply e) = Inl (ControlFailed e)"

definition handle_request ::
  "('j, 'ev, 'w) chronicle_env \<Rightarrow> clock \<Rightarrow> ('j, 'ev) ChronicleControlRequest \<Rightarrow> ('j, 'w) chronicle_state
   \<Rightarrow> (chronicle_error + 'j ChronicleControlResponse) \<times> ('j, 'w) chronicle_state" where
  "handle_request env clk request st =
    (case request of
       Ping \<Rightarrow> (Inr Pong, st)
     | ControlRequest call \<Rightarrow>
        (let (reply, dir) = exec_call clk call (cs_control st)
         in (response_of_reply reply, st\<lparr>cs_control := dir\<rparr>))
     | ListRuns \<Rightarrow> (Inr (RunsResponse (list_runs (ev_read_dir env) (cs_control st))), st)
     | GetAttempt run_id \<Rightarrow> (Inr (AttemptResponse (registry_get (cs_attempts st) run_id)), st)
     | AttemptRequest call \<Rightarrow>
        (let (reply, dir) = exec_registry clk call (cs_attempts st)
         in (case reply of Inl e \<Rightarrow> Inl (AttemptFailed e) | Inr b \<Rightarrow> Inr (BooleanResponse b),
             st\<lparr>cs_attempts := dir\<rparr>))
     | AppendTrajectory append_request \<Rightarrow>
        (let (outcome, w) = ev_append env append_request (cs_events st)
         in (case outcome of None \<Rightarrow> Inl AppendFailed | Some r \<Rightarrow> Inr (TrajectoryAppendResponse r),
             st\<lparr>cs_events := w\<rparr>)))"

definition decode_request ::
  "('j, 'ev, 'w) chronicle_env \<Rightarrow> string \<Rightarrow> string \<Rightarrow> chronicle_error + ('j, 'ev) ChronicleControlEnvelope" where
  "decode_request env line auth_token =
    (if \<not> length line \<le> CHRONICLE_CONTROL_MAX_FRAME_BYTES then Inl FrameTooLong
     else case ev_decode_request env line of
       None \<Rightarrow> Inl DecodeRequestFailed
     | Some request \<Rightarrow>
        if ce_version request \<noteq> CHRONICLE_CONTROL_VERSION then Inl UnsupportedVersion
        else if ce_auth_token request \<noteq> auth_token then Inl InvalidToken
        else Inr request)"

text \<open>\<open>read_line\<close>: up to and including the first newline, or to the end of the input.\<close>

fun read_line :: "string \<Rightarrow> string" where
  "read_line [] = []"
| "read_line (c # s) = (if c = CHR 0x0A then [c] else c # read_line s)"

text \<open>One connection; no output means that the server closed it without an answer.\<close>

definition serve_connection ::
  "('j, 'ev, 'w) chronicle_env \<Rightarrow> clock \<Rightarrow> string \<Rightarrow> string \<Rightarrow> ('j, 'w) chronicle_state
   \<Rightarrow> string \<times> ('j, 'w) chronicle_state" where
  "serve_connection env clk auth_token input st =
    (let line = read_line (take (CHRONICLE_CONTROL_MAX_FRAME_BYTES + 1) input) in
     if line = [] then ([], st)
     else
      (let request_id = (case ev_decode_request env line of Some r \<Rightarrow> ce_request_id r | None \<Rightarrow> 0);
           (response, st') = (case decode_request env line auth_token of
               Inl e \<Rightarrow> (Inl e, st)
             | Inr envelope \<Rightarrow> handle_request env clk (ce_request envelope) st);
           encoded = ev_encode_response env
             \<lparr>cre_version = CHRONICLE_CONTROL_VERSION, cre_request_id = request_id,
              cre_response = (case response of Inl e \<Rightarrow> ErrorResponse e | Inr r \<Rightarrow> r)\<rparr>
       in if \<not> length encoded \<le> CHRONICLE_CONTROL_MAX_FRAME_BYTES then ([], st')
          else (encoded @ [CHR 0x0A], st')))"

datatype client_error =
    RequestTooLong | ConnectionClosed | ResponseTooLong | DecodeResponseFailed
  | ResponseVersion | ResponseIdMismatch | RemoteError chronicle_error

definition client_call ::
  "('j, 'ev, 'w) chronicle_env \<Rightarrow> clock \<Rightarrow> string \<Rightarrow> string \<Rightarrow> u64 \<Rightarrow> ('j, 'ev) ChronicleControlRequest
   \<Rightarrow> ('j, 'w) chronicle_state \<Rightarrow> (client_error + 'j ChronicleControlResponse) \<times> ('j, 'w) chronicle_state" where
  "client_call env clk server_token auth_token request_id request st =
    (let frame = ev_encode_request env \<lparr>ce_version = CHRONICLE_CONTROL_VERSION,
           ce_request_id = request_id, ce_auth_token = auth_token, ce_request = request\<rparr> in
     if \<not> length frame \<le> CHRONICLE_CONTROL_MAX_FRAME_BYTES then (Inl RequestTooLong, st)
     else
      (let (output, st') = serve_connection env clk server_token (frame @ [CHR 0x0A]) st;
           line = read_line output
       in (if line = [] then Inl ConnectionClosed
           else if \<not> length line \<le> CHRONICLE_CONTROL_MAX_FRAME_BYTES then Inl ResponseTooLong
           else case ev_decode_response env line of
             None \<Rightarrow> Inl DecodeResponseFailed
           | Some response \<Rightarrow>
              if cre_version response \<noteq> CHRONICLE_CONTROL_VERSION then Inl ResponseVersion
              else if cre_request_id response \<noteq> request_id then Inl ResponseIdMismatch
              else case cre_response response of
                ErrorResponse e \<Rightarrow> Inl (RemoteError e) | r \<Rightarrow> Inr r, st')))"


subsection \<open>The transport is transparent\<close>

text \<open>
  What \<open>serde_json\<close> documents: decoding inverts encoding, also with white space behind the
  document, and a compact document has no newline in it.
\<close>

definition request_codec :: "('j, 'ev, 'w) chronicle_env \<Rightarrow> ('j, 'ev) ChronicleControlEnvelope \<Rightarrow> bool" where
  "request_codec env e \<longleftrightarrow>
     ev_decode_request env (ev_encode_request env e @ [CHR 0x0A]) = Some e \<and>
     CHR 0x0A \<notin> set (ev_encode_request env e)"

definition response_codec :: "('j, 'ev, 'w) chronicle_env \<Rightarrow> 'j ChronicleControlResponseEnvelope \<Rightarrow> bool" where
  "response_codec env r \<longleftrightarrow>
     ev_decode_response env (ev_encode_response env r @ [CHR 0x0A]) = Some r \<and>
     CHR 0x0A \<notin> set (ev_encode_response env r)"

definition request_envelope ::
  "string \<Rightarrow> u64 \<Rightarrow> ('j, 'ev) ChronicleControlRequest \<Rightarrow> ('j, 'ev) ChronicleControlEnvelope" where
  "request_envelope auth_token request_id request =
     \<lparr>ce_version = CHRONICLE_CONTROL_VERSION, ce_request_id = request_id, ce_auth_token = auth_token,
      ce_request = request\<rparr>"

definition response_envelope ::
  "u64 \<Rightarrow> chronicle_error + 'j ChronicleControlResponse \<Rightarrow> 'j ChronicleControlResponseEnvelope" where
  "response_envelope request_id response =
     \<lparr>cre_version = CHRONICLE_CONTROL_VERSION, cre_request_id = request_id,
      cre_response = (case response of Inl e \<Rightarrow> ErrorResponse e | Inr r \<Rightarrow> r)\<rparr>"

lemma read_line_frame: "CHR 0x0A \<notin> set s \<Longrightarrow> read_line (s @ [CHR 0x0A]) = s @ [CHR 0x0A]"
  by (induction s) auto

lemma serve_frame:
  assumes "request_codec env (request_envelope token' request_id request)"
    and "length (ev_encode_request env (request_envelope token' request_id request)) \<le> CHRONICLE_CONTROL_MAX_FRAME_BYTES"
  shows "serve_connection env clk token
      (ev_encode_request env (request_envelope token' request_id request) @ [CHR 0x0A]) st =
    (let (response, st') =
           (if length (ev_encode_request env (request_envelope token' request_id request))
               = CHRONICLE_CONTROL_MAX_FRAME_BYTES
            then (Inl FrameTooLong, st)
            else if token' \<noteq> token then (Inl InvalidToken, st) else handle_request env clk request st);
         encoded = ev_encode_response env (response_envelope request_id response)
     in (if length encoded \<le> CHRONICLE_CONTROL_MAX_FRAME_BYTES then encoded @ [CHR 0x0A] else [], st'))"
  using assms
  by (auto simp: serve_connection_def decode_request_def request_envelope_def response_envelope_def
      request_codec_def read_line_frame CHRONICLE_CONTROL_MAX_FRAME_BYTES_def Let_def split: prod.splits)

text \<open>What the client makes of a response that fits into a frame.\<close>

lemma client_answer:
  assumes "length (ev_encode_request env (request_envelope token' request_id request)) \<le> CHRONICLE_CONTROL_MAX_FRAME_BYTES"
    and "serve_connection env clk token
      (ev_encode_request env (request_envelope token' request_id request) @ [CHR 0x0A]) st =
      (ev_encode_response env (response_envelope request_id response) @ [CHR 0x0A], st')"
    and "response_codec env (response_envelope request_id response)"
    and "length (ev_encode_response env (response_envelope request_id response)) < CHRONICLE_CONTROL_MAX_FRAME_BYTES"
    and "\<And>e. response \<noteq> Inr (ErrorResponse e)"
  shows "client_call env clk token token' request_id request st =
    (case response of Inl e \<Rightarrow> Inl (RemoteError e) | Inr r \<Rightarrow> Inr r, st')"
  using assms
  by (auto simp: client_call_def request_envelope_def response_codec_def read_line_frame Let_def
      response_envelope_def split: sum.splits ChronicleControlResponse.splits)

text \<open>A response the dispatcher gives is never itself an error response.\<close>

lemma handle_request_not_error: "fst (handle_request env clk request st) \<noteq> Inr (ErrorResponse e)"
  by (auto simp: handle_request_def elim!: response_of_reply.elims
      split: ChronicleControlRequest.splits prod.splits sum.splits option.splits)

text \<open>A codec for the instances below: one request, its answer and two errors.\<close>

definition demo_env ::
  "string \<Rightarrow> (nat, nat) ChronicleControlEnvelope \<Rightarrow> nat ChronicleControlResponse \<Rightarrow> (nat, nat, unit) chronicle_env" where
  "demo_env frame e r = \<lparr>
     ev_read_dir = (\<lambda>_. []), ev_append = (\<lambda>_ w. (None, w)),
     ev_encode_request = (\<lambda>_. frame),
     ev_decode_request = (\<lambda>line. if line = frame @ [CHR 0x0A] then Some e else None),
     ev_encode_response = (\<lambda>q. case cre_response q of
         ErrorResponse FrameTooLong \<Rightarrow> ''f'' | ErrorResponse InvalidToken \<Rightarrow> ''i'' | _ \<Rightarrow> ''o''),
     ev_decode_response = (\<lambda>line. Some (response_envelope (ce_request_id e)
         (if line = ''f'' @ [CHR 0x0A] then Inl FrameTooLong
          else if line = ''i'' @ [CHR 0x0A] then Inl InvalidToken else Inr r)))\<rparr>"

definition demo_state :: "(nat, unit) chronicle_state" where
  "demo_state = \<lparr>cs_control = Map.empty, cs_attempts = Map.empty, cs_events = ()\<rparr>"

lemmas demo_codec = demo_env_def demo_state_def request_codec_def response_codec_def
  request_envelope_def response_envelope_def CHRONICLE_CONTROL_MAX_FRAME_BYTES_def

text \<open>
  C14: The transport is transparent. When the request and the response each take at least one byte
  less than the frame limit and the client has the server's token, a call over the connection
  gives what the dispatcher gives on the server's state (its errors as remote errors), and
  changes the state in the same way.
\<close>

theorem client_call_transparent:
  assumes "request_codec env (request_envelope token request_id request)"
    and "handle_request env clk request st = (response, st')"
    and "response_codec env (response_envelope request_id response)"
    and "length (ev_encode_request env (request_envelope token request_id request))
      < CHRONICLE_CONTROL_MAX_FRAME_BYTES"
    and "length (ev_encode_response env (response_envelope request_id response))
      < CHRONICLE_CONTROL_MAX_FRAME_BYTES"
  shows "client_call env clk token token request_id request st =
    (case response of Inl e \<Rightarrow> Inl (RemoteError e) | Inr r \<Rightarrow> Inr r, st')"
proof (rule client_answer [OF _ _ assms(3,5)])
  show "serve_connection env clk token
      (ev_encode_request env (request_envelope token request_id request) @ [CHR 0x0A]) st =
      (ev_encode_response env (response_envelope request_id response) @ [CHR 0x0A], st')"
    using assms by (simp add: serve_frame)
  show "response \<noteq> Inr (ErrorResponse e)" for e
    using handle_request_not_error [of env clk request st e] assms(2) by simp
qed (use assms(4) in simp)

theorem client_call_transparent_witness:
  "client_call (demo_env ''q'' (request_envelope ''tok'' 7 (GetAttempt ''run-1'')) (AttemptResponse None))
     (\<lambda>_. 0) ''tok'' ''tok'' 7 (GetAttempt ''run-1'') demo_state = (Inr (AttemptResponse None), demo_state)"
  using client_call_transparent [of "demo_env ''q'' (request_envelope ''tok'' 7 (GetAttempt ''run-1''))
      (AttemptResponse None)" "''tok''" 7 "GetAttempt ''run-1''" "\<lambda>_. 0" demo_state]
  by (simp add: demo_codec handle_request_def registry_get_def)

text \<open>
  The frame limits of the two sides differ by the newline. A request of exactly
  \<open>CHRONICLE_CONTROL_MAX_FRAME_BYTES\<close> bytes passes the client's check and is refused by the server,
  which counts the newline: the call fails and the state is unchanged.
\<close>

theorem full_frame_refused:
  assumes "request_codec env (request_envelope token request_id request)"
    and "response_codec env (response_envelope request_id (Inl FrameTooLong))"
    and "length (ev_encode_request env (request_envelope token request_id request))
      = CHRONICLE_CONTROL_MAX_FRAME_BYTES"
    and "length (ev_encode_response env (response_envelope request_id (Inl FrameTooLong)))
      < CHRONICLE_CONTROL_MAX_FRAME_BYTES"
  shows "client_call env clk token token request_id request st = (Inl (RemoteError FrameTooLong), st)"
  using client_answer [OF _ _ assms(2,4), of token request clk token st st] assms
  by (simp add: serve_frame)

theorem full_frame_refused_witness:
  "client_call (demo_env (replicate (8 * 1024 * 1024) (CHR ''q'')) (request_envelope ''tok'' 7 Ping) Pong)
     (\<lambda>_. 0) ''tok'' ''tok'' 7 Ping demo_state = (Inl (RemoteError FrameTooLong), demo_state)"
  by (rule full_frame_refused) (simp_all add: demo_codec)

text \<open>
  Without the token nothing happens: a request with another token than the server's is never
  dispatched, the state is unchanged, and the client gets an error.
\<close>

theorem wrong_token_refused:
  assumes "request_codec env (request_envelope token' request_id request)" and "token' \<noteq> token"
    and "response_codec env (response_envelope request_id (Inl FrameTooLong))"
    and "response_codec env (response_envelope request_id (Inl InvalidToken))"
  shows "\<exists>e. client_call env clk token token' request_id request st = (Inl e, st)"
proof (cases "length (ev_encode_request env (request_envelope token' request_id request))
    \<le> CHRONICLE_CONTROL_MAX_FRAME_BYTES")
  case True
  have "\<exists>e \<in> {FrameTooLong, InvalidToken}. serve_connection env clk token
      (ev_encode_request env (request_envelope token' request_id request) @ [CHR 0x0A]) st =
      (if length (ev_encode_response env (response_envelope request_id (Inl e))) \<le> CHRONICLE_CONTROL_MAX_FRAME_BYTES
       then ev_encode_response env (response_envelope request_id (Inl e)) @ [CHR 0x0A] else [], st)"
    using serve_frame [OF assms(1) True, of clk token st] assms(2) by (auto simp: Let_def)
  then obtain e where "response_codec env (response_envelope request_id (Inl e))"
    "serve_connection env clk token
      (ev_encode_request env (request_envelope token' request_id request) @ [CHR 0x0A]) st =
      (if length (ev_encode_response env (response_envelope request_id (Inl e))) \<le> CHRONICLE_CONTROL_MAX_FRAME_BYTES
       then ev_encode_response env (response_envelope request_id (Inl e)) @ [CHR 0x0A] else [], st)" using assms(3,4) by blast
  with True show ?thesis
    by (auto simp: client_call_def request_envelope_def response_envelope_def response_codec_def
        read_line_frame Let_def)
qed (simp add: client_call_def request_envelope_def Let_def)


theorem wrong_token_refused_witness:
  "\<exists>e. client_call (demo_env ''q'' (request_envelope ''guess'' 7 Ping) Pong)
     (\<lambda>_. 0) ''tok'' ''guess'' 7 Ping demo_state = (Inl e, demo_state)"
  by (rule wrong_token_refused) (simp_all add: demo_codec)

end
