(* ===== verification/ChronicleControl.thy ===== *)
theory ChronicleControl
  imports ControlServer
begin

section \<open>The control interface pPilot relies on\<close>

text \<open>
  The trait \<open>ChronicleControl\<close> of \<open>persisting-events/src/control.rs\<close>, as the record of the
  operations that pPilot's coordinator calls, over a type of states and a type of errors, and the
  laws the coordinator needs of an implementation. The durable store (behind the server of theory
  \<open>ControlServer\<close>) and the in-memory implementation both keep them.
\<close>

record ('s, 'e, 'j) ChronicleControl =
  cc_acquire_lease :: "clock \<Rightarrow> RunId \<Rightarrow> string option \<Rightarrow> string \<Rightarrow> u64 \<Rightarrow> 's \<Rightarrow> ('e + LeaseAcquireOutcome) \<times> 's"
  cc_takeover_lease :: "clock \<Rightarrow> RunId \<Rightarrow> string option \<Rightarrow> string \<Rightarrow> u64 \<Rightarrow> 's \<Rightarrow> ('e + LeaseAcquireOutcome) \<times> 's"
  cc_bind_attempt :: "clock \<Rightarrow> RunId \<Rightarrow> u64 \<Rightarrow> AttemptId \<Rightarrow> 's \<Rightarrow> ('e + bool) \<times> 's"
  cc_renew_lease :: "clock \<Rightarrow> RunId \<Rightarrow> u64 \<Rightarrow> string \<Rightarrow> u64 \<Rightarrow> 's \<Rightarrow> ('e + bool) \<times> 's"
  cc_commit_run :: "clock \<Rightarrow> RunCommitRequest \<Rightarrow> 's \<Rightarrow> ('e + CommitRunOutcome) \<times> 's"
  cc_get_run :: "RunId \<Rightarrow> 's \<Rightarrow> RunControlRecord option"
  cc_list_runs :: "'s \<Rightarrow> RunControlRecord list"
  cc_get_attempt :: "string \<Rightarrow> 's \<Rightarrow> 'j AttemptRecord option"

text \<open>The durable store, and the in-memory implementation, behind the interface.\<close>

definition store_control ::
  "(control_dir \<Rightarrow> string list) \<Rightarrow> (('j, 'w) chronicle_state, control_error, 'j) ChronicleControl" where
  "store_control read_dir = \<lparr>
     cc_acquire_lease = (\<lambda>clk run_id task_id owner ttl_ms st.
       let (res, dir) = acquire_lease clk (cs_control st) run_id task_id owner ttl_ms in (res, st\<lparr>cs_control := dir\<rparr>)),
     cc_takeover_lease = (\<lambda>clk run_id task_id owner ttl_ms st.
       let (res, dir) = takeover_lease clk (cs_control st) run_id task_id owner ttl_ms in (res, st\<lparr>cs_control := dir\<rparr>)),
     cc_bind_attempt = (\<lambda>clk run_id epoch attempt_id st.
       let (res, dir) = bind_attempt clk (cs_control st) run_id epoch attempt_id in (res, st\<lparr>cs_control := dir\<rparr>)),
     cc_renew_lease = (\<lambda>clk run_id epoch owner ttl_ms st.
       let (res, dir) = renew_lease clk (cs_control st) run_id epoch owner ttl_ms in (res, st\<lparr>cs_control := dir\<rparr>)),
     cc_commit_run = (\<lambda>clk request st.
       let (res, dir) = commit_run clk (cs_control st) request in (res, st\<lparr>cs_control := dir\<rparr>)),
     cc_get_run = (\<lambda>run_id st. get_run (cs_control st) run_id),
     cc_list_runs = (\<lambda>st. list_runs read_dir (cs_control st)),
     cc_get_attempt = (\<lambda>run_id st. registry_get (cs_attempts st) run_id)\<rparr>"

definition memory_control :: "('j MemoryChronicleControl, control_error, 'j) ChronicleControl" where
  "memory_control = \<lparr>
     cc_acquire_lease = (\<lambda>clk run_id task_id owner ttl_ms m. mem_acquire_lease clk m run_id task_id owner ttl_ms),
     cc_takeover_lease = (\<lambda>clk run_id task_id owner ttl_ms m. mem_takeover_lease clk m run_id task_id owner ttl_ms),
     cc_bind_attempt = (\<lambda>clk run_id epoch attempt_id m. mem_bind_attempt clk m run_id epoch attempt_id),
     cc_renew_lease = (\<lambda>clk run_id epoch owner ttl_ms m. mem_renew_lease clk m run_id epoch owner ttl_ms),
     cc_commit_run = (\<lambda>clk request m. mem_commit_run clk m request),
     cc_get_run = (\<lambda>run_id m. mem_get_run m run_id),
     cc_list_runs = mem_list_runs,
     cc_get_attempt = (\<lambda>run_id m. mem_get_attempt m run_id)\<rparr>"

definition run_commit_of :: "('s, 'e, 'j) ChronicleControl \<Rightarrow> 's \<Rightarrow> RunId \<Rightarrow> RunCommit option" where
  "run_commit_of ctl s run_id = Option.bind (cc_get_run ctl run_id s) rc_commit"

text \<open>
  The laws: commits are final under the two calls that finalising a result makes, a commit answered
  as done is the visible one and carries the request, any other answer changes nothing, and a
  committed run binds no attempt and is not leased again.
\<close>

locale chronicle_control =
  fixes ctl :: "('s, 'e, 'j) ChronicleControl"
    and inv :: "'s \<Rightarrow> bool"
  assumes inv_bind: "inv s \<Longrightarrow> cc_bind_attempt ctl clk r ep att s = (res, s') \<Longrightarrow> inv s'"
    and inv_commit: "inv s \<Longrightarrow> cc_commit_run ctl clk req s = (res', s') \<Longrightarrow> inv s'"
    and bind_keeps_commits: "inv s \<Longrightarrow> cc_bind_attempt ctl clk r ep att s = (res, s') \<Longrightarrow>
      run_commit_of ctl s' q = run_commit_of ctl s q"
    and bind_committed: "inv s \<Longrightarrow> run_commit_of ctl s r = Some c \<Longrightarrow>
      cc_bind_attempt ctl clk r ep att s = (Inr False, s)"
    and commit_done: "inv s \<Longrightarrow> cc_commit_run ctl clk req s = (Inr (Committed c), s') \<Longrightarrow>
      c_request c = req \<and> run_commit_of ctl s (rq_run_id req) = None \<and>
      run_commit_of ctl s' (rq_run_id req) = Some c"
    and commit_again: "inv s \<Longrightarrow> cc_commit_run ctl clk req s = (Inr (AlreadyCommitted c), s') \<Longrightarrow>
      c_request c = req \<and> run_commit_of ctl s (rq_run_id req) = Some c \<and> s' = s"
    and commit_keeps: "inv s \<Longrightarrow> cc_commit_run ctl clk req s = (res', s') \<Longrightarrow>
      run_commit_of ctl s q = Some d \<Longrightarrow> run_commit_of ctl s' q = Some d"
    and acquire_committed: "inv s \<Longrightarrow> run_commit_of ctl s r = Some c \<Longrightarrow> trim owner \<noteq> [] \<Longrightarrow>
      cc_acquire_lease ctl clk r task_id owner ttl_ms s = (Inr (LeaseAlreadyCommitted c), s) \<and>
      cc_takeover_lease ctl clk r task_id owner ttl_ms s = (Inr (LeaseAlreadyCommitted c), s)"

subsection \<open>The two implementations keep the laws\<close>

lemma get_run_commit: "run_commit_of (store_control read_dir) st r = Option.bind (get_run (cs_control st) r) rc_commit"
  by (simp add: run_commit_of_def store_control_def)

lemma bind_attempt_commits:
  assumes "dir_wf dir" and "bind_attempt clk dir r ep att = (res, dir')"
  shows "dir_wf dir' \<and> Option.bind (get_run dir' q) rc_commit = Option.bind (get_run dir q) rc_commit"
proof -
  from assms(2) have m: "mutate_local dir r (bind_mutation (clk 0) r ep att) = (res, dir')"
    by (simp add: bind_attempt_def)
  have "dir' = dir \<or> (\<exists>a b. dir (record_path r) = Some a \<and> dir' = dir(record_path r \<mapsto> b) \<and> rc_commit b = rc_commit a)"
    using m by (auto simp: mutate_local_def apply_mutation_def bind_mutation_def next_record_def Let_def
        split: option.splits if_splits sum.splits Mutation.splits rbind_splits)
  with bind_op.mutate_wf [OF assms(1) m] show ?thesis
    by (auto simp: get_run_def)
qed

lemma commit_run_mutate:
  assumes "commit_run clk dir req = (res, dir')"
  shows "dir' = dir \<and> (\<exists>e. res = Inl e) \<or>
    mutate_local dir (rq_run_id req) (commit_mutation (clk 0) (clk 1) req) = (res, dir')"
  using assms by (auto simp: commit_run_def split: sum.splits)

lemma commit_run_wf: "dir_wf dir \<Longrightarrow> commit_run clk dir req = (res, dir') \<Longrightarrow> dir_wf dir'"
  using commit_run_mutate commit_op.mutate_wf by blast

lemma commit_run_value:
  assumes "commit_run clk dir req = (Inr v, dir')"
  shows "(\<exists>r. v = Committed \<lparr>c_request = req, c_committed_at_unix_ms = clk 1\<rparr> \<and>
      current_commit (dir (record_path (rq_run_id req))) = None \<and>
      rc_commit r = Some \<lparr>c_request = req, c_committed_at_unix_ms = clk 1\<rparr> \<and>
      dir' = dir(record_path (rq_run_id req) \<mapsto> r)) \<or>
    dir' = dir \<and> (\<forall>c. v \<noteq> Committed c) \<and>
      (\<forall>c. v = AlreadyCommitted c \<longrightarrow> c_request c = req \<and>
         current_commit (dir (record_path (rq_run_id req))) = Some c)"
proof -
  let ?cur = "dir (record_path (rq_run_id req))"
  obtain m where m: "commit_mutation (clk 0) (clk 1) req ?cur = m" by blast
  from assms commit_run_mutate [OF assms] have
    run: "apply_mutation dir (record_path (rq_run_id req)) m = (Inr v, dir')"
    unfolding m [symmetric] mutate_local_def by auto
  from m show ?thesis
    by (cases rule: commit_mutation_cases) (use run in \<open>auto simp: apply_mutation_def\<close>)
qed

lemma commit_run_keeps:
  assumes "dir_wf dir" and "commit_run clk dir req = (res, dir')"
    and "Option.bind (get_run dir q) rc_commit = Some d"
  shows "Option.bind (get_run dir' q) rc_commit = Some d"
proof -
  from assms(3) obtain a where a: "get_run dir q = Some a" "rc_commit a = Some d"
    by (auto simp: bind_eq_Some_conv)
  have "get_run dir' q = Some a"
    using commit_run_mutate [OF assms(2)] commit_op.mutate_advances [OF assms(1) _ a(1)] a
    by (fastforce simp: rc_advances_def)
  with a(2) show ?thesis by simp
qed

lemma bind_attempt_committed:
  "Option.bind (get_run dir r) rc_commit = Some c \<Longrightarrow> bind_attempt clk dir r ep att = (Inr False, dir)"
  by (auto simp: bind_attempt_def mutate_local_def apply_mutation_def bind_mutation_def get_run_def
      bind_eq_Some_conv split: option.splits)

lemma acquire_inner_committed:
  "Option.bind (get_run dir r) rc_commit = Some c \<Longrightarrow> trim owner \<noteq> [] \<Longrightarrow>
   acquire_lease_inner clk dir r task_id owner ttl_ms force = (Inr (LeaseAlreadyCommitted c), dir)"
  by (simp add: acquire_lease_inner_def mutate_local_def apply_mutation_def acquire_mutation_def
      current_commit_def get_run_def)

lemmas store_simps = store_control_def run_commit_of_def Let_def

interpretation durable: chronicle_control "store_control read_dir :: (('j, 'w) chronicle_state, _, 'j) ChronicleControl"
  "\<lambda>st. dir_wf (cs_control st)"
  for read_dir :: "control_dir \<Rightarrow> string list"
proof (unfold_locales, goal_cases)
  case (1 s clk r ep att res s')
  then show ?case using bind_attempt_commits by (fastforce simp: store_simps split: prod.splits)
next
  case (2 s clk req res s')
  then show ?case using commit_run_wf by (fastforce simp: store_simps split: prod.splits)
next
  case (3 s clk r ep att res s' q)
  then show ?case using bind_attempt_commits by (fastforce simp: store_simps split: prod.splits)
next
  case (4 s r c clk ep att)
  then show ?case by (simp add: store_simps bind_attempt_committed)
next
  case (5 s clk req c s')
  then obtain dir where "commit_run clk (cs_control s) req = (Inr (Committed c), dir)" "s' = s\<lparr>cs_control := dir\<rparr>"
    by (auto simp: store_simps split: prod.splits)
  with commit_run_value [OF this(1)] show ?case
    by (auto simp: store_simps get_run_def current_commit_def)
next
  case (6 s clk req c s')
  then obtain dir where "commit_run clk (cs_control s) req = (Inr (AlreadyCommitted c), dir)" "s' = s\<lparr>cs_control := dir\<rparr>"
    by (auto simp: store_simps split: prod.splits)
  with commit_run_value [OF this(1)] show ?case
    by (auto simp: store_simps get_run_def current_commit_def)
next
  case (7 s clk req res s' q d)
  then show ?case using commit_run_keeps by (fastforce simp: store_simps split: prod.splits)
next
  case (8 s r c owner clk task_id ttl_ms)
  then show ?case by (simp add: store_simps acquire_lease_def takeover_lease_def acquire_inner_committed)
qed

interpretation memory: chronicle_control "memory_control :: ('j MemoryChronicleControl, _, 'j) ChronicleControl"
  "\<lambda>_. True"
  by unfold_locales
    (auto simp: memory_control_def run_commit_of_def mem_bind_attempt_def mem_commit_run_def
      mem_acquire_lease_def mem_takeover_lease_def mem_acquire_inner_def mem_get_run_def
      current_commit_def bind_eq_Some_conv Let_def
      split: option.splits if_splits)

end
