(* ===== verification/LogFile.thy ===== *)
theory LogFile
  imports RustStr
begin

section \<open>Files of lines\<close>

text \<open>
  What the JSON line files of the program share: a file is a byte string, a write may fail after
  some of its bytes, and reading gives the lines between newlines. \<open>valid_utf8\<close> is what
  \<open>std::str::from_utf8\<close> accepts; a line that it refuses is an error of \<open>BufRead::lines\<close>.
\<close>

text \<open>What becomes of one write: complete, or failed with the first \<open>n\<close> bytes in the file.\<close>

datatype write_fate = WriteOk | WriteFails nat

text \<open>\<open>BufRead::lines\<close>: the pieces between newlines; the last one only when it is not empty.\<close>

fun split_lines :: "string \<Rightarrow> string \<Rightarrow> string list" where
  "split_lines acc [] = (if acc = [] then [] else [acc])"
| "split_lines acc (c # s) = (if c = CHR 0x0A then acc # split_lines [] s else split_lines (acc @ [c]) s)"

lemma split_lines_line:
  "CHR 0x0A \<notin> set line \<Longrightarrow> split_lines acc (line @ CHR 0x0A # rest) = (acc @ line) # split_lines [] rest"
  by (induction line arbitrary: acc) auto

lemma split_lines_append:
  assumes "bytes = [] \<or> last bytes = CHR 0x0A"
  shows "split_lines acc (bytes @ rest) =
    (if bytes = [] then split_lines acc rest else split_lines acc bytes @ split_lines [] rest)"
  using assms
proof (induction bytes arbitrary: acc)
  case (Cons c s)
  then show ?case by (cases "s = []") auto
qed simp

definition complete_lines :: "string \<Rightarrow> bool" where
  "complete_lines bytes \<longleftrightarrow> bytes = [] \<or> last bytes = CHR 0x0A"

definition continuation_byte :: "int \<Rightarrow> bool" where
  "continuation_byte x \<longleftrightarrow> 0x80 \<le> x \<and> x \<le> 0xBF"

fun valid_utf8 :: "string \<Rightarrow> bool" where
  "valid_utf8 [] = True"
| "valid_utf8 (a # s) =
    (let x = of_char a :: int in
     if x < 0x80 then valid_utf8 s
     else case s of [] \<Rightarrow> False
     | b # s1 \<Rightarrow>
        (let y = of_char b :: int in
         if 0xC2 \<le> x \<and> x \<le> 0xDF then continuation_byte y \<and> valid_utf8 s1
         else case s1 of [] \<Rightarrow> False
         | c # s2 \<Rightarrow>
            if 0xE0 \<le> x \<and> x \<le> 0xEF then
              (if x = 0xE0 then 0xA0 else 0x80) \<le> y \<and> y \<le> (if x = 0xED then 0x9F else 0xBF) \<and>
              continuation_byte (of_char c) \<and> valid_utf8 s2
            else case s2 of [] \<Rightarrow> False
            | d # s3 \<Rightarrow>
                0xF0 \<le> x \<and> x \<le> 0xF4 \<and> (if x = 0xF0 then 0x90 else 0x80) \<le> y \<and>
                y \<le> (if x = 0xF4 then 0x8F else 0xBF) \<and>
                continuation_byte (of_char c) \<and> continuation_byte (of_char d) \<and> valid_utf8 s3))"

lemma valid_utf8_ascii: "list_all (\<lambda>c. (of_char c :: int) < 0x80) s \<Longrightarrow> valid_utf8 s"
  by (induction s) (simp_all add: Let_def)

text \<open>A file that is a sequence of lines is read back as those lines.\<close>

definition bytes_of_lines :: "string list \<Rightarrow> string" where
  "bytes_of_lines ls = concat (map (\<lambda>l. l @ [CHR 0x0A]) ls)"

lemma bytes_of_lines_append [simp]: "bytes_of_lines (xs @ ys) = bytes_of_lines xs @ bytes_of_lines ys"
  by (simp add: bytes_of_lines_def)

lemma bytes_of_lines_Nil [simp]: "bytes_of_lines [] = []"
  by (simp add: bytes_of_lines_def)

lemma split_bytes_of_lines:
  "list_all (\<lambda>l. CHR 0x0A \<notin> set l) ls \<Longrightarrow> split_lines [] (bytes_of_lines ls @ rest) = ls @ split_lines [] rest"
proof (induction ls)
  case (Cons l ls)
  then show ?case using split_lines_line [of l "[]" "bytes_of_lines ls @ rest"] by (simp add: bytes_of_lines_def)
qed simp

end
