(* ===== verification/ResultSink.thy ===== *)
theory ResultSink
  imports LogFile
begin

section \<open>Result sinks and the checkpoint ledger\<close>

text \<open>
  \<open>persisting-ppilot/src/sink.rs\<close> and the ledger of \<open>checkpoint.rs\<close>: terminal task results are
  appended as JSON lines to \<open>ready.ndjson\<close> or \<open>failures.ndjson\<close>, at most once per task id, and the
  ids already there are read back when the sink is opened. Files are byte strings, so that a
  write can fail after some of its bytes. \<open>serde_json\<close> is external: \<open>ndjson\<close> renders a result,
  \<open>line_task_id\<close> parses a line and takes its \<open>task_id\<close>. The fields of a task result that no
  modelled code reads are one opaque payload.
\<close>

record 'p TaskResult =
  tk_task_id :: string
  tk_run_id :: "string option"
  tk_attempt_id :: "string option"
  tk_lease_epoch :: u64
  tk_ok :: bool
  tk_cancelled :: bool
  tk_payload :: 'p

record jsonl_sink =
  js_ready :: string
  js_failures :: string
  js_seen_ready :: "string set"
  js_seen_fail :: "string set"

definition append_line :: "write_fate \<Rightarrow> string \<Rightarrow> string \<Rightarrow> bool \<times> string" where
  "append_line fate line bytes =
    (case fate of
       WriteOk \<Rightarrow> (True, bytes @ line @ [CHR 0x0A])
     | WriteFails n \<Rightarrow> (False, bytes @ take n (line @ [CHR 0x0A])))"

definition jsonl_append_ready ::
  "('p TaskResult \<Rightarrow> string) \<Rightarrow> write_fate \<Rightarrow> 'p TaskResult \<Rightarrow> jsonl_sink \<Rightarrow> bool \<times> jsonl_sink" where
  "jsonl_append_ready ndjson fate result st =
    (if tk_task_id result \<in> js_seen_ready st then (True, st)
     else
      (let st1 = st\<lparr>js_seen_ready := insert (tk_task_id result) (js_seen_ready st)\<rparr>;
           (ok, bytes) = append_line fate (ndjson result) (js_ready st1);
           st2 = st1\<lparr>js_ready := bytes\<rparr>
       in if ok then (True, st2)
          else (False, st2\<lparr>js_seen_ready := js_seen_ready st2 - {tk_task_id result}\<rparr>)))"

definition jsonl_append_failure ::
  "('p TaskResult \<Rightarrow> string) \<Rightarrow> write_fate \<Rightarrow> 'p TaskResult \<Rightarrow> jsonl_sink \<Rightarrow> bool \<times> jsonl_sink" where
  "jsonl_append_failure ndjson fate result st =
    (if tk_task_id result \<in> js_seen_fail st then (True, st)
     else
      (let st1 = st\<lparr>js_seen_fail := insert (tk_task_id result) (js_seen_fail st)\<rparr>;
           (ok, bytes) = append_line fate (ndjson result) (js_failures st1);
           st2 = st1\<lparr>js_failures := bytes\<rparr>
       in if ok then (True, st2)
          else (False, st2\<lparr>js_seen_fail := js_seen_fail st2 - {tk_task_id result}\<rparr>)))"

text \<open>The trait \<open>ResultSink\<close> and the routing of a terminal result.\<close>

record ('f, 'k, 'p) ResultSink =
  rs_append_ready :: "'f \<Rightarrow> 'p TaskResult \<Rightarrow> 'k \<Rightarrow> bool \<times> 'k"
  rs_append_failure :: "'f \<Rightarrow> 'p TaskResult \<Rightarrow> 'k \<Rightarrow> bool \<times> 'k"

definition persist_terminal ::
  "('f, 'k, 'p) ResultSink \<Rightarrow> 'f \<Rightarrow> 'p TaskResult \<Rightarrow> 'k \<Rightarrow> bool \<times> 'k" where
  "persist_terminal sink fate result k =
    (if tk_ok result \<and> \<not> tk_cancelled result then rs_append_ready sink fate result k
     else rs_append_failure sink fate result k)"

definition jsonl_sink_ops :: "('p TaskResult \<Rightarrow> string) \<Rightarrow> (write_fate, jsonl_sink, 'p) ResultSink" where
  "jsonl_sink_ops ndjson = \<lparr>rs_append_ready = jsonl_append_ready ndjson,
     rs_append_failure = jsonl_append_failure ndjson\<rparr>"

text \<open>\<open>TeeSink\<close>: every sibling is tried; the call fails when one of them did.\<close>

fun tee_append ::
  "('f \<Rightarrow> 'p TaskResult \<Rightarrow> 'k \<Rightarrow> bool \<times> 'k) list \<Rightarrow> 'f list \<Rightarrow> 'p TaskResult \<Rightarrow> 'k list \<Rightarrow> bool \<times> 'k list" where
  "tee_append (op # ops) (fate # fates) result (k # ks) =
    (let (ok, k') = op fate result k; (oks, ks') = tee_append ops fates result ks
     in (ok \<and> oks, k' # ks'))"
| "tee_append _ _ result ks = (True, ks)"

definition tee_sink_ops :: "('f, 'k, 'p) ResultSink list \<Rightarrow> ('f list, 'k list, 'p) ResultSink" where
  "tee_sink_ops sinks = \<lparr>rs_append_ready = tee_append (map rs_append_ready sinks),
     rs_append_failure = tee_append (map rs_append_failure sinks)\<rparr>"

subsection \<open>Reading the ledger back\<close>

definition load_task_ids :: "(string \<Rightarrow> string option) \<Rightarrow> string \<Rightarrow> string set" where
  "load_task_ids line_task_id bytes =
     set (List.map_filter (\<lambda>line. if trim line = [] then None else line_task_id (trim line))
       (split_lines [] bytes))"

definition jsonl_open :: "(string \<Rightarrow> string option) \<Rightarrow> string \<Rightarrow> string \<Rightarrow> jsonl_sink" where
  "jsonl_open line_task_id ready failures =
    \<lparr>js_ready = ready, js_failures = failures, js_seen_ready = load_task_ids line_task_id ready,
     js_seen_fail = load_task_ids line_task_id failures\<rparr>"

definition skip_ids :: "jsonl_sink \<Rightarrow> string set" where
  "skip_ids ledger = js_seen_ready ledger \<union> js_seen_fail ledger"

text \<open>What \<open>serde_json\<close> gives: one line per result, from which the task id can be read back.\<close>

definition ndjson_ok :: "('p TaskResult \<Rightarrow> string) \<Rightarrow> (string \<Rightarrow> string option) \<Rightarrow> 'p TaskResult \<Rightarrow> bool" where
  "ndjson_ok ndjson line_task_id result \<longleftrightarrow>
     CHR 0x0A \<notin> set (ndjson result) \<and> trim (ndjson result) \<noteq> [] \<and>
     line_task_id (trim (ndjson result)) = Some (tk_task_id result)"

lemma load_append:
  assumes "complete_lines bytes" and "ndjson_ok ndjson line_task_id result"
  shows "load_task_ids line_task_id (bytes @ ndjson result @ [CHR 0x0A]) =
    insert (tk_task_id result) (load_task_ids line_task_id bytes)"
proof -
  have line: "split_lines [] (ndjson result @ [CHR 0x0A]) = [ndjson result]"
    using assms(2) split_lines_line [of "ndjson result" "[]" "[]"] by (simp add: ndjson_ok_def)
  show ?thesis
    using assms split_lines_append [of bytes "[]" "ndjson result @ [CHR 0x0A]"] line
    by (auto simp: load_task_ids_def complete_lines_def ndjson_ok_def in_map_filter set_eq_iff)
qed


subsection \<open>The contract of a sink\<close>

text \<open>
  A sink records ids per ledger: a successful append has recorded its task, and no append ever
  drops a recorded one.
\<close>

locale result_sink =
  fixes append_ready :: "'f \<Rightarrow> 'p TaskResult \<Rightarrow> 'k \<Rightarrow> bool \<times> 'k"
    and append_failure :: "'f \<Rightarrow> 'p TaskResult \<Rightarrow> 'k \<Rightarrow> bool \<times> 'k"
    and ready_ids :: "'k \<Rightarrow> string set"
    and failure_ids :: "'k \<Rightarrow> string set"
  assumes ready_ok: "append_ready fate r k = (True, k') \<Longrightarrow> tk_task_id r \<in> ready_ids k'"
    and failure_ok: "append_failure fate r k = (True, k') \<Longrightarrow> tk_task_id r \<in> failure_ids k'"
    and ready_keeps: "append_ready fate r k = (ok, k') \<Longrightarrow>
      ready_ids k \<subseteq> ready_ids k' \<and> failure_ids k \<subseteq> failure_ids k'"
    and failure_keeps: "append_failure fate r k = (ok, k') \<Longrightarrow>
      ready_ids k \<subseteq> ready_ids k' \<and> failure_ids k \<subseteq> failure_ids k'"
begin

lemma persist_records:
  assumes "persist_terminal \<lparr>rs_append_ready = append_ready, rs_append_failure = append_failure\<rparr> fate r k
    = (True, k')"
  shows "tk_task_id r \<in> ready_ids k' \<union> failure_ids k'"
  using assms ready_ok failure_ok by (auto simp: persist_terminal_def split: if_splits)

lemma persist_keeps:
  assumes "persist_terminal \<lparr>rs_append_ready = append_ready, rs_append_failure = append_failure\<rparr> fate r k
    = (ok, k')"
  shows "ready_ids k \<subseteq> ready_ids k' \<and> failure_ids k \<subseteq> failure_ids k'"
  using assms ready_keeps failure_keeps by (auto simp: persist_terminal_def split: if_splits)

end

interpretation jsonl: result_sink "jsonl_append_ready ndjson" "jsonl_append_failure ndjson"
  js_seen_ready js_seen_fail
  for ndjson :: "'p TaskResult \<Rightarrow> string"
  by unfold_locales
    (auto simp: jsonl_append_ready_def jsonl_append_failure_def append_line_def Let_def
      split: if_splits write_fate.splits prod.splits)

text \<open>The same ids on disk: the seen sets are what a reload of the files would give.\<close>

definition ledger_on_disk :: "(string \<Rightarrow> string option) \<Rightarrow> jsonl_sink \<Rightarrow> bool" where
  "ledger_on_disk line_task_id st \<longleftrightarrow> complete_lines (js_ready st) \<and> complete_lines (js_failures st) \<and>
     js_seen_ready st = load_task_ids line_task_id (js_ready st) \<and>
     js_seen_fail st = load_task_ids line_task_id (js_failures st)"


definition demo_result :: "string \<Rightarrow> nat TaskResult" where
  "demo_result task_id = \<lparr>tk_task_id = task_id, tk_run_id = Some ''run-1'', tk_attempt_id = Some ''att-1'',
     tk_lease_epoch = 1, tk_ok = True, tk_cancelled = False, tk_payload = 0\<rparr>"

definition demo_ndjson :: "nat TaskResult \<Rightarrow> string" where
  "demo_ndjson r = ''{'' @ tk_task_id r @ ''}''"

definition demo_line_task_id :: "string \<Rightarrow> string option" where
  "demo_line_task_id line = Option.bind (strip_prefix line ''{'') (\<lambda>s. case strip_suffix s ''}'' of
     None \<Rightarrow> None | Some i \<Rightarrow> if CHR ''{'' \<in> set i then None else Some i)"

definition demo_sink :: jsonl_sink where
  "demo_sink = \<lparr>js_ready = [], js_failures = [], js_seen_ready = {}, js_seen_fail = {}\<rparr>"

lemma demo_ndjson_ok: "ndjson_ok demo_ndjson demo_line_task_id (demo_result ''t1'')"
  "ndjson_ok demo_ndjson demo_line_task_id (demo_result ''t2'')"
  by code_simp+



lemma load_merged:
  assumes "complete_lines bytes" and "CHR 0x0A \<notin> set line" and "trim line \<noteq> []"
  shows "load_task_ids line_task_id (bytes @ line @ [CHR 0x0A]) =
    load_task_ids line_task_id bytes \<union> set_option (line_task_id (trim line))"
proof -
  have "split_lines [] (line @ [CHR 0x0A]) = [line]"
    using assms(2) split_lines_line [of line "[]" "[]"] by simp
  with assms(1,3) split_lines_append [of bytes "[]" "line @ [CHR 0x0A]"] show ?thesis
    by (auto simp: load_task_ids_def complete_lines_def in_map_filter set_eq_iff)
qed

text \<open>
  A torn write swallows the next line. When a write fails after some bytes of its line, the
  following append succeeds, but its line is glued to the torn one. If the glued line does not
  parse, the appended task is recorded in memory only: a reload of the file does not know it.
\<close>

theorem torn_write_swallows_next_line:
  assumes "complete_lines (js_ready st)"
    and "tk_task_id r \<notin> js_seen_ready st" and "tk_task_id r' \<notin> js_seen_ready st"
    and "tk_task_id r' \<notin> load_task_ids line_task_id (js_ready st)"
    and "jsonl_append_ready ndjson (WriteFails n) r st = (ok1, st1)" and "n \<le> length (ndjson r)"
    and "jsonl_append_ready ndjson WriteOk r' st1 = (ok2, st2)"
    and "CHR 0x0A \<notin> set (ndjson r)" and "CHR 0x0A \<notin> set (ndjson r')"
    and "trim (take n (ndjson r) @ ndjson r') \<noteq> []"
    and "line_task_id (trim (take n (ndjson r) @ ndjson r')) = None"
  shows "\<not> ok1 \<and> ok2 \<and> tk_task_id r' \<in> js_seen_ready st2 \<and>
    tk_task_id r' \<notin> js_seen_ready (jsonl_open line_task_id (js_ready st2) (js_failures st2))"
proof -
  have st1: "\<not> ok1" "js_ready st1 = js_ready st @ take n (ndjson r)" "js_seen_ready st1 = js_seen_ready st"
    using assms(2,5,6) by (auto simp: jsonl_append_ready_def append_line_def Let_def)
  have st2: "ok2" "js_ready st2 = js_ready st @ (take n (ndjson r) @ ndjson r') @ [CHR 0x0A]"
    "tk_task_id r' \<in> js_seen_ready st2"
    using assms(3,7) st1 by (auto simp: jsonl_append_ready_def append_line_def Let_def)
  have "CHR 0x0A \<notin> set (take n (ndjson r) @ ndjson r')"
    using assms(8,9) by (auto dest: in_set_takeD)
  with load_merged [OF assms(1) this assms(10)] st2(2) assms(4,11) st1(1) st2 show ?thesis
    by (simp add: jsonl_open_def)
qed

theorem torn_write_swallows_next_line_witness:
  "''t2'' \<notin> js_seen_ready (jsonl_open demo_line_task_id
     (js_ready (snd (jsonl_append_ready demo_ndjson WriteOk (demo_result ''t2'')
       (snd (jsonl_append_ready demo_ndjson (WriteFails 1) (demo_result ''t1'') demo_sink)))))
     (js_failures (snd (jsonl_append_ready demo_ndjson WriteOk (demo_result ''t2'')
       (snd (jsonl_append_ready demo_ndjson (WriteFails 1) (demo_result ''t1'') demo_sink))))))"
proof -
  have nl: "CHR 0x0A \<notin> set (demo_ndjson (demo_result ''t1''))" "CHR 0x0A \<notin> set (demo_ndjson (demo_result ''t2''))"
    by code_simp+
  have merged: "trim (take 1 (demo_ndjson (demo_result ''t1'')) @ demo_ndjson (demo_result ''t2'')) \<noteq> []"
    "demo_line_task_id (trim (take 1 (demo_ndjson (demo_result ''t1'')) @ demo_ndjson (demo_result ''t2''))) = None"
    by code_simp+
  show ?thesis
    using torn_write_swallows_next_line [where ndjson = demo_ndjson and r = "demo_result ''t1''"
        and r' = "demo_result ''t2''" and n = 1 and line_task_id = demo_line_task_id and st = demo_sink,
        OF _ _ _ _ surjective_pairing _ surjective_pairing nl merged]
    by (simp add: demo_sink_def complete_lines_def demo_result_def demo_ndjson_def load_task_ids_def
        map_filter_simps)
qed

text \<open>
  A tee leaves no sibling out. Every sink gets the result whatever happens to the others, and
  the call succeeds exactly when all of them did.
\<close>

theorem tee_append_reaches_all:
  assumes "length fates = length sinks" and "length ks = length sinks"
  shows "rs_append_ready (tee_sink_ops sinks) fates result ks =
    (let outs = map (\<lambda>(sink, fate, k). rs_append_ready sink fate result k) (zip sinks (zip fates ks))
     in (list_all fst outs, map snd outs)) \<and>
    rs_append_failure (tee_sink_ops sinks) fates result ks =
    (let outs = map (\<lambda>(sink, fate, k). rs_append_failure sink fate result k) (zip sinks (zip fates ks))
     in (list_all fst outs, map snd outs))"
proof -
  have "tee_append (map sel sinks) fates result ks =
      (let outs = map (\<lambda>(sink, fate, k). sel sink fate result k) (zip sinks (zip fates ks))
       in (list_all fst outs, map snd outs))" for sel :: "_ \<Rightarrow> _ \<Rightarrow> _ \<Rightarrow> _ \<Rightarrow> bool \<times> _"
    using assms
  proof (induction sinks arbitrary: fates ks)
    case (Cons s ss)
    then show ?case by (cases fates; cases ks) (auto simp: Let_def split: prod.splits)
  qed simp
  then show ?thesis by (simp add: tee_sink_ops_def)
qed

theorem tee_append_reaches_all_witness:
  "fst (rs_append_ready (tee_sink_ops [jsonl_sink_ops demo_ndjson, jsonl_sink_ops demo_ndjson])
     [WriteFails 0, WriteOk] (demo_result ''t1'') [demo_sink, demo_sink]) = False \<and>
   js_seen_ready (snd (rs_append_ready (tee_sink_ops [jsonl_sink_ops demo_ndjson, jsonl_sink_ops demo_ndjson])
     [WriteFails 0, WriteOk] (demo_result ''t1'') [demo_sink, demo_sink]) ! 1) = {''t1''}"
  using tee_append_reaches_all [of "[WriteFails 0, WriteOk]" "[jsonl_sink_ops demo_ndjson, jsonl_sink_ops demo_ndjson]"
      "[demo_sink, demo_sink]" "demo_result ''t1''"]
  by (simp add: jsonl_sink_ops_def jsonl_append_ready_def append_line_def demo_sink_def demo_result_def)

end
