(* ===== verification/IoMonad.thy ===== *)
theory IoMonad
  imports Prelude
begin

section \<open>Fallible stateful computations\<close>

text \<open>
  The shape of the Rust methods that change shared state or call out and return \<open>Result\<close>: a
  function from the state to a result and the state after the call, also when it failed.
\<close>


type_synonym ('st, 'e, 'a) io = "'st \<Rightarrow> ('e + 'a) \<times> 'st"

definition io_return :: "'a \<Rightarrow> ('st, 'e, 'a) io" where
  "io_return x st = (Inr x, st)"

definition io_fail :: "'e \<Rightarrow> ('st, 'e, 'a) io" where
  "io_fail e st = (Inl e, st)"

definition io_bind :: "('st, 'e, 'a) io \<Rightarrow> ('a \<Rightarrow> ('st, 'e, 'b) io) \<Rightarrow> ('st, 'e, 'b) io" where
  "io_bind m f st = (case m st of (Inl e, st') \<Rightarrow> (Inl e, st') | (Inr x, st') \<Rightarrow> f x st')"

definition io_update :: "('st \<Rightarrow> 'st) \<Rightarrow> ('st, 'e, unit) io" where
  "io_update f st = (Inr (), f st)"

definition io_read :: "('st \<Rightarrow> ('st, 'e, 'a) io) \<Rightarrow> ('st, 'e, 'a) io" where
  "io_read f st = f st st"

text \<open>A Rust \<open>match\<close> on a result: the error is a value for the continuation.\<close>

definition io_try :: "('st, 'e, 'a) io \<Rightarrow> ('e + 'a \<Rightarrow> ('st, 'e, 'b) io) \<Rightarrow> ('st, 'e, 'b) io" where
  "io_try m f st = (case m st of (r, st') \<Rightarrow> f r st')"

fun io_fold :: "('a \<Rightarrow> 'b \<Rightarrow> ('st, 'e, 'b) io) \<Rightarrow> 'a list \<Rightarrow> 'b \<Rightarrow> ('st, 'e, 'b) io" where
  "io_fold f [] b = io_return b"
| "io_fold f (x # xs) b = io_bind (f x b) (\<lambda>b'. io_fold f xs b')"

lemma io_bind_Inr:
  "io_bind m f st = (Inr y, st') \<longleftrightarrow> (\<exists>x st1. m st = (Inr x, st1) \<and> f x st1 = (Inr y, st'))"
  by (auto simp: io_bind_def split: prod.splits sum.splits)

lemma io_bind_Inl:
  "io_bind m f st = (Inl e, st') \<longleftrightarrow>
    m st = (Inl e, st') \<or> (\<exists>x st1. m st = (Inr x, st1) \<and> f x st1 = (Inl e, st'))"
  by (auto simp: io_bind_def split: prod.splits sum.splits)

lemma io_return_iff [simp]: "io_return x st = (Inr y, st') \<longleftrightarrow> y = x \<and> st' = st" "io_return x st \<noteq> (Inl e, st')"
  by (auto simp: io_return_def)

lemma io_fail_iff [simp]: "io_fail e st \<noteq> (Inr y, st')" "io_fail e st = (Inl e', st') \<longleftrightarrow> e' = e \<and> st' = st"
  by (auto simp: io_fail_def)

text \<open>A predicate that every part of a computation keeps is kept by the whole, failed or not.\<close>

definition io_keeps :: "('st \<Rightarrow> bool) \<Rightarrow> ('st, 'e, 'a) io \<Rightarrow> bool" where
  "io_keeps P m \<longleftrightarrow> (\<forall>st. P st \<longrightarrow> P (snd (m st)))"

lemma io_keeps_return [intro, simp]: "io_keeps P (io_return x)"
  by (simp add: io_keeps_def io_return_def)

lemma io_keeps_fail [intro, simp]: "io_keeps P (io_fail e)"
  by (simp add: io_keeps_def io_fail_def)

lemma io_keeps_bind [intro]: "io_keeps P m \<Longrightarrow> (\<And>x. io_keeps P (f x)) \<Longrightarrow> io_keeps P (io_bind m f)"
  by (simp add: io_keeps_def io_bind_def split: prod.splits sum.splits) (metis snd_conv)

lemma io_keeps_read [intro]: "(\<And>st. io_keeps P (f st)) \<Longrightarrow> io_keeps P (io_read f)"
  by (simp add: io_keeps_def io_read_def)

lemma io_keeps_fold [intro]: "(\<And>x b. io_keeps P (f x b)) \<Longrightarrow> io_keeps P (io_fold f xs b)"
  by (induction xs arbitrary: b) auto

text \<open>A triple: from a state in \<open>P\<close> a successful run gives \<open>Q\<close>, a failed one leaves the state in \<open>R\<close>.\<close>

definition io_triple :: "('st \<Rightarrow> bool) \<Rightarrow> ('st, 'e, 'a) io \<Rightarrow> ('a \<Rightarrow> 'st \<Rightarrow> bool) \<Rightarrow> ('st \<Rightarrow> bool) \<Rightarrow> bool" where
  "io_triple P m Q R \<longleftrightarrow> (\<forall>st. P st \<longrightarrow> (case m st of (Inl _, st') \<Rightarrow> R st' | (Inr x, st') \<Rightarrow> Q x st'))"

lemma io_triple_return [intro]: "(\<And>st. P st \<Longrightarrow> Q x st) \<Longrightarrow> io_triple P (io_return x) Q R"
  by (simp add: io_triple_def io_return_def)

lemma io_triple_fail [intro]: "(\<And>st. P st \<Longrightarrow> R st) \<Longrightarrow> io_triple P (io_fail e) Q R"
  by (simp add: io_triple_def io_fail_def)

lemma io_triple_bind: "io_triple P m M R \<Longrightarrow> (\<And>x. io_triple (M x) (f x) Q R) \<Longrightarrow> io_triple P (io_bind m f) Q R"
  unfolding io_triple_def io_bind_def by (fastforce split: prod.splits sum.splits)

lemma io_triple_read: "(\<And>st. P st \<Longrightarrow> io_triple P (f st) Q R) \<Longrightarrow> io_triple P (io_read f) Q R"
  by (simp add: io_triple_def io_read_def)

lemma io_triple_weaken:
  "io_triple P m Q R \<Longrightarrow> (\<And>st. P' st \<Longrightarrow> P st) \<Longrightarrow> (\<And>x st. Q x st \<Longrightarrow> Q' x st) \<Longrightarrow> (\<And>st. R st \<Longrightarrow> R' st) \<Longrightarrow> io_triple P' m Q' R'"
  unfolding io_triple_def by (fastforce split: prod.splits sum.splits)

lemma io_triple_keeps: "io_keeps P m \<Longrightarrow> (\<And>st. P st \<Longrightarrow> R st) \<Longrightarrow> io_triple P m (\<lambda>_. P) R"
  unfolding io_triple_def io_keeps_def by (fastforce split: prod.splits sum.splits)

lemma io_triple_run: "io_triple P m (\<lambda>_. Q) Q \<Longrightarrow> P st \<Longrightarrow> Q (snd (m st))"
  unfolding io_triple_def by (fastforce split: prod.splits sum.splits)

lemma io_triple_fold: "(\<And>x b. io_triple P (f x b) (\<lambda>_. P) R) \<Longrightarrow> io_triple P (io_fold f xs b) (\<lambda>_. P) R"
  by (induction xs arbitrary: b) (auto intro: io_triple_bind)

lemma io_keeps_try [intro]: "io_keeps P m \<Longrightarrow> (\<And>r. io_keeps P (f r)) \<Longrightarrow> io_keeps P (io_try m f)"
  by (simp add: io_keeps_def io_try_def split: prod.splits) (metis snd_conv)

subsection \<open>Runs of operations and their refinement\<close>

fun run_ops :: "('o \<Rightarrow> 's \<Rightarrow> 'r \<times> 's) \<Rightarrow> 'o list \<Rightarrow> 's \<Rightarrow> 'r list \<times> 's" where
  "run_ops step [] s = ([], s)"
| "run_ops step (x # xs) s =
    (case step x s of (r, s1) \<Rightarrow> case run_ops step xs s1 of (rs, s2) \<Rightarrow> (r # rs, s2))"

text \<open>Operations that keep an invariant and answer as the abstract ones do.\<close>

locale op_refinement =
  fixes inv :: "'s \<Rightarrow> bool" and abs :: "'s \<Rightarrow> 't" and valid :: "'o \<Rightarrow> bool"
    and step :: "'o \<Rightarrow> 's \<Rightarrow> 'r \<times> 's" and spec :: "'o \<Rightarrow> 't \<Rightarrow> 'r \<times> 't"
  assumes step_inv: "valid x \<Longrightarrow> inv s \<Longrightarrow> inv (snd (step x s))"
    and step_spec: "valid x \<Longrightarrow> inv s \<Longrightarrow> map_prod id abs (step x s) = spec x (abs s)"
begin

lemma run_refines:
  "list_all valid xs \<Longrightarrow> inv s \<Longrightarrow>
    map_prod id abs (run_ops step xs s) = run_ops spec xs (abs s) \<and> inv (snd (run_ops step xs s))"
proof (induction xs arbitrary: s)
  case (Cons x xs)
  obtain r s1 where step: "step x s = (r, s1)" by fastforce
  have "inv s1" "spec x (abs s) = (r, abs s1)"
    using step_inv [of x s] step_spec [of x s] Cons.prems step by simp_all
  then show ?case using Cons step by (auto simp: split_beta prod_eq_iff)
qed simp

end

end
