(* ===== verification/Coordination.thy ===== *)
theory Coordination
  imports ChronicleControl ResultSink IoMonad
begin

section \<open>The run coordinator of pPilot\<close>

text \<open>
  \<open>persisting-ppilot/src/coordination.rs\<close>: a terminal task result is staged in a local journal,
  committed in the control store under its lease epoch, and only then appended to the user's
  sink; after a restart, \<open>reconcile\<close> compares journal, control store and observable attempts.
  The coordinator's state holds the states of the control implementation and of the sink, the
  journal directory, the set of orphaned runs, and the heartbeat tokens. Everything outside is in
  \<open>coordinator_env\<close>: the control and sink operations, SHA-256, the digest of a result, what the
  clock and the disk do at each step (\<open>ce_clock\<close>, \<open>ce_fate\<close>, \<open>ce_disk_ok\<close>, indexed by the number of
  external calls made so far), and the order of directory listings.
\<close>

subsection \<open>State and records\<close>

definition RESULT_JOURNAL_SCHEMA_VERSION :: u32 where
  "RESULT_JOURNAL_SCHEMA_VERSION = 1"

definition MIN_LEASE_TTL_MS :: u64 where
  "MIN_LEASE_TTL_MS = 1000"

datatype DurableResultStatus = Staged | JournalCommitted | Fenced

record 'p DurableResultRecord =
  dr_schema_version :: u32
  dr_task_id :: string
  dr_run_id :: RunId
  dr_attempt_id :: AttemptId
  dr_lease_epoch :: u64
  dr_result_digest :: string
  dr_result :: "'p TaskResult"
  dr_status :: DurableResultStatus
  dr_sink_persisted :: bool

datatype 'p AttemptObservation =
    ObservedAbsent
  | ObservedActive AttemptId u64
  | ObservedTerminal "'p TaskResult"
  | ObservedPending

record ReconcileReport =
  rp_committed :: "(string, unit) btree"
  rp_retry :: "(string, unit) btree"
  rp_deferred :: "(string, unit) btree"
  rp_recovered_commits :: nat
  rp_recovered_sink_appends :: nat
  rp_fenced_results :: nat
  rp_active_attempts :: nat
  rp_stale_attempts_cancelled :: nat

definition empty_report :: ReconcileReport where
  "empty_report = \<lparr>rp_committed = [], rp_retry = [], rp_deferred = [], rp_recovered_commits = 0,
     rp_recovered_sink_appends = 0, rp_fenced_results = 0, rp_active_attempts = 0,
     rp_stale_attempts_cancelled = 0\<rparr>"

datatype 'e co_error =
    ControlError 'e
  | LeaseTtlTooShort
  | LeaseHeld RunLeaseRecord
  | RunAlreadyCommitted RunId
  | ResultHasNoRunId
  | ResultHasNoAttemptId
  | ResultHasNoLeaseEpoch
  | JournalWriteFailed
  | SinkFailed
  | AttemptLostLease
  | StaleResultFenced u64 "u64 option"
  | CommitConflict RunCommit
  | UnsupportedJournalSchema u32
  | ObserverFailed

record ('s, 'k, 'p) co_state =
  co_control :: 's
  co_journal :: "(string, 'p DurableResultRecord) btree"
  co_sink :: 'k
  co_orphaned :: "(RunId, unit) btree"
  co_heartbeats :: "(RunId, nat) btree"
  co_cancelled :: "nat list"
  co_calls :: nat

record ('s, 'e, 'j, 'f, 'k, 'p) coordinator_env =
  ce_ctl :: "('s, 'e, 'j) ChronicleControl"
  ce_sink :: "('f, 'k, 'p) ResultSink"
  ce_sha256_hex :: "string \<Rightarrow> string"
  ce_result_digest :: "'p TaskResult \<Rightarrow> string"
  ce_clock :: "nat \<Rightarrow> clock"
  ce_fate :: "nat \<Rightarrow> 'f"
  ce_disk_ok :: "nat \<Rightarrow> bool"
  ce_lease_ttl_ms :: u64
  ce_run_id_prefix :: "string option"
  ce_listing :: "'p DurableResultRecord list \<Rightarrow> 'p DurableResultRecord list"

type_synonym ('s, 'e, 'k, 'p, 'a) co = "(('s, 'k, 'p) co_state, 'e co_error, 'a) io"

definition open_with_control :: "'s \<Rightarrow> 'k \<Rightarrow> (string, 'p DurableResultRecord) btree \<Rightarrow> u64
   \<Rightarrow> 'e co_error + ('s, 'k, 'p) co_state" where
  "open_with_control control sink journal lease_ttl_ms =
    (if \<not> MIN_LEASE_TTL_MS \<le> lease_ttl_ms then Inl LeaseTtlTooShort
     else Inr \<lparr>co_control = control, co_journal = journal, co_sink = sink, co_orphaned = [],
       co_heartbeats = [], co_cancelled = [], co_calls = 0\<rparr>)"

text \<open>One call on the control implementation, with the clock it sees.\<close>

definition control_io ::
  "('s, 'e, 'j, 'f, 'k, 'p) coordinator_env \<Rightarrow> (clock \<Rightarrow> 's \<Rightarrow> ('e + 'a) \<times> 's) \<Rightarrow> ('s, 'e, 'k, 'p, 'a) co" where
  "control_io env op st =
    (let (res, s) = op (ce_clock env (co_calls st)) (co_control st)
     in (case res of Inl e \<Rightarrow> Inl (ControlError e) | Inr x \<Rightarrow> Inr x,
         st\<lparr>co_control := s, co_calls := Suc (co_calls st)\<rparr>))"

definition journal_path :: "('s, 'e, 'j, 'f, 'k, 'p) coordinator_env \<Rightarrow> string \<Rightarrow> string" where
  "journal_path env task_id = ce_sha256_hex env task_id @ ''.json''"

definition write_record ::
  "('s, 'e, 'j, 'f, 'k, 'p) coordinator_env \<Rightarrow> 'p DurableResultRecord \<Rightarrow> ('s, 'e, 'k, 'p, unit) co" where
  "write_record env entry st =
    (let st' = st\<lparr>co_calls := Suc (co_calls st)\<rparr> in
     if ce_disk_ok env (co_calls st)
     then (Inr (), st'\<lparr>co_journal := bt_insert (journal_path env (dr_task_id entry)) entry (co_journal st)\<rparr>)
     else (Inl JournalWriteFailed, st'))"

definition sink_io ::
  "('s, 'e, 'j, 'f, 'k, 'p) coordinator_env \<Rightarrow> 'p TaskResult \<Rightarrow> ('s, 'e, 'k, 'p, unit) co" where
  "sink_io env result st =
    (let (ok, k) = persist_terminal (ce_sink env) (ce_fate env (co_calls st)) result (co_sink st)
     in (if ok then Inr () else Inl SinkFailed, st\<lparr>co_sink := k, co_calls := Suc (co_calls st)\<rparr>))"

definition note_orphaned :: "RunId \<Rightarrow> ('s, 'e, 'k, 'p, unit) co" where
  "note_orphaned run_id = io_update (\<lambda>st. st\<lparr>co_orphaned := bt_insert run_id () (co_orphaned st)\<rparr>)"

definition stop_lease_heartbeat :: "RunId \<Rightarrow> ('s, 'k, 'p) co_state \<Rightarrow> ('s, 'k, 'p) co_state" where
  "stop_lease_heartbeat run_id st =
    (case bt_get (co_heartbeats st) run_id of
       None \<Rightarrow> st
     | Some stop \<Rightarrow> st\<lparr>co_heartbeats := bt_remove run_id (co_heartbeats st),
                    co_cancelled := stop # co_cancelled st\<rparr>)"

definition task_result_state :: "'p TaskResult \<Rightarrow> RunState" where
  "task_result_state result =
    (if tk_ok result \<and> \<not> tk_cancelled result then RunCompleted
     else if tk_cancelled result then RunCancelled else RunFailed)"

subsection \<open>Leasing, staging and committing\<close>

definition co_acquire_lease ::
  "('s, 'e, 'j, 'f, 'k, 'p) coordinator_env \<Rightarrow> RunId \<Rightarrow> string \<Rightarrow> string \<Rightarrow> ('s, 'e, 'k, 'p, u64) co" where
  "co_acquire_lease env run_id task_id owner st =
    (let force = bt_contains (co_orphaned st) run_id;
         st1 = st\<lparr>co_orphaned := bt_remove run_id (co_orphaned st)\<rparr>
     in io_bind (control_io env (\<lambda>clk s.
            if force then cc_takeover_lease (ce_ctl env) clk run_id (Some task_id) owner (ce_lease_ttl_ms env) s
            else cc_acquire_lease (ce_ctl env) clk run_id (Some task_id) owner (ce_lease_ttl_ms env) s))
          (\<lambda>outcome. case outcome of
             Acquired lease \<Rightarrow> io_return (l_epoch lease)
           | Held lease \<Rightarrow> io_fail (LeaseHeld lease)
           | LeaseAlreadyCommitted _ \<Rightarrow> io_fail (RunAlreadyCommitted run_id)) st1)"

definition staged_record ::
  "('s, 'e, 'j, 'f, 'k, 'p) coordinator_env \<Rightarrow> 'p TaskResult \<Rightarrow> RunId \<Rightarrow> AttemptId \<Rightarrow> 'p DurableResultRecord" where
  "staged_record env result run_id attempt_id =
    \<lparr>dr_schema_version = RESULT_JOURNAL_SCHEMA_VERSION, dr_task_id = tk_task_id result,
     dr_run_id = run_id, dr_attempt_id = attempt_id, dr_lease_epoch = tk_lease_epoch result,
     dr_result_digest = ce_result_digest env result, dr_result = result, dr_status = Staged,
     dr_sink_persisted = False\<rparr>"

definition stage_result ::
  "('s, 'e, 'j, 'f, 'k, 'p) coordinator_env \<Rightarrow> 'p TaskResult \<Rightarrow> ('s, 'e, 'k, 'p, 'p DurableResultRecord) co" where
  "stage_result env result =
    (case tk_run_id result of None \<Rightarrow> io_fail ResultHasNoRunId
     | Some run_id \<Rightarrow>
      (case tk_attempt_id result of None \<Rightarrow> io_fail ResultHasNoAttemptId
       | Some attempt_id \<Rightarrow>
          if tk_lease_epoch result = 0 then io_fail ResultHasNoLeaseEpoch
          else let entry = staged_record env result run_id attempt_id
               in io_bind (write_record env entry) (\<lambda>_. io_return entry)))"

definition commit_request_of :: "'p DurableResultRecord \<Rightarrow> RunCommitRequest" where
  "commit_request_of entry =
    \<lparr>rq_run_id = dr_run_id entry, rq_task_id = Some (dr_task_id entry), rq_attempt_id = dr_attempt_id entry,
     rq_lease_epoch = dr_lease_epoch entry, rq_state = task_result_state (dr_result entry),
     rq_event_high_watermark = None, rq_result_digest = dr_result_digest entry\<rparr>"

definition fence_record ::
  "('s, 'e, 'j, 'f, 'k, 'p) coordinator_env \<Rightarrow> 'p DurableResultRecord \<Rightarrow> 'e co_error
   \<Rightarrow> ('s, 'e, 'k, 'p, 'p DurableResultRecord) co" where
  "fence_record env entry e = io_bind (write_record env (entry\<lparr>dr_status := Fenced\<rparr>)) (\<lambda>_. io_fail e)"

definition commit_record ::
  "('s, 'e, 'j, 'f, 'k, 'p) coordinator_env \<Rightarrow> 'p DurableResultRecord
   \<Rightarrow> ('s, 'e, 'k, 'p, 'p DurableResultRecord) co" where
  "commit_record env entry =
    io_bind (control_io env (\<lambda>clk. cc_bind_attempt (ce_ctl env) clk (dr_run_id entry) (dr_lease_epoch entry)
        (dr_attempt_id entry)))
     (\<lambda>bound.
       if \<not> bound then fence_record env entry AttemptLostLease
       else io_bind (control_io env (\<lambda>clk. cc_commit_run (ce_ctl env) clk (commit_request_of entry)))
        (\<lambda>outcome. case outcome of
           Committed _ \<Rightarrow> (let done = entry\<lparr>dr_status := JournalCommitted\<rparr>
             in io_bind (write_record env done) (\<lambda>_. io_return done))
         | AlreadyCommitted _ \<Rightarrow> (let done = entry\<lparr>dr_status := JournalCommitted\<rparr>
             in io_bind (write_record env done) (\<lambda>_. io_return done))
         | StaleLease supplied_epoch current_epoch \<Rightarrow>
             fence_record env entry (StaleResultFenced supplied_epoch current_epoch)
         | Conflict existing \<Rightarrow> fence_record env entry (CommitConflict existing)))"

definition finalize_result ::
  "('s, 'e, 'j, 'f, 'k, 'p) coordinator_env \<Rightarrow> 'p TaskResult \<Rightarrow> ('s, 'e, 'k, 'p, unit) co" where
  "finalize_result env result st =
    (let (outcome, st') =
       io_bind (stage_result env result) (\<lambda>entry.
         io_bind (commit_record env entry) (\<lambda>done.
           io_bind (sink_io env (dr_result done)) (\<lambda>_.
             write_record env (done\<lparr>dr_sink_persisted := True\<rparr>)))) st
     in (outcome, case tk_run_id result of None \<Rightarrow> st' | Some run_id \<Rightarrow> stop_lease_heartbeat run_id st'))"


subsection \<open>Observing attempts\<close>

definition process_local_observe :: "RunLeaseRecord \<Rightarrow> ('s, 'e, 'k, 'p, 'p AttemptObservation) co" where
  "process_local_observe lease = io_return ObservedAbsent"

text \<open>
  \<open>DurableAttemptObserver\<close>; decoding the stored value and turning it into a task result
  (\<open>serde_json\<close> and \<open>run_result_to_task_result\<close>) is the argument \<open>to_task_result\<close>.
\<close>

definition durable_observe ::
  "('s, 'e, 'j, 'f, 'k, 'p) coordinator_env \<Rightarrow> ('j \<Rightarrow> string \<Rightarrow> 'p TaskResult option) \<Rightarrow> RunLeaseRecord
   \<Rightarrow> ('s, 'e, 'k, 'p, 'p AttemptObservation) co" where
  "durable_observe env to_task_result lease st =
    (let now = ce_clock env (co_calls st) 0; st' = st\<lparr>co_calls := Suc (co_calls st)\<rparr> in
     case cc_get_attempt (ce_ctl env) (l_run_id lease) (co_control st) of
       None \<Rightarrow> (Inr (if now < l_expires_at_unix_ms lease then ObservedPending else ObservedAbsent), st')
     | Some r \<Rightarrow>
        if ar_lease_epoch r \<noteq> l_epoch lease then (Inr ObservedAbsent, st')
        else (case ar_state r of
            AttemptActive \<Rightarrow>
              (Inr (if is_live_at r now then ObservedActive (ar_attempt_id r) (ar_lease_epoch r)
                    else ObservedAbsent), st')
          | AttemptTerminal \<Rightarrow>
              (case ar_terminal_result r of None \<Rightarrow> (Inl ObserverFailed, st')
               | Some v \<Rightarrow>
                 (case l_task_id lease of None \<Rightarrow> (Inl ObserverFailed, st')
                  | Some task_id \<Rightarrow>
                    (case to_task_result v task_id of None \<Rightarrow> (Inl ObserverFailed, st')
                     | Some result \<Rightarrow> (Inr (ObservedTerminal result), st'))))))"

subsection \<open>Reconciliation\<close>

definition foreign_run :: "('s, 'e, 'j, 'f, 'k, 'p) coordinator_env \<Rightarrow> RunId \<Rightarrow> bool" where
  "foreign_run env run_id =
    (case ce_run_id_prefix env of None \<Rightarrow> False | Some prefix \<Rightarrow> \<not> starts_with run_id prefix)"

definition read_records ::
  "('s, 'e, 'j, 'f, 'k, 'p) coordinator_env \<Rightarrow> ('s, 'e, 'k, 'p, 'p DurableResultRecord list) co" where
  "read_records env st =
    (Inr (ce_listing env (map snd (filter (\<lambda>(name, _). has_json_extension name) (co_journal st)))), st)"

text \<open>The end of the journal loop: count the task as committed, and make up for a missing append.\<close>

definition journal_committed ::
  "('s, 'e, 'j, 'f, 'k, 'p) coordinator_env \<Rightarrow> 'p DurableResultRecord \<Rightarrow> ReconcileReport
   \<Rightarrow> ('s, 'e, 'k, 'p, ReconcileReport) co" where
  "journal_committed env entry report =
    (let report1 = report\<lparr>rp_committed := bt_insert (dr_task_id entry) () (rp_committed report)\<rparr> in
     if dr_sink_persisted entry then io_return report1
     else io_bind (sink_io env (dr_result entry)) (\<lambda>_.
       io_bind (write_record env (entry\<lparr>dr_sink_persisted := True\<rparr>)) (\<lambda>_.
         io_return (report1\<lparr>rp_recovered_sink_appends := Suc (rp_recovered_sink_appends report1)\<rparr>))))"

definition journal_fenced ::
  "'p DurableResultRecord \<Rightarrow> ReconcileReport \<Rightarrow> ('s, 'e, 'k, 'p, ReconcileReport) co" where
  "journal_fenced entry report =
    io_bind (note_orphaned (dr_run_id entry)) (\<lambda>_.
      io_return (report\<lparr>rp_fenced_results := Suc (rp_fenced_results report),
        rp_retry := bt_insert (dr_task_id entry) () (rp_retry report)\<rparr>))"

definition reconcile_entry ::
  "('s, 'e, 'j, 'f, 'k, 'p) coordinator_env \<Rightarrow> 'p DurableResultRecord \<Rightarrow> ReconcileReport
   \<Rightarrow> ('s, 'e, 'k, 'p, ReconcileReport) co" where
  "reconcile_entry env entry report =
    (if foreign_run env (dr_run_id entry) then io_return report
     else if dr_schema_version entry \<noteq> RESULT_JOURNAL_SCHEMA_VERSION
     then io_fail (UnsupportedJournalSchema (dr_schema_version entry))
     else case dr_status entry of
       Staged \<Rightarrow> io_try (commit_record env entry) (\<lambda>outcome. case outcome of
           Inr done \<Rightarrow> journal_committed env done
             (report\<lparr>rp_recovered_commits := Suc (rp_recovered_commits report)\<rparr>)
         | Inl _ \<Rightarrow> io_bind (write_record env (entry\<lparr>dr_status := Fenced\<rparr>)) (\<lambda>_. journal_fenced entry report))
     | Fenced \<Rightarrow> journal_fenced entry report
     | JournalCommitted \<Rightarrow> journal_committed env entry report)"

definition reconcile_run ::
  "('s, 'e, 'j, 'f, 'k, 'p) coordinator_env \<Rightarrow> (RunLeaseRecord \<Rightarrow> ('s, 'e, 'k, 'p, 'p AttemptObservation) co)
   \<Rightarrow> (RunId \<Rightarrow> AttemptId \<Rightarrow> ('s, 'e, 'k, 'p, unit) co) \<Rightarrow> RunControlRecord \<Rightarrow> ReconcileReport
   \<Rightarrow> ('s, 'e, 'k, 'p, ReconcileReport) co" where
  "reconcile_run env observe cancel_stale control report =
    (if foreign_run env (rc_run_id control) then io_return report
     else case rc_commit control of
       Some commit \<Rightarrow> io_return (case rq_task_id (c_request commit) of None \<Rightarrow> report
         | Some task_id \<Rightarrow> report\<lparr>rp_committed := bt_insert task_id () (rp_committed report)\<rparr>)
     | None \<Rightarrow>
       (case rc_lease control of None \<Rightarrow> io_return report
        | Some lease \<Rightarrow>
         (case l_task_id lease of None \<Rightarrow> io_return report
          | Some task_id \<Rightarrow>
             if bt_contains (rp_committed report) task_id then io_return report
             else io_bind (observe lease) (\<lambda>observation.
               let retried = report\<lparr>rp_retry := bt_insert task_id () (rp_retry report)\<rparr>;
                   deferred = report\<lparr>rp_active_attempts := Suc (rp_active_attempts report),
                     rp_deferred := bt_insert task_id () (rp_deferred report)\<rparr>
               in case observation of
                 ObservedAbsent \<Rightarrow> io_bind (note_orphaned (l_run_id lease)) (\<lambda>_. io_return retried)
               | ObservedPending \<Rightarrow> io_return deferred
               | ObservedActive attempt_id lease_epoch \<Rightarrow>
                   if lease_epoch = l_epoch lease
                   then io_bind (control_io env (\<lambda>clk. cc_bind_attempt (ce_ctl env) clk (l_run_id lease)
                       (l_epoch lease) attempt_id)) (\<lambda>_. io_return deferred)
                   else io_bind (cancel_stale (l_run_id lease) attempt_id) (\<lambda>_.
                     io_bind (note_orphaned (l_run_id lease)) (\<lambda>_.
                       io_return (retried\<lparr>rp_stale_attempts_cancelled := Suc (rp_stale_attempts_cancelled report)\<rparr>)))
               | ObservedTerminal result \<Rightarrow>
                   io_bind (finalize_result env result) (\<lambda>_. io_return
                     (report\<lparr>rp_recovered_commits := Suc (rp_recovered_commits report),
                       rp_recovered_sink_appends := Suc (rp_recovered_sink_appends report),
                       rp_committed := bt_insert task_id () (rp_committed report)\<rparr>))))))"

definition drop_committed :: "ReconcileReport \<Rightarrow> ReconcileReport" where
  "drop_committed report =
     report\<lparr>rp_retry := fold bt_remove (bt_keys (rp_committed report)) (rp_retry report)\<rparr>"

definition reconcile ::
  "('s, 'e, 'j, 'f, 'k, 'p) coordinator_env \<Rightarrow> (RunLeaseRecord \<Rightarrow> ('s, 'e, 'k, 'p, 'p AttemptObservation) co)
   \<Rightarrow> (RunId \<Rightarrow> AttemptId \<Rightarrow> ('s, 'e, 'k, 'p, unit) co) \<Rightarrow> ('s, 'e, 'k, 'p, ReconcileReport) co" where
  "reconcile env observe cancel_stale =
    io_bind (read_records env) (\<lambda>entries.
      io_bind (io_fold (reconcile_entry env) entries empty_report) (\<lambda>report.
        io_bind (\<lambda>st. (Inr (cc_list_runs (ce_ctl env) (co_control st)), st)) (\<lambda>runs.
          io_bind (io_fold (reconcile_run env observe cancel_stale) runs report) (\<lambda>report'.
            io_return (drop_committed report')))))"


subsection \<open>Finalising a result\<close>

lemma write_record_cases:
  assumes "write_record env entry st = (res, st')"
  shows "st' = st\<lparr>co_calls := Suc (co_calls st)\<rparr> \<and> res = Inl JournalWriteFailed \<or>
    st' = st\<lparr>co_calls := Suc (co_calls st),
      co_journal := bt_insert (journal_path env (dr_task_id entry)) entry (co_journal st)\<rparr> \<and> res = Inr ()"
  using assms by (auto simp: write_record_def Let_def split: if_splits)

lemma write_record_frame:
  assumes "write_record env entry st = (res, st')"
  shows "co_control st' = co_control st \<and> co_sink st' = co_sink st \<and>
    (res = Inr () \<longrightarrow> bt_get (co_journal st') (journal_path env (dr_task_id entry)) = Some entry)"
  using write_record_cases [OF assms] by auto

lemma fence_record_frame:
  assumes "fence_record env entry e st = (res, st')"
  shows "co_control st' = co_control st \<and> co_sink st' = co_sink st \<and> (\<exists>e'. res = Inl e')"
  using assms write_record_frame [of env "entry\<lparr>dr_status := Fenced\<rparr>" st]
  by (auto simp: fence_record_def io_bind_def io_fail_def split: prod.splits sum.splits)

lemma stage_result_frame:
  assumes "stage_result env result st = (res, st')"
  shows "co_control st' = co_control st \<and> co_sink st' = co_sink st \<and>
    (\<forall>entry. res = Inr entry \<longrightarrow> (\<exists>run_id attempt_id. tk_run_id result = Some run_id \<and>
       tk_attempt_id result = Some attempt_id \<and> entry = staged_record env result run_id attempt_id \<and>
       tk_lease_epoch result \<noteq> 0))"
  using assms write_record_frame
  by (fastforce simp: stage_result_def io_bind_def io_fail_def io_return_def Let_def
      split: option.splits if_splits prod.splits sum.splits)

lemma sink_io_frame:
  assumes "sink_io env result st = (res, st')"
  shows "co_control st' = co_control st \<and> co_journal st' = co_journal st \<and>
    (\<exists>ok. persist_terminal (ce_sink env) (ce_fate env (co_calls st)) result (co_sink st) = (ok, co_sink st') \<and>
       (res = Inr () \<longleftrightarrow> ok))"
  using assms by (auto simp: sink_io_def Let_def split: prod.splits if_splits)

lemma stop_frame [simp]:
  "co_control (stop_lease_heartbeat r st) = co_control st" "co_sink (stop_lease_heartbeat r st) = co_sink st"
  "co_journal (stop_lease_heartbeat r st) = co_journal st"
  by (simp_all add: stop_lease_heartbeat_def split: option.splits)

text \<open>How far finalising got.\<close>

lemma finalize_cases [consumes 1, case_names not_staged not_committed committed]:
  assumes "finalize_result env result st = (res, st')"
  obtains e where "res = Inl e" "co_control st' = co_control st" "co_sink st' = co_sink st"
  | run_id attempt_id e st1 st2 where "tk_run_id result = Some run_id" "tk_attempt_id result = Some attempt_id"
      "co_control st1 = co_control st" "co_sink st1 = co_sink st"
      "commit_record env (staged_record env result run_id attempt_id) st1 = (Inl e, st2)"
      "res = Inl e" "co_control st' = co_control st2" "co_sink st' = co_sink st2"
  | run_id attempt_id st1 r st2 where "tk_run_id result = Some run_id" "tk_attempt_id result = Some attempt_id"
      "co_control st1 = co_control st" "co_sink st1 = co_sink st"
      "commit_record env (staged_record env result run_id attempt_id) st1 = (Inr r, st2)"
      "co_control st' = co_control st2"
proof -
  obtain s1 st1 where stg: "stage_result env result st = (s1, st1)" by fastforce
  note stg_frame = stage_result_frame [OF stg]
  show thesis
  proof (cases s1)
    case (Inl e)
    with assms stg stg_frame show thesis
      by (intro that(1) [of e]) (auto simp: finalize_result_def io_bind_def split: option.splits)
  next
    case (Inr entry)
    then obtain run_id attempt_id where entry: "tk_run_id result = Some run_id"
      "tk_attempt_id result = Some attempt_id" "entry = staged_record env result run_id attempt_id"
      using stg_frame by blast
    obtain s2 st2 where com: "commit_record env entry st1 = (s2, st2)" by fastforce
    show thesis
    proof (cases s2)
      case (Inl e)
      with assms stg Inr com entry stg_frame show thesis
        by (intro that(2) [of run_id attempt_id st1 e st2]) (auto simp: finalize_result_def io_bind_def)
    next
      case ok: (Inr r)
      obtain s3 st3 where snk: "sink_io env (dr_result r) st2 = (s3, st3)" by fastforce
      obtain s4 st4 where wr: "write_record env (r\<lparr>dr_sink_persisted := True\<rparr>) st3 = (s4, st4)" by fastforce
      from assms stg Inr com ok snk wr entry have "co_control st' = co_control st3 \<or> co_control st' = co_control st4"
        by (auto simp: finalize_result_def io_bind_def split: sum.splits)
      with sink_io_frame [OF snk] write_record_frame [OF wr] com ok entry stg_frame show thesis
        by (intro that(3) [of run_id attempt_id st1 r st2]) auto
    qed
  qed
qed

context chronicle_control
begin

lemma control_bind_frame:
  assumes "ce_ctl env = ctl" and "inv (co_control st)"
    and "control_io env (\<lambda>clk. cc_bind_attempt (ce_ctl env) clk r ep att) st = (res, st')"
  shows "inv (co_control st') \<and> co_sink st' = co_sink st \<and> co_journal st' = co_journal st \<and>
    (\<forall>q. run_commit_of ctl (co_control st') q = run_commit_of ctl (co_control st) q) \<and>
    (res = Inr True \<longrightarrow> run_commit_of ctl (co_control st) r = None)"
proof -
  obtain res' s where call: "cc_bind_attempt ctl (ce_clock env (co_calls st)) r ep att (co_control st) = (res', s)"
    by fastforce
  with assms(1,3) have st': "st' = st\<lparr>co_control := s, co_calls := Suc (co_calls st)\<rparr>"
    and res: "res = (case res' of Inl e \<Rightarrow> Inl (ControlError e) | Inr x \<Rightarrow> Inr x)"
    by (auto simp: control_io_def)
  have "res = Inr True \<longrightarrow> run_commit_of ctl (co_control st) r = None"
  proof (rule impI, rule ccontr)
    assume "res = Inr True" "run_commit_of ctl (co_control st) r \<noteq> None"
    then obtain c where "run_commit_of ctl (co_control st) r = Some c" by blast
    from bind_committed [OF assms(2) this] call have "res' = Inr False" by (metis prod.inject)
    with \<open>res = Inr True\<close> res show False by simp
  qed
  with st' inv_bind [OF assms(2) call] bind_keeps_commits [OF assms(2) call] show ?thesis by simp
qed

lemma control_commit_frame:
  assumes "ce_ctl env = ctl" and "inv (co_control st)"
    and "control_io env (\<lambda>clk. cc_commit_run (ce_ctl env) clk req) st = (res, st')"
  shows "inv (co_control st') \<and> co_sink st' = co_sink st \<and> co_journal st' = co_journal st \<and>
    (\<forall>q d. run_commit_of ctl (co_control st) q = Some d \<longrightarrow> run_commit_of ctl (co_control st') q = Some d) \<and>
    (\<forall>c. res = Inr (Committed c) \<or> res = Inr (AlreadyCommitted c) \<longrightarrow> c_request c = req \<and>
       run_commit_of ctl (co_control st') (rq_run_id req) = Some c)"
proof -
  obtain res' s where call: "cc_commit_run ctl (ce_clock env (co_calls st)) req (co_control st) = (res', s)"
    by fastforce
  with assms(1,3) have st': "st' = st\<lparr>co_control := s, co_calls := Suc (co_calls st)\<rparr>"
    and res: "res = (case res' of Inl e \<Rightarrow> Inl (ControlError e) | Inr x \<Rightarrow> Inr x)"
    by (auto simp: control_io_def)
  have "c_request c = req \<and> run_commit_of ctl s (rq_run_id req) = Some c"
    if "res = Inr (Committed c) \<or> res = Inr (AlreadyCommitted c)" for c
  proof -
    from that res call have "cc_commit_run ctl (ce_clock env (co_calls st)) req (co_control st) = (Inr (Committed c), s) \<or>
        cc_commit_run ctl (ce_clock env (co_calls st)) req (co_control st) = (Inr (AlreadyCommitted c), s)"
      by (auto split: sum.splits)
    with commit_done [OF assms(2)] commit_again [OF assms(2)] show ?thesis by metis
  qed
  with st' inv_commit [OF assms(2) call] commit_keeps [OF assms(2) call] show ?thesis by auto
qed

lemma commit_record_frame:
  assumes "ce_ctl env = ctl" and "inv (co_control st)" and "commit_record env entry st = (res, st')"
  shows "inv (co_control st') \<and> co_sink st' = co_sink st \<and>
    (\<forall>q d. run_commit_of ctl (co_control st) q = Some d \<longrightarrow> run_commit_of ctl (co_control st') q = Some d) \<and>
    (\<forall>r. res = Inr r \<longrightarrow> r = entry\<lparr>dr_status := JournalCommitted\<rparr> \<and>
       run_commit_of ctl (co_control st) (dr_run_id entry) = None \<and>
       (\<exists>c. run_commit_of ctl (co_control st') (dr_run_id entry) = Some c \<and> c_request c = commit_request_of entry))"
proof -
  obtain b st1 where bnd: "control_io env (\<lambda>clk. cc_bind_attempt (ce_ctl env) clk (dr_run_id entry)
      (dr_lease_epoch entry) (dr_attempt_id entry)) st = (b, st1)" by fastforce
  note bnd_frame = control_bind_frame [OF assms(1,2) bnd]
  show ?thesis
  proof (cases "b = Inr True")
    case False
    with assms(3) bnd have "(\<exists>e. res = Inl e) \<and> (st' = st1 \<or> fence_record env entry AttemptLostLease st1 = (res, st'))"
      by (cases b) (auto simp: commit_record_def io_bind_def dest: fence_record_frame)
    with bnd_frame show ?thesis by (auto dest: fence_record_frame)
  next
    case True
    obtain o' st2 where com: "control_io env (\<lambda>clk. cc_commit_run (ce_ctl env) clk (commit_request_of entry)) st1
        = (o', st2)" by fastforce
    note com_frame = control_commit_frame [OF assms(1) _ com]
    show ?thesis
    proof (cases "\<exists>c. o' = Inr (Committed c) \<or> o' = Inr (AlreadyCommitted c)")
      case True
      then obtain c where c: "o' = Inr (Committed c) \<or> o' = Inr (AlreadyCommitted c)" by blast
      obtain w st3 where wr: "write_record env (entry\<lparr>dr_status := JournalCommitted\<rparr>) st2 = (w, st3)" by fastforce
      from assms(3) bnd com c wr \<open>b = Inr True\<close> have "st' = st3"
        "res = (case w of Inl e \<Rightarrow> Inl e | Inr _ \<Rightarrow> Inr (entry\<lparr>dr_status := JournalCommitted\<rparr>))"
        by (auto simp: commit_record_def io_bind_def io_return_def Let_def split: sum.splits)
      with write_record_frame [OF wr] com_frame bnd_frame c \<open>b = Inr True\<close> show ?thesis
        by (auto simp: commit_request_of_def split: sum.splits)
    next
      case no: False
      with assms(3) bnd com \<open>b = Inr True\<close> have "(\<exists>e. res = Inl e) \<and>
          (st' = st2 \<or> (\<exists>e. fence_record env entry e st2 = (res, st')))"
        by (auto simp: commit_record_def io_bind_def dest: fence_record_frame
            split: sum.splits CommitRunOutcome.splits)
      with com_frame bnd_frame show ?thesis by (auto dest: fence_record_frame)
    qed
  qed
qed

lemma finalize_frame:
  assumes "ce_ctl env = ctl" and "inv (co_control st)" and "finalize_result env result st = (res, st')"
  shows "inv (co_control st') \<and>
    (\<forall>q d. run_commit_of ctl (co_control st) q = Some d \<longrightarrow> run_commit_of ctl (co_control st') q = Some d) \<and>
    (res = Inr () \<or> co_sink st' \<noteq> co_sink st \<longrightarrow>
      (\<exists>run_id attempt_id c. tk_run_id result = Some run_id \<and> tk_attempt_id result = Some attempt_id \<and>
        run_commit_of ctl (co_control st) run_id = None \<and> run_commit_of ctl (co_control st') run_id = Some c \<and>
        c_request c = commit_request_of (staged_record env result run_id attempt_id)))"
  using assms(3)
proof (cases rule: finalize_cases)
  case (not_staged e)
  with assms(2) show ?thesis by simp
next
  case (not_committed run_id attempt_id e st1 st2)
  with commit_record_frame [OF assms(1) _ not_committed(5)] assms(2) show ?thesis by simp
next
  case (committed run_id attempt_id st1 r st2)
  with commit_record_frame [OF assms(1) _ committed(5)] assms(2) show ?thesis
    by (auto simp: staged_record_def)
qed

end


subsection \<open>Properties of the coordinator\<close>

text \<open>A coordinator on the durable store with a JSON lines sink, for the instances below.\<close>

type_synonym demo_control = "(nat, unit) chronicle_state"

definition demo_co_env ::
  "(nat \<Rightarrow> bool) \<Rightarrow> (demo_control, control_error, nat, write_fate, jsonl_sink, nat) coordinator_env" where
  "demo_co_env disk_ok = \<lparr>ce_ctl = store_control (\<lambda>_. [record_path ''run-1'']),
     ce_sink = jsonl_sink_ops demo_ndjson, ce_sha256_hex = id, ce_result_digest = (\<lambda>_. ''d1''),
     ce_clock = (\<lambda>_ _. 200), ce_fate = (\<lambda>_. WriteOk), ce_disk_ok = disk_ok, ce_lease_ttl_ms = 1000,
     ce_run_id_prefix = None, ce_listing = id\<rparr>"

definition demo_leased :: demo_control where
  "demo_leased = \<lparr>cs_control = demo_dir demo_open, cs_attempts = Map.empty, cs_events = ()\<rparr>"

definition demo_co_state :: "demo_control \<Rightarrow> (demo_control, jsonl_sink, nat) co_state" where
  "demo_co_state control = \<lparr>co_control = control, co_journal = [], co_sink = demo_sink, co_orphaned = [],
     co_heartbeats = [], co_cancelled = [], co_calls = 0\<rparr>"

lemma demo_env_ctl: "ce_ctl (demo_co_env disk_ok) = store_control (\<lambda>_. [record_path ''run-1''])"
  by (simp add: demo_co_env_def)

lemma demo_leased_wf: "dir_wf (cs_control (co_control (demo_co_state demo_leased)))"
  by (simp add: demo_co_state_def demo_leased_def demo_dir_wf)

text \<open>
  C16: No result reaches the sink uncommitted. When finalising a result succeeds, or when it changes
  the sink at all, the run was not committed before and is committed now, by exactly this result:
  its attempt, its lease epoch, its digest and its final state.
\<close>

theorem sink_only_after_commit:
  assumes "ce_ctl env = store_control read_dir" and "dir_wf (cs_control (co_control st))"
    and "finalize_result env result st = (res, st')" and "res = Inr () \<or> co_sink st' \<noteq> co_sink st"
  shows "\<exists>run_id attempt_id r c. tk_run_id result = Some run_id \<and> tk_attempt_id result = Some attempt_id \<and>
    \<not> run_committed (cs_control (co_control st)) run_id \<and>
    get_run (cs_control (co_control st')) run_id = Some r \<and> rc_commit r = Some c \<and>
    rq_attempt_id (c_request c) = attempt_id \<and> rq_lease_epoch (c_request c) = tk_lease_epoch result \<and>
    rq_result_digest (c_request c) = ce_result_digest env result \<and>
    rq_state (c_request c) = task_result_state result"
proof -
  from durable.finalize_frame [OF assms(1-3)] assms(4) obtain run_id attempt_id c where
    "tk_run_id result = Some run_id" "tk_attempt_id result = Some attempt_id"
    "run_commit_of (store_control read_dir) (co_control st) run_id = None"
    "run_commit_of (store_control read_dir) (co_control st') run_id = Some c"
    "c_request c = commit_request_of (staged_record env result run_id attempt_id)" by blast
  then show ?thesis
    by (auto simp: get_run_commit run_committed_def bind_eq_Some_conv commit_request_of_def
        staged_record_def split: option.splits)
qed

theorem sink_only_after_commit_witness:
  "\<exists>r c. get_run (cs_control (co_control (snd (finalize_result (demo_co_env (\<lambda>_. True)) (demo_result ''t'')
      (demo_co_state demo_leased))))) ''run-1'' = Some r \<and> rc_commit r = Some c \<and>
    rq_result_digest (c_request c) = ''d1''"
proof -
  let ?env = "demo_co_env (\<lambda>_. True)"
  let ?run = "finalize_result ?env (demo_result ''t'') (demo_co_state demo_leased)"
  have "fst ?run = Inr ()" by code_simp
  then show ?thesis
    using sink_only_after_commit [OF demo_env_ctl demo_leased_wf surjective_pairing, of "\<lambda>_. True" "demo_result ''t''"]
    by (auto simp: demo_result_def demo_co_env_def)
qed

text \<open>
  One result per run, whoever finalises. After one coordinator has finalised a result for a
  run, any coordinator that shares the control store and tries to finalise another result for
  the same run gets an error and does not touch its sink.
\<close>

theorem second_finalize_refused:
  assumes "ce_ctl env = store_control read_dir" and "ce_ctl env' = store_control read_dir'"
    and "dir_wf (cs_control (co_control st))"
    and "finalize_result env result st = (Inr (), st1)"
    and "co_control st2 = co_control st1" and "tk_run_id result' = tk_run_id result"
    and "finalize_result env' result' st2 = (res', st3)"
  shows "(\<exists>e. res' = Inl e) \<and> co_sink st3 = co_sink st2"
proof -
  from durable.finalize_frame [OF assms(1,3,4)] obtain run_id c where
    first: "tk_run_id result = Some run_id" "run_commit_of (store_control read_dir) (co_control st1) run_id = Some c"
    "dir_wf (cs_control (co_control st1))" by blast
  have "\<not> (res' = Inr () \<or> co_sink st3 \<noteq> co_sink st2)"
    using durable.finalize_frame [OF assms(2) _ assms(7)] first assms(5,6)
    by (auto simp: get_run_commit)
  then show ?thesis by (cases res') auto
qed

theorem second_finalize_refused_witness:
  "\<exists>e. fst (finalize_result (demo_co_env (\<lambda>_. True)) (demo_result ''t'')
     (demo_co_state (co_control (snd (finalize_result (demo_co_env (\<lambda>_. True)) (demo_result ''t'')
       (demo_co_state demo_leased)))))) = Inl e"
proof -
  let ?env = "demo_co_env (\<lambda>_. True)"
  let ?run = "finalize_result ?env (demo_result ''t'') (demo_co_state demo_leased)"
  have "fst ?run = Inr ()" by code_simp
  then have run: "?run = (Inr (), snd ?run)" by (metis prod.collapse)
  have shared: "co_control (demo_co_state (co_control (snd ?run))) = co_control (snd ?run)"
    by (simp add: demo_co_state_def)
  show ?thesis
    using second_finalize_refused [OF demo_env_ctl demo_env_ctl demo_leased_wf run shared refl surjective_pairing]
    by blast
qed


lemma reconcile_staged_committed:
  assumes "ce_ctl env = store_control read_dir" and "ce_disk_ok env = (\<lambda>_. True)"
    and "ce_run_id_prefix env = None" and "dr_schema_version entry = RESULT_JOURNAL_SCHEMA_VERSION"
    and "dr_status entry = Staged"
    and "Option.bind (get_run (cs_control (co_control st)) (dr_run_id entry)) rc_commit = Some c"
  shows "reconcile_entry env entry report st =
    (Inr (report\<lparr>rp_fenced_results := Suc (rp_fenced_results report),
        rp_retry := bt_insert (dr_task_id entry) () (rp_retry report)\<rparr>),
     st\<lparr>co_calls := co_calls st + 3,
        co_journal := bt_insert (journal_path env (dr_task_id entry)) (entry\<lparr>dr_status := Fenced\<rparr>)
          (bt_insert (journal_path env (dr_task_id entry)) (entry\<lparr>dr_status := Fenced\<rparr>) (co_journal st)),
        co_orphaned := bt_insert (dr_run_id entry) () (co_orphaned st)\<rparr>)"
proof -
  have bnd: "control_io env (\<lambda>clk. cc_bind_attempt (ce_ctl env) clk (dr_run_id entry) (dr_lease_epoch entry)
      (dr_attempt_id entry)) st = (Inr False, st\<lparr>co_calls := Suc (co_calls st)\<rparr>)"
    using assms(1,6) by (simp add: control_io_def store_control_def bind_attempt_committed)
  show ?thesis
    using assms bnd
    by (simp add: reconcile_entry_def foreign_run_def commit_record_def io_try_def io_bind_def fence_record_def
        write_record_def io_fail_def journal_fenced_def note_orphaned_def io_update_def io_return_def Let_def)
qed

text \<open>
  C17: A result can be lost between commit and journal. Take the state after a crash (or a failed
  journal write) between the commit in the control store and the journal entry that says so: the
  run is committed by exactly the staged entry. Reconciling then fences the entry and does not
  append the result to the sink; yet it reports the task as committed and not to be retried.
\<close>

theorem committed_result_lost_on_reconcile:
  assumes "ce_ctl env = store_control read_dir" and "ce_disk_ok env = (\<lambda>_. True)"
    and "ce_run_id_prefix env = None" and "ce_listing env [entry] = [entry]"
    and "co_journal st = [(journal_path env (dr_task_id entry), entry)]"
    and "ce_sha256_hex env (dr_task_id entry) \<noteq> []"
    and "dr_schema_version entry = RESULT_JOURNAL_SCHEMA_VERSION" and "dr_status entry = Staged"
    and "cs_control (co_control st) = [record_path (dr_run_id entry) \<mapsto> r]"
    and "read_dir (cs_control (co_control st)) = [record_path (dr_run_id entry)]"
    and "dr_run_id entry \<noteq> []" and "rc_commit r = Some c" and "c_request c = commit_request_of entry"
  shows "\<exists>report st'. reconcile env observe cancel_stale st = (Inr report, st') \<and> co_sink st' = co_sink st \<and>
    bt_get (co_journal st') (journal_path env (dr_task_id entry)) = Some (entry\<lparr>dr_status := Fenced\<rparr>) \<and>
    bt_contains (rp_committed report) (dr_task_id entry) \<and> \<not> bt_contains (rp_retry report) (dr_task_id entry)"
proof -
  have json: "has_json_extension (journal_path env (dr_task_id entry))"
    using assms(6) by (simp add: has_json_extension_def journal_path_def)
  have committed: "Option.bind (get_run (cs_control (co_control st)) (dr_run_id entry)) rc_commit = Some c"
    using assms(9,12) by (simp add: get_run_def)
  have listed: "cc_list_runs (ce_ctl env) (co_control st) = [r]"
    using assms(1,9-11) by (simp add: store_control_def list_runs_def map_filter_simps has_json_extension_path)
  show ?thesis
    using assms(3-5) json listed assms(12,13)
      reconcile_staged_committed [OF assms(1-3,7,8) committed, of empty_report]
    by (auto simp: reconcile_def read_records_def io_bind_def io_return_def empty_report_def reconcile_run_def
        foreign_run_def commit_request_of_def drop_committed_def bt_keys_def bt_contains_def)
qed


text \<open>The crash window in the sample: the fourth external call, the journal write, fails.\<close>

definition demo_crashed :: "(demo_control, jsonl_sink, nat) co_state" where
  "demo_crashed = snd (finalize_result (demo_co_env (\<lambda>n. n \<noteq> 3)) (demo_result ''t'') (demo_co_state demo_leased))"

theorem committed_result_lost_on_reconcile_witness:
  "map_option dr_status (bt_get (co_journal demo_crashed) ''t.json'') = Some Staged \<and>
   run_committed (cs_control (co_control demo_crashed)) ''run-1'' \<and>
   (\<exists>report st'. reconcile (demo_co_env (\<lambda>_. True)) process_local_observe (\<lambda>_ _. io_return ())
      (demo_crashed\<lparr>co_control := (co_control demo_crashed)\<lparr>cs_control :=
        [record_path ''run-1'' \<mapsto> the (get_run (cs_control (co_control demo_crashed)) ''run-1'')]\<rparr>\<rparr>) = (Inr report, st') \<and>
    js_ready (co_sink st') = [] \<and> bt_contains (rp_committed report) ''t'' \<and> \<not> bt_contains (rp_retry report) ''t'')"
proof -
  let ?env = "demo_co_env (\<lambda>_. True)"
  let ?entry = "staged_record ?env (demo_result ''t'') ''run-1'' ''att-1''"
  let ?r = "the (get_run (cs_control (co_control demo_crashed)) ''run-1'')"
  let ?st = "demo_crashed\<lparr>co_control := (co_control demo_crashed)\<lparr>cs_control := [record_path ''run-1'' \<mapsto> ?r]\<rparr>\<rparr>"
  have journal: "co_journal demo_crashed = [(''t.json'', ?entry)]" by code_simp
  have r: "rc_commit ?r = Some \<lparr>c_request = commit_request_of ?entry, c_committed_at_unix_ms = 200\<rparr>" by code_simp
  have window: "map_option dr_status (bt_get (co_journal demo_crashed) ''t.json'') = Some Staged"
    "run_committed (cs_control (co_control demo_crashed)) ''run-1''" "js_ready (co_sink demo_crashed) = []"
    by code_simp+
  have run: "dr_run_id ?entry = ''run-1''" "dr_task_id ?entry = ''t''" "dr_status ?entry = Staged"
    "dr_schema_version ?entry = RESULT_JOURNAL_SCHEMA_VERSION" "journal_path ?env ''t'' = ''t.json''"
    by (simp_all add: staged_record_def demo_result_def journal_path_def demo_co_env_def)
  have "\<exists>report st'. reconcile ?env process_local_observe (\<lambda>_ _. io_return ()) ?st = (Inr report, st') \<and>
      co_sink st' = co_sink ?st \<and>
      bt_get (co_journal st') (journal_path ?env (dr_task_id ?entry)) = Some (?entry\<lparr>dr_status := Fenced\<rparr>) \<and>
      bt_contains (rp_committed report) (dr_task_id ?entry) \<and> \<not> bt_contains (rp_retry report) (dr_task_id ?entry)"
    by (rule committed_result_lost_on_reconcile [where r = ?r
          and c = "\<lparr>c_request = commit_request_of ?entry, c_committed_at_unix_ms = 200\<rparr>"
          and read_dir = "\<lambda>_. [record_path ''run-1'']"])
      (use r journal in \<open>simp_all add: run demo_env_ctl, simp_all add: demo_co_env_def\<close>)
  with window run show ?thesis by auto
qed


lemma bt_get_fold_remove: "bt_get (fold bt_remove ks m) k = (if k \<in> set ks then None else bt_get m k)"
  by (induction ks arbitrary: m) auto

text \<open>
  A reconcile report never asks to retry a task it reports as committed, whatever the journal,
  the runs and the observer were.
\<close>

theorem report_retry_not_committed:
  assumes "reconcile env observe cancel_stale st = (Inr report, st')"
    and "bt_contains (rp_committed report) task_id"
  shows "\<not> bt_contains (rp_retry report) task_id"
proof -
  from assms(1) obtain report0 where "report = drop_committed report0"
    by (auto simp: reconcile_def io_bind_Inr io_return_def)
  with assms(2) show ?thesis
    by (auto simp: drop_committed_def bt_contains_def bt_keys_def bt_get_fold_remove bt_get_None
        dest: bt_get_None [THEN iffD2])
qed

theorem report_retry_not_committed_witness:
  "\<exists>report st'. reconcile (demo_co_env (\<lambda>_. True)) process_local_observe (\<lambda>_ _. io_return ())
     (demo_crashed\<lparr>co_calls := 0\<rparr>) = (Inr report, st') \<and> \<not> bt_contains (rp_retry report) ''t''"
proof -
  let ?run = "reconcile (demo_co_env (\<lambda>_. True)) process_local_observe (\<lambda>_ _. io_return ()) (demo_crashed\<lparr>co_calls := 0\<rparr>)"
  have "(case fst ?run of Inl _ \<Rightarrow> False | Inr report \<Rightarrow> bt_contains (rp_committed report) ''t'')" by code_simp
  then obtain report where "fst ?run = Inr report" "bt_contains (rp_committed report) ''t''"
    by (auto split: sum.splits)
  then have run: "?run = (Inr report, snd ?run)" by (metis prod.collapse)
  from report_retry_not_committed [OF run \<open>bt_contains (rp_committed report) ''t''\<close>] run show ?thesis by blast
qed

text \<open>
  A committed result that missed the sink is appended once. Reconciling a committed journal
  entry whose append is not recorded persists its result and marks the entry; reconciling the
  marked entry again changes nothing.
\<close>

theorem reconcile_appends_missing_result:
  assumes "\<not> foreign_run env (dr_run_id entry)" and "dr_schema_version entry = RESULT_JOURNAL_SCHEMA_VERSION"
    and "dr_status entry = JournalCommitted" and "\<not> dr_sink_persisted entry" and "ce_disk_ok env = (\<lambda>_. True)"
    and "persist_terminal (ce_sink env) (ce_fate env (co_calls st)) (dr_result entry) (co_sink st) = (True, k)"
  shows "\<exists>report' st'. reconcile_entry env entry report st = (Inr report', st') \<and> co_sink st' = k \<and>
    co_control st' = co_control st \<and> bt_contains (rp_committed report') (dr_task_id entry) \<and>
    bt_get (co_journal st') (journal_path env (dr_task_id entry)) = Some (entry\<lparr>dr_sink_persisted := True\<rparr>) \<and>
    (\<forall>st2. snd (reconcile_entry env (entry\<lparr>dr_sink_persisted := True\<rparr>) report' st2) = st2)"
  using assms
  by (simp add: reconcile_entry_def journal_committed_def io_bind_def io_return_def sink_io_def write_record_def
      bt_contains_def Let_def)

theorem reconcile_appends_missing_result_witness:
  "\<exists>report' st'. reconcile_entry (demo_co_env (\<lambda>_. True))
      ((staged_record (demo_co_env (\<lambda>_. True)) (demo_result ''t'') ''run-1'' ''att-1'')\<lparr>dr_status := JournalCommitted\<rparr>)
      empty_report (demo_co_state demo_leased) = (Inr report', st') \<and>
    co_sink st' = snd (jsonl_append_ready demo_ndjson WriteOk (demo_result ''t'') demo_sink)"
proof -
  let ?env = "demo_co_env (\<lambda>_. True)"
  let ?entry = "(staged_record ?env (demo_result ''t'') ''run-1'' ''att-1'')\<lparr>dr_status := JournalCommitted\<rparr>"
  have "fst (jsonl_append_ready demo_ndjson WriteOk (demo_result ''t'') demo_sink)" by code_simp
  then have "persist_terminal (ce_sink ?env) (ce_fate ?env 0) (dr_result ?entry) demo_sink =
      (True, snd (jsonl_append_ready demo_ndjson WriteOk (demo_result ''t'') demo_sink))"
    by (simp add: persist_terminal_def demo_co_env_def jsonl_sink_ops_def demo_result_def staged_record_def prod_eq_iff)
  with reconcile_appends_missing_result [of ?env ?entry "demo_co_state demo_leased" _ empty_report]
  show ?thesis
    by (auto simp: foreign_run_def demo_co_env_def staged_record_def demo_co_state_def)
qed

text \<open>
  Leasing through the coordinator. A run that reconciliation marked as orphaned is taken over,
  any other is acquired; the mark is used up either way. A committed run is never leased again:
  the call fails and the control store does not change.
\<close>

theorem coordinator_lease:
  assumes "ce_ctl env = store_control read_dir" and "dir_wf (cs_control (co_control st))"
    and "co_acquire_lease env run_id task_id owner st = (res, st')"
  shows "co_orphaned st' = bt_remove run_id (co_orphaned st) \<and>
    (\<forall>epoch. res = Inr epoch \<longrightarrow> (\<exists>lease.
       acquire_lease_inner (ce_clock env (co_calls st)) (cs_control (co_control st)) run_id (Some task_id) owner
         (ce_lease_ttl_ms env) (bt_contains (co_orphaned st) run_id)
       = (Inr (Acquired lease), cs_control (co_control st')) \<and> epoch = l_epoch lease)) \<and>
    (run_committed (cs_control (co_control st)) run_id \<and> trim owner \<noteq> [] \<longrightarrow>
       res = Inl (RunAlreadyCommitted run_id) \<and> co_control st' = co_control st)"
proof -
  let ?dir = "cs_control (co_control st)" and ?force = "bt_contains (co_orphaned st) run_id"
  obtain out dir' where inner: "acquire_lease_inner (ce_clock env (co_calls st)) ?dir run_id (Some task_id) owner
      (ce_lease_ttl_ms env) ?force = (out, dir')" by fastforce
  have call: "control_io env (\<lambda>clk s.
        if ?force then cc_takeover_lease (ce_ctl env) clk run_id (Some task_id) owner (ce_lease_ttl_ms env) s
        else cc_acquire_lease (ce_ctl env) clk run_id (Some task_id) owner (ce_lease_ttl_ms env) s)
      (st\<lparr>co_orphaned := bt_remove run_id (co_orphaned st)\<rparr>) =
      (case out of Inl e \<Rightarrow> Inl (ControlError e) | Inr x \<Rightarrow> Inr x,
       st\<lparr>co_orphaned := bt_remove run_id (co_orphaned st), co_control := (co_control st)\<lparr>cs_control := dir'\<rparr>,
         co_calls := Suc (co_calls st)\<rparr>)"
    using inner assms(1)
    by (cases ?force) (simp_all add: control_io_def store_control_def acquire_lease_def takeover_lease_def)
  have committed: "\<exists>c. out = Inr (LeaseAlreadyCommitted c) \<and> dir' = ?dir"
    if "run_committed ?dir run_id" "trim owner \<noteq> []"
    using that inner by (auto simp: run_committed_def acquire_inner_committed split: option.splits)
  show ?thesis
    using assms(3) inner call committed
    by (auto simp: co_acquire_lease_def io_bind_def io_return_def io_fail_def Let_def
        split: sum.splits LeaseAcquireOutcome.splits)
qed

theorem coordinator_lease_witness:
  "\<exists>st'. co_acquire_lease (demo_co_env (\<lambda>_. True)) ''run-1'' ''t'' ''owner-b'' demo_crashed
    = (Inl (RunAlreadyCommitted ''run-1''), st')"
proof -
  have "dir_wf (cs_control (co_control demo_crashed))"
    unfolding demo_crashed_def
    using durable.finalize_frame [OF demo_env_ctl demo_leased_wf surjective_pairing] by blast
  moreover have "run_committed (cs_control (co_control demo_crashed)) ''run-1''" "trim ''owner-b'' \<noteq> []"
    by code_simp+
  ultimately show ?thesis
    using coordinator_lease [OF demo_env_ctl _ surjective_pairing, of demo_crashed "\<lambda>_. True" "''run-1''" "''t''" "''owner-b''"]
    by (metis prod.collapse)
qed


subsection \<open>Run ids of a job\<close>

text \<open>
  \<open>task_run_spec\<close> in \<open>persisting-ppilot/src/executor.rs\<close> names the run of a task after the job and
  the task; \<open>reconcile\<close> recognises the runs of its job by the prefix.
\<close>

definition encode_run_id_part :: "string \<Rightarrow> string" where
  "encode_run_id_part value = concat (map encode_id_byte value)"

definition job_run_id_prefix :: "string \<Rightarrow> string" where
  "job_run_id_prefix job_id = ''ppilot-'' @ encode_run_id_part job_id @ ''-''"

definition task_run_id :: "string \<Rightarrow> string \<Rightarrow> RunId" where
  "task_run_id job_id task_id = job_run_id_prefix job_id @ encode_run_id_part task_id"

lemma encode_run_id_part_eq: "encode_run_id_part = encoded_run_id"
  by (simp add: fun_eq_iff encode_run_id_part_def encoded_run_id_def)

lemma encode_run_id_part_append: "encode_run_id_part (a @ b) = encode_run_id_part a @ encode_run_id_part b"
  by (simp add: encode_run_id_part_def)

lemma encode_dash: "encode_run_id_part (CHR ''-'' # s) = CHR ''-'' # encode_run_id_part s"
  by (simp add: encode_run_id_part_def encode_id_byte_def id_byte_plain_def Let_def)

text \<open>
  Within a job, run ids tell tasks apart, and every run of the job has the job's prefix, so
  that reconciliation sees all of them.
\<close>

theorem job_run_ids:
  assumes "ce_run_id_prefix env = Some (job_run_id_prefix job_id)"
  shows "(task_run_id job_id a = task_run_id job_id b \<longleftrightarrow> a = b) \<and>
    \<not> foreign_run env (task_run_id job_id a)"
  using assms by (auto simp: task_run_id_def encode_run_id_part_eq foreign_run_def starts_with_iff)

theorem job_run_ids_witness:
  "\<not> foreign_run ((demo_co_env (\<lambda>_. True))\<lparr>ce_run_id_prefix := Some (job_run_id_prefix ''j'')\<rparr>)
     (task_run_id ''j'' ''t'')"
  using job_run_ids [of "(demo_co_env (\<lambda>_. True))\<lparr>ce_run_id_prefix := Some (job_run_id_prefix ''j'')\<rparr>" "''j''" "''t''"]
  by simp

text \<open>
  Across jobs they do not. A job whose id extends another's by a dash has all its runs inside
  the other job's prefix, so the other job's reconciliation takes them for its own; and some
  of their tasks even have the same run id.
\<close>

theorem job_run_ids_overlap:
  assumes "ce_run_id_prefix env = Some (job_run_id_prefix job_id)"
  shows "\<not> foreign_run env (task_run_id (job_id @ ''-'' @ rest) task_id) \<and>
    task_run_id (job_id @ ''-'' @ rest) task_id = task_run_id job_id (rest @ ''-'' @ task_id)"
  using assms
  by (auto simp: task_run_id_def job_run_id_prefix_def encode_run_id_part_append encode_dash foreign_run_def
      starts_with_iff)

theorem job_run_ids_overlap_witness:
  "task_run_id ''a-b'' ''c'' = task_run_id ''a'' ''b-c'' \<and>
   \<not> foreign_run ((demo_co_env (\<lambda>_. True))\<lparr>ce_run_id_prefix := Some (job_run_id_prefix ''a'')\<rparr>) (task_run_id ''a-b'' ''c'')"
proof -
  let ?env = "(demo_co_env (\<lambda>_. True))\<lparr>ce_run_id_prefix := Some (job_run_id_prefix ''a'')\<rparr>"
  have "ce_run_id_prefix ?env = Some (job_run_id_prefix ''a'')" by simp
  from job_run_ids_overlap [OF this, of "''b''" "''c''", unfolded append.simps] show ?thesis by blast
qed

end
