(* ===== verification/IpAddress.thy ===== *)
theory IpAddress
  imports RustStr
begin

unbundle bit_operations_syntax

section \<open>IP addresses of the Rust standard library\<close>

text \<open>
  \<open>std::net::IpAddr\<close> as the sources use it: the parser behind \<open>IpAddr::from_str\<close>, the address
  classes, and the two classifications of \<open>persisting-agentctl/src/lib.rs\<close> built on them. An IPv4
  address is its four octets, an IPv6 address its eight 16 bit segments. The parser is the
  recursive descent of the standard library: each reader takes a string and gives the value read
  and the rest, or nothing, in which case the input is not consumed.
\<close>

type_synonym u8 = "8 word"

datatype IpAddr =
    V4 u8 u8 u8 u8
  | V6 u16 u16 u16 u16 u16 u16 u16 u16

subsection \<open>Parsing\<close>

definition digit_value :: "int \<Rightarrow> char \<Rightarrow> int option" where
  "digit_value radix c =
    (let b = (of_char c :: int);
         v = (if 48 \<le> b \<and> b \<le> 57 then Some (b - 48)
              else if 97 \<le> b \<and> b \<le> 122 then Some (b - 87)
              else if 65 \<le> b \<and> b \<le> 90 then Some (b - 55) else None)
     in case v of None \<Rightarrow> None | Some n \<Rightarrow> if n < radix then Some n else None)"

fun digits_prefix :: "int \<Rightarrow> string \<Rightarrow> int list \<times> string" where
  "digits_prefix radix [] = ([], [])"
| "digits_prefix radix (c # s) =
    (case digit_value radix c of
       None \<Rightarrow> ([], c # s)
     | Some d \<Rightarrow> (case digits_prefix radix s of (ds, r) \<Rightarrow> (d # ds, r)))"

text \<open>At most \<open>max_digits\<close> digits, a value that fits, and no superfluous leading zero unless allowed.\<close>

definition read_number :: "int \<Rightarrow> nat \<Rightarrow> bool \<Rightarrow> int \<Rightarrow> string \<Rightarrow> (int \<times> string) option" where
  "read_number radix max_digits allow_zero_prefix bound s =
    (case digits_prefix radix s of (ds, r) \<Rightarrow>
       let value = foldl (\<lambda>n d. n * radix + d) 0 ds in
       if ds = [] \<or> max_digits < length ds \<or> bound \<le> value
          \<or> \<not> allow_zero_prefix \<and> hd ds = 0 \<and> 1 < length ds
       then None else Some (value, r))"

definition read_given_char :: "char \<Rightarrow> string \<Rightarrow> string option" where
  "read_given_char c s = (case s of [] \<Rightarrow> None | x # r \<Rightarrow> if x = c then Some r else None)"

definition read_octet :: "string \<Rightarrow> (int \<times> string) option" where
  "read_octet = read_number 10 3 False 256"

definition read_ipv4_addr :: "string \<Rightarrow> ((int \<times> int \<times> int \<times> int) \<times> string) option" where
  "read_ipv4_addr s =
    Option.bind (read_octet s) (\<lambda>(a, s1).
    Option.bind (read_given_char (CHR ''.'') s1) (\<lambda>s2.
    Option.bind (read_octet s2) (\<lambda>(b, s3).
    Option.bind (read_given_char (CHR ''.'') s3) (\<lambda>s4.
    Option.bind (read_octet s4) (\<lambda>(c, s5).
    Option.bind (read_given_char (CHR ''.'') s5) (\<lambda>s6.
    Option.bind (read_octet s6) (\<lambda>(d, s7). Some ((a, b, c, d), s7))))))))"

text \<open>\<open>read_separator\<close>: a colon first, except before the first group.\<close>

definition after_separator :: "nat \<Rightarrow> string \<Rightarrow> string option" where
  "after_separator i s = (if i = 0 then Some s else read_given_char (CHR '':'') s)"

text \<open>
  \<open>read_groups\<close>: up to \<open>limit\<close> groups of at most four hexadecimal digits, the last two of which may
  be an IPv4 address; the flag says that they were.
\<close>

fun read_groups :: "nat \<Rightarrow> nat \<Rightarrow> string \<Rightarrow> int list \<times> bool \<times> string" where
  "read_groups i 0 s = ([], False, s)"
| "read_groups i (Suc left) s =
    (case (if 1 \<le> left then Option.bind (after_separator i s) read_ipv4_addr else None) of
       Some ((a, b, c, d), r) \<Rightarrow> ([a * 256 + b, c * 256 + d], True, r)
     | None \<Rightarrow>
        (case Option.bind (after_separator i s) (read_number 16 4 True 65536) of
           None \<Rightarrow> ([], False, s)
         | Some (g, r) \<Rightarrow> (case read_groups (Suc i) left r of (gs, v4, r') \<Rightarrow> (g # gs, v4, r'))))"

definition read_ipv6_addr :: "string \<Rightarrow> (int list \<times> string) option" where
  "read_ipv6_addr s =
    (case read_groups 0 8 s of (head, head_ipv4, r) \<Rightarrow>
       if length head = 8 then Some (head, r)
       else if head_ipv4 then None
       else Option.bind (read_given_char (CHR '':'') r) (\<lambda>r1.
         Option.bind (read_given_char (CHR '':'') r1) (\<lambda>r2.
           case read_groups 0 (7 - length head) r2 of (tail, _, r3) \<Rightarrow>
             Some (head @ replicate (8 - length head - length tail) 0 @ tail, r3))))"

definition parse_ip :: "string \<Rightarrow> IpAddr option" where
  "parse_ip s =
    (case read_ipv4_addr s of
       Some ((a, b, c, d), r) \<Rightarrow> if r = [] then Some (V4 (of_int a) (of_int b) (of_int c) (of_int d)) else None
     | None \<Rightarrow>
        (case read_ipv6_addr s of
           Some (gs, r) \<Rightarrow> if r = [] \<and> length gs = 8 then
             Some (V6 (of_int (gs ! 0)) (of_int (gs ! 1)) (of_int (gs ! 2)) (of_int (gs ! 3))
               (of_int (gs ! 4)) (of_int (gs ! 5)) (of_int (gs ! 6)) (of_int (gs ! 7)))
             else None
         | None \<Rightarrow> None))"

subsection \<open>Address classes\<close>

fun is_loopback :: "IpAddr \<Rightarrow> bool" where
  "is_loopback (V4 a b c d) = (a = 127)"
| "is_loopback (V6 s0 s1 s2 s3 s4 s5 s6 s7) =
    (s0 = 0 \<and> s1 = 0 \<and> s2 = 0 \<and> s3 = 0 \<and> s4 = 0 \<and> s5 = 0 \<and> s6 = 0 \<and> s7 = 1)"

definition is_private_v4 :: "u8 \<Rightarrow> u8 \<Rightarrow> bool" where
  "is_private_v4 a b \<longleftrightarrow> a = 10 \<or> a = 172 \<and> 16 \<le> b \<and> b \<le> 31 \<or> a = 192 \<and> b = 168"

fun to_ipv4_mapped :: "IpAddr \<Rightarrow> IpAddr option" where
  "to_ipv4_mapped (V6 s0 s1 s2 s3 s4 s5 s6 s7) =
    (if s0 = 0 \<and> s1 = 0 \<and> s2 = 0 \<and> s3 = 0 \<and> s4 = 0 \<and> s5 = 0xffff
     then Some (V4 (ucast (drop_bit 8 s6)) (ucast s6) (ucast (drop_bit 8 s7)) (ucast s7)) else None)"
| "to_ipv4_mapped (V4 a b c d) = None"

fun is_opt_in_private_v4 :: "IpAddr \<Rightarrow> bool" where
  "is_opt_in_private_v4 (V4 a b c d) = (is_private_v4 a b \<or> a = 127)"
| "is_opt_in_private_v4 _ = False"

definition is_opt_in_private_ip :: "IpAddr \<Rightarrow> bool" where
  "is_opt_in_private_ip ip =
    (case ip of
       V4 a b c d \<Rightarrow> is_opt_in_private_v4 ip
     | V6 s0 s1 s2 s3 s4 s5 s6 s7 \<Rightarrow>
        (case to_ipv4_mapped ip of
           Some mapped \<Rightarrow> is_opt_in_private_v4 mapped
         | None \<Rightarrow> is_loopback ip \<or> s0 AND 0xfe00 = 0xfc00))"

fun is_public_egress_v4 :: "IpAddr \<Rightarrow> bool" where
  "is_public_egress_v4 (V4 a b c d) =
    (a \<noteq> 0
     \<and> a \<noteq> 127
     \<and> \<not> is_private_v4 a b
     \<and> \<not> (a = 169 \<and> b = 254)
     \<and> \<not> (224 \<le> a \<and> a \<le> 239)
     \<and> \<not> (a = 255 \<and> b = 255 \<and> c = 255 \<and> d = 255)
     \<and> \<not> (a = 100 \<and> 64 \<le> b \<and> b \<le> 127)
     \<and> \<not> (a = 192 \<and> b = 0 \<and> c = 0)
     \<and> \<not> (a = 192 \<and> b = 0 \<and> c = 2)
     \<and> \<not> (a = 198 \<and> 18 \<le> b \<and> b \<le> 19)
     \<and> \<not> (a = 198 \<and> b = 51 \<and> c = 100)
     \<and> \<not> (a = 203 \<and> b = 0 \<and> c = 113)
     \<and> a < 240)"
| "is_public_egress_v4 _ = False"

definition is_public_egress_ip :: "IpAddr \<Rightarrow> bool" where
  "is_public_egress_ip ip =
    (case ip of
       V4 a b c d \<Rightarrow> is_public_egress_v4 ip
     | V6 s0 s1 s2 s3 s4 s5 s6 s7 \<Rightarrow>
        (case to_ipv4_mapped ip of
           Some mapped \<Rightarrow> is_public_egress_v4 mapped
         | None \<Rightarrow> s0 AND 0xe000 = 0x2000
             \<and> \<not> (s0 = 0x2001 \<and> s1 \<le> 0x01ff)
             \<and> \<not> (s0 = 0x2001 \<and> s1 = 0x0db8)
             \<and> s0 \<noteq> 0x2002
             \<and> \<not> (s0 = 0x3fff \<and> s1 AND 0xf000 = 0)))"

lemma ula_not_global:
  fixes s :: u16
  assumes "s AND 0xfe00 = 0xfc00" shows "s AND 0xe000 \<noteq> 0x2000"
proof
  assume "s AND 0xe000 = 0x2000"
  moreover have "s AND 0xe000 = (s AND 0xfe00) AND 0xe000" by (simp add: and.assoc)
  ultimately show False using assms by simp
qed

text \<open>
  No address is both a public destination and a private one: whatever a hostname rule admits
  without opting in is disjoint from what the opt-in adds. The IPv4-mapped form of an address
  is classified like the address itself.
\<close>

theorem public_private_disjoint:
  "\<not> (is_public_egress_ip ip \<and> is_opt_in_private_ip ip) \<and>
   (to_ipv4_mapped ip = Some v4 \<longrightarrow> is_public_egress_ip ip = is_public_egress_ip v4 \<and>
      is_opt_in_private_ip ip = is_opt_in_private_ip v4)"
proof (cases ip)
  case (V4 a b c d)
  then show ?thesis by (auto simp: is_public_egress_ip_def is_opt_in_private_ip_def)
next
  case (V6 s0 s1 s2 s3 s4 s5 s6 s7)
  have "\<not> (is_public_egress_v4 m \<and> is_opt_in_private_v4 m)" for m by (cases m) auto
  with V6 show ?thesis
    by (auto simp: is_public_egress_ip_def is_opt_in_private_ip_def ula_not_global split: option.splits if_splits)
qed

theorem public_private_disjoint_witness:
  "is_public_egress_ip (V6 0 0 0 0 0 0xffff 0x0808 0x0808) = is_public_egress_ip (V4 8 8 8 8)"
  using public_private_disjoint [of "V6 0 0 0 0 0 0xffff 0x0808 0x0808" "V4 8 8 8 8"] by simp

end
