(* ===== verification/NetworkPolicy.thy ===== *)
theory NetworkPolicy
  imports IpAddress RunTypes
begin

section \<open>Access control of pVisor\<close>

text \<open>
  \<open>persisting-agentctl/src/lib.rs\<close>: the control machine that records how a request was authorised
  and applied, the compilation of network capabilities to rules, their evaluation, and model
  access. CIDR networks come from the external \<open>ipnet\<close> crate: parsing one, its address and its
  containment test are the fields of \<open>ipnet_ops\<close>, over a type of networks.
\<close>

record 'n ipnet_ops =
  net_parse :: "string \<Rightarrow> 'n option"
  net_addr :: "'n \<Rightarrow> IpAddr"
  net_contains :: "'n \<Rightarrow> IpAddr \<Rightarrow> bool"

subsection \<open>Data\<close>

datatype NetworkDefaultAction = DefaultAllow | DefaultDeny

datatype NetworkTransport = Http | Https | TcpTunnel

record NetworkAccessRule =
  nar_host :: string
  nar_ports :: "u16 list"
  nar_transports :: "NetworkTransport list"
  nar_allow_private_ips :: bool

record NetworkBandwidthLimit =
  nbl_host :: "string option"
  nbl_port :: "u16 option"
  nbl_bytes_per_second :: u64

datatype NetworkCapability =
    Ambient
  | Deny
  | AllowList "string list" "NetworkAccessRule list"
  | Policy NetworkDefaultAction "NetworkAccessRule list" "NetworkAccessRule list" "NetworkBandwidthLimit list"

record NetworkAccessRequest =
  nr_run_id :: "RunId option"
  nr_attempt_id :: "AttemptId option"
  nr_storyline_id :: "StorylineId option"
  nr_host :: string
  nr_port :: "u16 option"
  nr_transport :: NetworkTransport
  nr_resolved_ip :: "IpAddr option"

record ModelCallRequest =
  mr_run_id :: "RunId option"
  mr_attempt_id :: "AttemptId option"
  mr_storyline_id :: "StorylineId option"
  mr_call_id :: string
  mr_client_model :: string
  mr_upstream_model :: string
  mr_provider :: string
  mr_protocol :: string
  mr_upstream_host :: string

record ModelAccessPolicy =
  mp_allowed_models :: "string list"
  mp_allowed_providers :: "string list"

datatype AccessEffect = EffectAllow | EffectDeny

datatype AccessReason =
    AmbientNetwork | TrustedLocal | NetworkAllowList | NetworkDenied | NetworkAllowListEmpty
  | HostNotAllowed | PortNotAllowed | TransportNotAllowed | ResolvedAddressNotAllowed
  | ExplicitlyDenied | ModelAllowed | ModelNotAllowed | ProviderNotAllowed

datatype 'n NetworkHostRule = Exact string | WildcardSuffix string | IpRule IpAddr | Cidr 'n

record 'n NetworkRule =
  rule_host :: "'n NetworkHostRule"
  rule_ports :: "u16 list"
  rule_transports :: "NetworkTransport list"
  rule_allow_private_ips :: bool

datatype NetworkMatchFailure = MatchEmpty | MatchHost | MatchPort | MatchTransport | MatchResolvedAddress

record 'n NetworkGuard =
  ng_capability :: NetworkCapability
  ng_rules :: "'n NetworkRule list"
  ng_deny_rules :: "'n NetworkRule list"
  ng_trusted_hosts :: "string list"

datatype rule_error =
    EntryEmpty | EntryNotHost | EntryHasPort | InvalidWildcard | MisplacedWildcard | InvalidHostname | PortZero

subsection \<open>Rules\<close>

definition normalize_host :: "string \<Rightarrow> string" where
  "normalize_host host =
     trim_end_matches (\<lambda>c. c = CHR ''.'')
       (to_ascii_lowercase (trim_matches (\<lambda>c. c = CHR ''['' \<or> c = CHR '']'') (trim host)))"

text \<open>\<open>rsplit_once\<close> at a colon: what is before and after the last one.\<close>

definition rsplit_colon :: "string \<Rightarrow> (string \<times> string) option" where
  "rsplit_colon s =
    (if CHR '':'' \<in> set s
     then Some (rev (drop 1 (dropWhile (\<lambda>c. c \<noteq> CHR '':'') (rev s))), rev (takeWhile (\<lambda>c. c \<noteq> CHR '':'') (rev s)))
     else None)"

definition parse_network_host_rule :: "'n ipnet_ops \<Rightarrow> string \<Rightarrow> rule_error + 'n NetworkHostRule" where
  "parse_network_host_rule ops raw =
    (let entry = trim raw in
     if entry = [] then Inl EntryEmpty
     else if str_contains entry ''://'' \<or> CHR '']'' \<in> set entry \<or> CHR ''['' \<in> set entry then Inl EntryNotHost
     else if CHR ''/'' \<in> set entry \<and> net_parse ops entry = None then Inl EntryNotHost
     else if (case rsplit_colon entry of None \<Rightarrow> False
         | Some (host, port) \<Rightarrow> host \<noteq> [] \<and> list_all is_ascii_digit port \<and> CHR ''/'' \<notin> set entry
             \<and> parse_ip host = None \<and> CHR '':'' \<notin> set host) then Inl EntryHasPort
     else case strip_prefix entry ''*.'' of
       Some suffix0 \<Rightarrow>
         (let suffix = normalize_host suffix0 in
          if suffix = [] \<or> CHR ''*'' \<in> set suffix \<or> parse_ip suffix \<noteq> None then Inl InvalidWildcard
          else Inr (WildcardSuffix suffix))
     | None \<Rightarrow>
        if CHR ''*'' \<in> set entry then Inl MisplacedWildcard
        else (case net_parse ops entry of
            Some network \<Rightarrow> if CHR ''/'' \<in> set entry then Inr (Cidr network) else Inr (IpRule (net_addr ops network))
          | None \<Rightarrow>
             (case parse_ip entry of
                Some ip \<Rightarrow> Inr (IpRule ip)
              | None \<Rightarrow>
                 (let host = normalize_host entry in
                  if host = [] \<or> CHR '':'' \<in> set host then Inl InvalidHostname else Inr (Exact host)))))"

text \<open>\<open>Vec::dedup\<close> removes consecutive repetitions.\<close>

fun dedup :: "'a list \<Rightarrow> 'a list" where
  "dedup (x # y # xs) = (if x = y then dedup (y # xs) else x # dedup (y # xs))"
| "dedup xs = xs"

definition compile_network_rule :: "'n ipnet_ops \<Rightarrow> NetworkAccessRule \<Rightarrow> rule_error + 'n NetworkRule" where
  "compile_network_rule ops rule =
    (if 0 \<in> set (nar_ports rule) then Inl PortZero
     else rbind (parse_network_host_rule ops (nar_host rule)) (\<lambda>host.
       Inr \<lparr>rule_host = host, rule_ports = dedup (sort (nar_ports rule)),
            rule_transports = dedup (nar_transports rule),
            rule_allow_private_ips = nar_allow_private_ips rule\<rparr>))"

definition parse_network_rule :: "'n ipnet_ops \<Rightarrow> string \<Rightarrow> rule_error + 'n NetworkRule" where
  "parse_network_rule ops raw = compile_network_rule ops
     \<lparr>nar_host = raw, nar_ports = [], nar_transports = [], nar_allow_private_ips = False\<rparr>"

definition guard_compile ::
  "'n ipnet_ops \<Rightarrow> NetworkCapability \<Rightarrow> string list \<Rightarrow> rule_error + 'n NetworkGuard" where
  "guard_compile ops capability trusted_hosts =
    rbind (case capability of
        AllowList hosts rules \<Rightarrow>
          rbind (collect_results (parse_network_rule ops) hosts) (\<lambda>compiled.
            rbind (collect_results (compile_network_rule ops) rules) (\<lambda>more. Inr (compiled @ more)))
      | Policy _ allow _ _ \<Rightarrow> collect_results (compile_network_rule ops) allow
      | _ \<Rightarrow> Inr []) (\<lambda>rules.
    rbind (case capability of
        Policy _ _ deny _ \<Rightarrow> collect_results (compile_network_rule ops) deny
      | _ \<Rightarrow> Inr []) (\<lambda>deny_rules.
      Inr \<lparr>ng_capability = capability, ng_rules = rules, ng_deny_rules = deny_rules,
           ng_trusted_hosts = map normalize_host trusted_hosts\<rparr>))"

definition matches_host :: "'n ipnet_ops \<Rightarrow> 'n NetworkRule \<Rightarrow> string \<Rightarrow> IpAddr option \<Rightarrow> bool" where
  "matches_host ops rule raw resolved_ip =
    (let host = normalize_host raw; host_ip = parse_ip host in
     case rule_host rule of
       Exact allowed \<Rightarrow> host = allowed
     | WildcardSuffix suffix \<Rightarrow>
         ends_with host suffix \<and> length suffix < length host \<and> host ! (length host - length suffix - 1) = CHR ''.''
     | IpRule allowed \<Rightarrow> host_ip = Some allowed \<or> resolved_ip = Some allowed
     | Cidr network \<Rightarrow>
        (case (case host_ip of None \<Rightarrow> resolved_ip | Some _ \<Rightarrow> host_ip) of
           None \<Rightarrow> False | Some ip \<Rightarrow> net_contains ops network ip))"

definition matches_port :: "'n NetworkRule \<Rightarrow> u16 option \<Rightarrow> bool" where
  "matches_port rule port \<longleftrightarrow> rule_ports rule = [] \<or> (case port of None \<Rightarrow> False | Some p \<Rightarrow> p \<in> set (rule_ports rule))"

definition matches_transport :: "'n NetworkRule \<Rightarrow> NetworkTransport \<Rightarrow> bool" where
  "matches_transport rule transport \<longleftrightarrow> rule_transports rule = [] \<or> transport \<in> set (rule_transports rule)"

definition allows_resolved_address :: "'n ipnet_ops \<Rightarrow> 'n NetworkRule \<Rightarrow> IpAddr option \<Rightarrow> bool" where
  "allows_resolved_address ops rule resolved_ip =
    (case resolved_ip of
       None \<Rightarrow> True
     | Some ip \<Rightarrow>
        (case rule_host rule of
           IpRule allowed \<Rightarrow> ip = allowed
         | Cidr network \<Rightarrow> net_contains ops network ip
         | Exact _ \<Rightarrow> is_public_egress_ip ip \<or> rule_allow_private_ips rule \<and> is_opt_in_private_ip ip
         | WildcardSuffix _ \<Rightarrow> is_public_egress_ip ip \<or> rule_allow_private_ips rule \<and> is_opt_in_private_ip ip))"

definition evaluate_rules ::
  "'n ipnet_ops \<Rightarrow> 'n NetworkRule list \<Rightarrow> NetworkAccessRequest \<Rightarrow> bool \<Rightarrow> NetworkMatchFailure + unit" where
  "evaluate_rules ops rules request enforce_resolved_address_safety =
    (if rules = [] then Inl MatchEmpty
     else
      (let host_rules = filter (\<lambda>rule. matches_host ops rule (nr_host request) (nr_resolved_ip request)) rules in
       if host_rules = [] then Inl (if nr_resolved_ip request \<noteq> None then MatchResolvedAddress else MatchHost)
       else
        (let port_rules = filter (\<lambda>rule. matches_port rule (nr_port request)) host_rules in
         if port_rules = [] then Inl MatchPort
         else
          (let transport_rules = filter (\<lambda>rule. matches_transport rule (nr_transport request)) port_rules in
           if transport_rules = [] then Inl MatchTransport
           else if enforce_resolved_address_safety \<and> nr_resolved_ip request \<noteq> None
             \<and> \<not> list_ex (\<lambda>rule. allows_resolved_address ops rule (nr_resolved_ip request)) transport_rules
           then Inl MatchResolvedAddress
           else Inr ()))))"

definition guard_evaluate where
  "guard_evaluate ops guard request = evaluate_rules ops (ng_rules guard) request True"

definition guard_denied where
  "guard_denied ops guard request = (case evaluate_rules ops (ng_deny_rules guard) request False of
     Inl _ \<Rightarrow> False | Inr _ \<Rightarrow> True)"

definition is_trusted :: "'n NetworkGuard \<Rightarrow> string \<Rightarrow> bool" where
  "is_trusted guard host = (let h = normalize_host host in list_ex (\<lambda>trusted. trusted = h) (ng_trusted_hosts guard))"

subsection \<open>Authorisation\<close>

datatype ControlState =
    Requested | Allowed | Denied | Applied AccessEffect | FailedState AccessEffect

record ControlTransition =
  ct_from :: ControlState
  ct_to :: ControlState
  ct_reason :: AccessReason

definition ct_allowed :: "AccessReason \<Rightarrow> ControlTransition" where
  "ct_allowed reason = \<lparr>ct_from = Requested, ct_to = Allowed, ct_reason = reason\<rparr>"

definition ct_denied :: "AccessReason \<Rightarrow> ControlTransition" where
  "ct_denied reason = \<lparr>ct_from = Requested, ct_to = Denied, ct_reason = reason\<rparr>"

definition is_allowed :: "ControlTransition \<Rightarrow> bool" where
  "is_allowed t = (case ct_to t of Allowed \<Rightarrow> True | Applied EffectAllow \<Rightarrow> True | _ \<Rightarrow> False)"

fun match_transition :: "NetworkMatchFailure + unit \<Rightarrow> ControlTransition" where
  "match_transition (Inr _) = ct_allowed NetworkAllowList"
| "match_transition (Inl MatchEmpty) = ct_denied NetworkAllowListEmpty"
| "match_transition (Inl MatchHost) = ct_denied HostNotAllowed"
| "match_transition (Inl MatchPort) = ct_denied PortNotAllowed"
| "match_transition (Inl MatchTransport) = ct_denied TransportNotAllowed"
| "match_transition (Inl MatchResolvedAddress) = ct_denied ResolvedAddressNotAllowed"

definition authorize_network ::
  "'n ipnet_ops \<Rightarrow> 'n NetworkGuard \<Rightarrow> NetworkAccessRequest \<Rightarrow> ControlTransition" where
  "authorize_network ops policy request =
    (if guard_denied ops policy request then ct_denied ExplicitlyDenied
     else if is_trusted policy (nr_host request) then ct_allowed TrustedLocal
     else case ng_capability policy of
       Ambient \<Rightarrow> ct_allowed AmbientNetwork
     | Deny \<Rightarrow> ct_denied NetworkDenied
     | AllowList _ _ \<Rightarrow> match_transition (guard_evaluate ops policy request)
     | Policy DefaultAllow _ _ _ \<Rightarrow> ct_allowed AmbientNetwork
     | Policy DefaultDeny _ _ _ \<Rightarrow> match_transition (guard_evaluate ops policy request))"

definition model_matches :: "string \<Rightarrow> string \<Rightarrow> bool" where
  "model_matches pattern model =
    (if pattern = ''*'' then True
     else case strip_suffix pattern ''*'' of
       Some prefix \<Rightarrow> prefix \<noteq> [] \<and> starts_with model prefix
     | None \<Rightarrow>
        (case strip_prefix pattern ''*'' of
           Some suffix \<Rightarrow> suffix \<noteq> [] \<and> ends_with model suffix
         | None \<Rightarrow> pattern = model))"

definition authorize_model :: "ModelAccessPolicy \<Rightarrow> ModelCallRequest \<Rightarrow> ControlTransition" where
  "authorize_model policy request =
    (let model_allowed = list_ex (\<lambda>pattern. model_matches pattern (mr_client_model request)
           \<or> model_matches pattern (mr_upstream_model request)) (mp_allowed_models policy) in
     if \<not> model_allowed then ct_denied ModelNotAllowed
     else if mp_allowed_providers policy \<noteq> [] \<and>
       \<not> list_ex (\<lambda>provider. eq_ignore_ascii_case provider (mr_provider request)) (mp_allowed_providers policy)
     then ct_denied ProviderNotAllowed
     else ct_allowed ModelAllowed)"

datatype 'n ControlRequest =
    NetworkRequest "'n NetworkGuard" NetworkAccessRequest
  | ModelRequest ModelAccessPolicy ModelCallRequest

definition policy_authorize :: "'n ipnet_ops \<Rightarrow> 'n ControlRequest \<Rightarrow> ControlTransition" where
  "policy_authorize ops request =
    (case request of
       NetworkRequest policy r \<Rightarrow> authorize_network ops policy r
     | ModelRequest policy r \<Rightarrow> authorize_model policy r)"

subsection \<open>The control machine\<close>

record ControlMachine =
  cm_state :: ControlState
  cm_history :: "ControlTransition list"

datatype machine_error = AlreadyAuthorized | InvalidAuthorization | NotAuthorized | CannotFollow | StateMismatch

definition machine_new :: ControlMachine where
  "machine_new = \<lparr>cm_state = Requested, cm_history = []\<rparr>"

definition machine_commit ::
  "ControlTransition \<Rightarrow> ControlMachine \<Rightarrow> (machine_error + ControlTransition) \<times> ControlMachine" where
  "machine_commit t m =
    (if ct_from t \<noteq> cm_state m then (Inl StateMismatch, m)
     else (Inr t, \<lparr>cm_state = ct_to t, cm_history = cm_history m @ [t]\<rparr>))"

definition machine_authorize ::
  "('q \<Rightarrow> ControlTransition) \<Rightarrow> 'q \<Rightarrow> ControlMachine \<Rightarrow> (machine_error + ControlTransition) \<times> ControlMachine" where
  "machine_authorize controller request m =
    (if cm_state m \<noteq> Requested then (Inl AlreadyAuthorized, m)
     else
      (let t = controller request in
       if ct_from t \<noteq> Requested \<or> (ct_to t \<noteq> Allowed \<and> ct_to t \<noteq> Denied) then (Inl InvalidAuthorization, m)
       else machine_commit t m))"

definition follow :: "bool \<Rightarrow> ControlTransition \<Rightarrow> machine_error + ControlTransition" where
  "follow applied t =
    rbind (case ct_to t of Allowed \<Rightarrow> Inr EffectAllow | Denied \<Rightarrow> Inr EffectDeny | _ \<Rightarrow> Inl CannotFollow)
      (\<lambda>effect. Inr \<lparr>ct_from = ct_to t, ct_to = (if applied then Applied effect else FailedState effect),
         ct_reason = ct_reason t\<rparr>)"

definition machine_follow ::
  "bool \<Rightarrow> ControlMachine \<Rightarrow> (machine_error + ControlTransition) \<times> ControlMachine" where
  "machine_follow applied m =
    (if cm_history m = [] then (Inl NotAuthorized, m)
     else case follow applied (last (cm_history m)) of Inl e \<Rightarrow> (Inl e, m) | Inr t \<Rightarrow> machine_commit t m)"

definition machine_applied where "machine_applied m = machine_follow True m"

definition machine_failed where "machine_failed m = machine_follow False m"

subsection \<open>Rule evaluation\<close>

lemma set_dedup [simp]: "set (dedup xs) = set xs"
  by (induction xs rule: dedup.induct) auto

lemma dedup_Nil [simp]: "dedup xs = [] \<longleftrightarrow> xs = []"
  by (induction xs rule: dedup.induct) auto

definition rule_admits :: "'n ipnet_ops \<Rightarrow> 'n NetworkRule \<Rightarrow> NetworkAccessRequest \<Rightarrow> bool" where
  "rule_admits ops rule request \<longleftrightarrow>
     matches_host ops rule (nr_host request) (nr_resolved_ip request)
     \<and> matches_port rule (nr_port request) \<and> matches_transport rule (nr_transport request)"

lemma allows_none: "allows_resolved_address ops rule None"
  by (simp add: allows_resolved_address_def)

text \<open>The staged filters accept exactly when one rule fits in every dimension; each stage only
  chooses the reason of a refusal.\<close>

lemma evaluate_rules_Inr:
  "evaluate_rules ops rules request safe = Inr u \<longleftrightarrow>
    (\<exists>rule \<in> set rules. rule_admits ops rule request
      \<and> (safe \<longrightarrow> allows_resolved_address ops rule (nr_resolved_ip request)))"
proof -
  let ?admitted = "filter (\<lambda>rule. rule_admits ops rule request) rules"
  have "evaluate_rules ops rules request safe = Inr u \<longleftrightarrow> ?admitted \<noteq> [] \<and>
      \<not> (safe \<and> nr_resolved_ip request \<noteq> None
        \<and> \<not> list_ex (\<lambda>rule. allows_resolved_address ops rule (nr_resolved_ip request)) ?admitted)"
    unfolding evaluate_rules_def rule_admits_def Let_def filter_filter
    by (simp add: conj_ac) (auto simp: filter_empty_conv)
  also have "\<dots> \<longleftrightarrow> (\<exists>rule \<in> set rules. rule_admits ops rule request
      \<and> (safe \<longrightarrow> allows_resolved_address ops rule (nr_resolved_ip request)))"
    by (cases "nr_resolved_ip request") (auto simp: filter_empty_conv list_ex_iff allows_none)
  finally show ?thesis .
qed

lemma guard_denied_iff:
  "guard_denied ops guard request \<longleftrightarrow> (\<exists>rule \<in> set (ng_deny_rules guard). rule_admits ops rule request)"
proof (cases "evaluate_rules ops (ng_deny_rules guard) request False")
  case (Inl e)
  then show ?thesis using evaluate_rules_Inr [of ops "ng_deny_rules guard" request False "()"]
    by (simp add: guard_denied_def)
next
  case (Inr u)
  then show ?thesis using evaluate_rules_Inr [of ops "ng_deny_rules guard" request False u]
    by (simp add: guard_denied_def)
qed

lemma is_allowed_simps [simp]: "is_allowed (ct_allowed r)" "\<not> is_allowed (ct_denied r)"
  by (simp_all add: is_allowed_def ct_allowed_def ct_denied_def)

lemma ct_from_to [simp]:
  "ct_from (ct_allowed r) = Requested" "ct_to (ct_allowed r) = Allowed"
  "ct_from (ct_denied r) = Requested" "ct_to (ct_denied r) = Denied"
  by (simp_all add: ct_allowed_def ct_denied_def)

lemma match_transition_allowed [simp]: "is_allowed (match_transition r) \<longleftrightarrow> r = Inr ()"
  by (cases r rule: match_transition.cases) auto

text \<open>Whether a capability lets through what no rule mentions.\<close>

fun default_allows :: "NetworkCapability \<Rightarrow> bool" where
  "default_allows Ambient = True"
| "default_allows (Policy DefaultAllow _ _ _) = True"
| "default_allows _ = False"

lemma authorize_network_allowed:
  "is_allowed (authorize_network ops guard request) \<longleftrightarrow>
    \<not> guard_denied ops guard request \<and>
    (is_trusted guard (nr_host request) \<or> default_allows (ng_capability guard)
     \<or> ng_capability guard \<noteq> Deny \<and> (\<exists>rule \<in> set (ng_rules guard). rule_admits ops rule request
          \<and> allows_resolved_address ops rule (nr_resolved_ip request)))"
  by (cases "ng_capability guard")
    (simp_all add: authorize_network_def guard_evaluate_def evaluate_rules_Inr split: NetworkDefaultAction.split)

lemma match_transition_from_to:
  "ct_from (match_transition r) = Requested \<and> ct_to (match_transition r) \<in> {Allowed, Denied}"
  by (cases r rule: match_transition.cases) auto

lemma authorize_network_valid:
  "ct_from (authorize_network ops guard r) = Requested \<and> ct_to (authorize_network ops guard r) \<in> {Allowed, Denied}"
  unfolding authorize_network_def
  by (cases "ng_capability guard"; simp add: match_transition_from_to split: NetworkDefaultAction.split)
     (use match_transition_from_to in blast)+

lemma authorize_model_valid:
  "ct_from (authorize_model p r) = Requested \<and> ct_to (authorize_model p r) \<in> {Allowed, Denied}"
  by (simp add: authorize_model_def Let_def)

lemma policy_authorize_valid:
  "ct_from (policy_authorize ops request) = Requested \<and> ct_to (policy_authorize ops request) \<in> {Allowed, Denied}"
  by (cases request) (simp_all only: policy_authorize_def ControlRequest.case authorize_network_valid authorize_model_valid)

subsection \<open>From declared rules to compiled ones\<close>

definition host_only_rule :: "string \<Rightarrow> NetworkAccessRule" where
  "host_only_rule host = \<lparr>nar_host = host, nar_ports = [], nar_transports = [], nar_allow_private_ips = False\<rparr>"

fun declared_rules :: "NetworkCapability \<Rightarrow> NetworkAccessRule list" where
  "declared_rules (AllowList hosts rules) = map host_only_rule hosts @ rules"
| "declared_rules (Policy _ allow _ _) = allow"
| "declared_rules _ = []"

fun declared_denies :: "NetworkCapability \<Rightarrow> NetworkAccessRule list" where
  "declared_denies (Policy _ _ deny _) = deny"
| "declared_denies _ = []"

lemma parse_network_rule_host_only: "parse_network_rule ops = compile_network_rule ops \<circ> host_only_rule"
  by (simp add: fun_eq_iff parse_network_rule_def host_only_rule_def)

lemma collect_results_set:
  assumes "collect_results f xs = Inr ys"
  shows "y \<in> set ys \<longleftrightarrow> (\<exists>x \<in> set xs. f x = Inr y)"
proof -
  from assms have "map f xs = map Inr ys" by (rule collect_results_Inr [THEN iffD1])
  then have "set (map f xs) = set (map Inr ys)" by (rule arg_cong)
  then have "f ` set xs = Inr ` set ys" unfolding set_map .
  then have "Inr y \<in> f ` set xs \<longleftrightarrow> y \<in> set ys" by auto
  then show ?thesis unfolding image_iff by (metis (no_types))
qed

lemma guard_compile_rules:
  assumes "guard_compile ops capability trusted = Inr guard"
  shows "rule \<in> set (ng_rules guard) \<longleftrightarrow> (\<exists>d \<in> set (declared_rules capability). compile_network_rule ops d = Inr rule)"
    and "rule \<in> set (ng_deny_rules guard) \<longleftrightarrow> (\<exists>d \<in> set (declared_denies capability). compile_network_rule ops d = Inr rule)"
    and "ng_capability guard = capability"
    and "ng_trusted_hosts guard = map normalize_host trusted"
  using assms
  by (auto simp: guard_compile_def parse_network_rule_host_only collect_results_set bex_Un
      split: NetworkCapability.splits rbind_split_asm)

lemma compile_network_rule_Inr:
  "compile_network_rule ops d = Inr rule \<Longrightarrow>
    parse_network_host_rule ops (nar_host d) = Inr (rule_host rule)
    \<and> set (rule_ports rule) = set (nar_ports d) \<and> set (rule_transports rule) = set (nar_transports d)
    \<and> rule_allow_private_ips rule = nar_allow_private_ips d \<and> 0 \<notin> set (nar_ports d)"
  by (cases "parse_network_host_rule ops (nar_host d)")
    (auto simp: compile_network_rule_def split: if_split_asm)

subsection \<open>The life of a request\<close>

inductive machine_step :: "('q \<Rightarrow> ControlTransition) \<Rightarrow> ControlMachine \<Rightarrow> ControlMachine \<Rightarrow> bool" for controller where
  authorized: "machine_authorize controller q m = (r, m') \<Longrightarrow> machine_step controller m m'"
| applied: "machine_applied m = (r, m') \<Longrightarrow> machine_step controller m m'"
| failed: "machine_failed m = (r, m') \<Longrightarrow> machine_step controller m m'"

definition effect_of :: "ControlState \<Rightarrow> AccessEffect" where
  "effect_of s = (if s = Allowed then EffectAllow else EffectDeny)"

text \<open>The three shapes a machine can have: fresh, authorised, and carried out.\<close>

definition machine_ok :: "ControlMachine \<Rightarrow> bool" where
  "machine_ok m \<longleftrightarrow>
    m = machine_new \<or>
    (\<exists>t. ct_from t = Requested \<and> ct_to t \<in> {Allowed, Denied} \<and>
      (m = \<lparr>cm_state = ct_to t, cm_history = [t]\<rparr> \<or>
       (\<exists>final \<in> {Applied (effect_of (ct_to t)), FailedState (effect_of (ct_to t))}.
          m = \<lparr>cm_state = final, cm_history = [t, \<lparr>ct_from = ct_to t, ct_to = final, ct_reason = ct_reason t\<rparr>]\<rparr>)))"

lemma machine_okE:
  assumes "machine_ok m"
  obtains (fresh) "m = machine_new"
  | (decided) t where "ct_from t = Requested" "ct_to t \<in> {Allowed, Denied}" "m = \<lparr>cm_state = ct_to t, cm_history = [t]\<rparr>"
  | (carried_out) t final where "ct_from t = Requested" "ct_to t \<in> {Allowed, Denied}"
      "final \<in> {Applied (effect_of (ct_to t)), FailedState (effect_of (ct_to t))}"
      "m = \<lparr>cm_state = final, cm_history = [t, \<lparr>ct_from = ct_to t, ct_to = final, ct_reason = ct_reason t\<rparr>]\<rparr>"
  using assms unfolding machine_ok_def by blast

lemma machine_authorize_ok:
  assumes "machine_ok m" "machine_authorize controller q m = (r, m')"
  shows "machine_ok m'"
  using assms(1)
proof (cases rule: machine_okE)
  case fresh
  with assms show ?thesis
    by (auto simp: machine_authorize_def machine_commit_def machine_new_def machine_ok_def Let_def split: if_split_asm)
next
  case (decided t)
  with assms have "m' = m" by (auto simp: machine_authorize_def)
  with assms show ?thesis by simp
next
  case (carried_out t final)
  with assms have "m' = m" by (auto simp: machine_authorize_def)
  with assms show ?thesis by simp
qed

lemma machine_follow_ok:
  assumes "machine_ok m" "machine_follow applied m = (r, m')"
  shows "machine_ok m'"
  using assms(1)
proof (cases rule: machine_okE)
  case fresh
  with assms show ?thesis by (simp add: machine_follow_def machine_new_def)
next
  case (decided t)
  then have "machine_follow applied m = (Inr \<lparr>ct_from = ct_to t, ct_to = (if applied then Applied (effect_of (ct_to t))
      else FailedState (effect_of (ct_to t))), ct_reason = ct_reason t\<rparr>,
      \<lparr>cm_state = (if applied then Applied (effect_of (ct_to t)) else FailedState (effect_of (ct_to t))),
       cm_history = [t, \<lparr>ct_from = ct_to t, ct_to = (if applied then Applied (effect_of (ct_to t))
      else FailedState (effect_of (ct_to t))), ct_reason = ct_reason t\<rparr>]\<rparr>)"
    by (auto simp: machine_follow_def follow_def machine_commit_def effect_of_def)
  with assms decided show ?thesis by (auto simp: machine_ok_def)
next
  case (carried_out t final)
  then have "m' = m" using assms(2) by (auto simp: machine_follow_def follow_def)
  with assms show ?thesis by simp
qed

lemma machine_step_ok: "machine_step controller m m' \<Longrightarrow> machine_ok m \<Longrightarrow> machine_ok m'"
  by (induction rule: machine_step.induct)
    (auto simp: machine_applied_def machine_failed_def intro: machine_authorize_ok machine_follow_ok)

text \<open>C25: Whatever the controller answers and in whatever order the methods are called, a request
  is authorised at most once, carried out or failed at most once and only after that, with the
  effect that was authorised and its reason; the current state is the end of the recorded history.\<close>
theorem control_machine_history:
  assumes "(machine_step controller)\<^sup>*\<^sup>* machine_new m"
  shows "machine_ok m"
  using assms by (induction rule: rtranclp_induct) (auto intro: machine_step_ok simp: machine_ok_def [of machine_new])

theorem control_machine_history_witness:
  "machine_ok \<lparr>cm_state = Applied EffectDeny, cm_history =
     [ct_denied NetworkDenied, \<lparr>ct_from = Denied, ct_to = Applied EffectDeny, ct_reason = NetworkDenied\<rparr>]\<rparr>"
proof (rule control_machine_history)
  let ?c = "\<lambda>_ :: unit. ct_denied NetworkDenied"
  have "machine_step ?c machine_new \<lparr>cm_state = Denied, cm_history = [ct_denied NetworkDenied]\<rparr>"
    by (rule machine_step.authorized [of _ "()"]) (simp add: machine_authorize_def machine_new_def machine_commit_def Let_def)
  moreover have "machine_step ?c \<lparr>cm_state = Denied, cm_history = [ct_denied NetworkDenied]\<rparr>
     \<lparr>cm_state = Applied EffectDeny, cm_history =
     [ct_denied NetworkDenied, \<lparr>ct_from = Denied, ct_to = Applied EffectDeny, ct_reason = NetworkDenied\<rparr>]\<rparr>"
    by (rule machine_step.applied) (simp add: machine_applied_def machine_follow_def follow_def machine_commit_def ct_denied_def)
  ultimately show "(machine_step ?c)\<^sup>*\<^sup>* machine_new \<lparr>cm_state = Applied EffectDeny, cm_history =
     [ct_denied NetworkDenied, \<lparr>ct_from = Denied, ct_to = Applied EffectDeny, ct_reason = NetworkDenied\<rparr>]\<rparr>"
    by (rule converse_rtranclp_into_rtranclp [OF _ r_into_rtranclp])
qed

end
