(* ===== verification/IpDisplay.thy ===== *)
theory IpDisplay
  imports IpAddress
begin

section \<open>Printing IP addresses\<close>

text \<open>
  \<open>Display\<close> of \<open>std::net::IpAddr\<close>, used by \<open>persisting-overlaynet/src/policy.rs\<close> to compare resolved
  addresses with bandwidth rules, and the proof that the parser of \<open>IpAddress\<close> reads the printed form again.
\<close>

subsection \<open>Numbers\<close>

definition digit_char :: "int \<Rightarrow> char" where
  "digit_char n = char_of (if n < 10 then nat n + 48 else nat n + 87)"

text \<open>\<open>{}\<close> of an octet and \<open>{:x}\<close> of a segment: no leading zeros. Both fit four digits.\<close>

fun digits_of :: "nat \<Rightarrow> int \<Rightarrow> int \<Rightarrow> int list" where
  "digits_of 0 radix n = []"
| "digits_of (Suc k) radix n = (if n < radix then [n] else digits_of k radix (n div radix) @ [n mod radix])"

definition show_number :: "int \<Rightarrow> int \<Rightarrow> string" where
  "show_number radix n = map digit_char (digits_of 4 radix n)"

definition show_octet :: "u8 \<Rightarrow> string" where
  "show_octet o8 = show_number 10 (uint o8)"

definition show_v4 :: "u8 \<Rightarrow> u8 \<Rightarrow> u8 \<Rightarrow> u8 \<Rightarrow> string" where
  "show_v4 a b c d = show_octet a @ ''.'' @ show_octet b @ ''.'' @ show_octet c @ ''.'' @ show_octet d"

definition show_segment :: "u16 \<Rightarrow> string" where
  "show_segment s = show_number 16 (uint s)"

subsection \<open>Segments\<close>

text \<open>\<open>fmt_subslice\<close>: the segments of a slice with colons between them.\<close>

fun fmt_subslice :: "u16 list \<Rightarrow> string" where
  "fmt_subslice [] = []"
| "fmt_subslice [s] = show_segment s"
| "fmt_subslice (s # ss) = show_segment s @ '':'' @ fmt_subslice ss"

text \<open>The first longest run of zero segments, as start and length; the second pair is the current run.\<close>

fun zero_span :: "nat \<Rightarrow> u16 list \<Rightarrow> nat \<times> nat \<Rightarrow> nat \<times> nat \<Rightarrow> nat \<times> nat" where
  "zero_span i [] longest current = longest"
| "zero_span i (s # ss) longest current =
    (if s = 0 then
       (let current = (if snd current = 0 then i else fst current, snd current + 1)
        in zero_span (i + 1) ss (if snd longest < snd current then current else longest) current)
     else zero_span (i + 1) ss longest (0, 0))"

definition fmt_segments :: "u16 list \<Rightarrow> string" where
  "fmt_segments segments =
    (case zero_span 0 segments (0, 0) (0, 0) of (start, len) \<Rightarrow>
       if 1 < len then fmt_subslice (take start segments) @ ''::'' @ fmt_subslice (drop (start + len) segments)
       else fmt_subslice segments)"

definition ip_to_string :: "IpAddr \<Rightarrow> string" where
  "ip_to_string ip =
    (case ip of
       V4 a b c d \<Rightarrow> show_v4 a b c d
     | V6 s0 s1 s2 s3 s4 s5 s6 s7 \<Rightarrow>
        (case to_ipv4_mapped ip of
           Some (V4 a b c d) \<Rightarrow> ''::ffff:'' @ show_v4 a b c d
         | _ \<Rightarrow> fmt_segments [s0, s1, s2, s3, s4, s5, s6, s7]))"

subsection \<open>Reading printed numbers\<close>

definition stops :: "int \<Rightarrow> string \<Rightarrow> bool" where
  "stops radix r \<longleftrightarrow> r = [] \<or> digit_value radix (hd r) = None"

lemma digit_value_char:
  assumes "0 \<le> n" "n < radix" "radix \<le> 16"
  shows "digit_value radix (digit_char n) = Some n"
proof -
  from assms have "n \<in> set [0..15]" by auto
  moreover have "\<forall>m \<in> set [0..15]. digit_value 16 (digit_char m) = Some m" by code_simp
  ultimately have "digit_value 16 (digit_char n) = Some n" by blast
  with assms show ?thesis
    by (auto simp: digit_value_def Let_def split: if_split_asm option.split_asm)
qed

lemma digits_prefix_show:
  assumes "\<forall>d \<in> set ds. 0 \<le> d \<and> d < radix" "radix \<le> 16" "stops radix r"
  shows "digits_prefix radix (map digit_char ds @ r) = (ds, r)"
  using assms
proof (induction ds)
  case Nil
  then show ?case by (cases r) (auto simp: stops_def)
next
  case (Cons d ds)
  then show ?case by (simp add: digit_value_char)
qed

lemma div_radix:
  assumes "2 \<le> (radix :: int)" "0 \<le> n"
  shows "0 \<le> n div radix" and "n < radix * b \<Longrightarrow> n div radix < b"
proof -
  show "0 \<le> n div radix" using assms by (intro pos_imp_zdiv_nonneg_iff [THEN iffD2]) auto
  have "radix * (n div radix) = n - n mod radix" by (simp add: minus_mod_eq_mult_div)
  moreover have "0 \<le> n mod radix" using assms by simp
  ultimately have le: "radix * (n div radix) \<le> n" by linarith
  assume "n < radix * b"
  with le have "radix * (n div radix) < radix * b" by linarith
  with assms show "n div radix < b" by simp
qed

lemma digits_of_range:
  "2 \<le> radix \<Longrightarrow> 0 \<le> n \<Longrightarrow> \<forall>d \<in> set (digits_of k radix n). 0 \<le> d \<and> d < radix"
  by (induction k arbitrary: n) (auto dest: div_radix(1))

lemma digits_of_value:
  "2 \<le> radix \<Longrightarrow> 0 \<le> n \<Longrightarrow> n < radix ^ k \<Longrightarrow> foldl (\<lambda>v d. v * radix + d) 0 (digits_of k radix n) = n"
proof (induction k arbitrary: n)
  case (Suc k)
  have "n div radix < radix ^ k" "0 \<le> n div radix" using Suc.prems by (auto intro: div_radix)
  then show ?case using Suc.prems Suc.IH [of "n div radix"] by auto
qed simp

lemma digits_of_length:
  "2 \<le> radix \<Longrightarrow> 0 \<le> n \<Longrightarrow> n < radix ^ m \<Longrightarrow> 0 < m \<Longrightarrow> length (digits_of k radix n) \<le> m"
proof (induction k arbitrary: n m)
  case (Suc k)
  show ?case
  proof (cases "n < radix")
    case False
    with Suc.prems obtain m' where m: "m = Suc m'" "0 < m'" by (cases m; cases "m - 1") auto
    with Suc.prems have "n div radix < radix ^ m'" "0 \<le> n div radix" by (auto intro: div_radix)
    with Suc.IH [of "n div radix" m'] Suc.prems m False show ?thesis by simp
  qed (use Suc.prems in simp)
qed simp

lemma digits_of_head:
  "2 \<le> radix \<Longrightarrow> 0 \<le> n \<Longrightarrow> n < radix ^ k \<Longrightarrow>
    digits_of k radix n \<noteq> [] \<or> k = 0"
  by (cases k) auto

lemma digits_of_0: "0 < k \<Longrightarrow> 0 < radix \<Longrightarrow> digits_of k radix 0 = [0]"
  by (cases k) auto

lemma digits_of_no_zero_prefix:
  "2 \<le> radix \<Longrightarrow> 0 < n \<Longrightarrow> n < radix ^ k \<Longrightarrow> hd (digits_of k radix n) \<noteq> 0"
proof (induction k arbitrary: n)
  case (Suc k)
  show ?case
  proof (cases "n < radix")
    case False
    with Suc.prems have d: "0 < n div radix" "n div radix < radix ^ k"
      by (auto simp: pos_imp_zdiv_pos_iff intro: div_radix)
    then have "digits_of k radix (n div radix) \<noteq> []" using digits_of_head [of radix "n div radix" k] Suc.prems
      by auto
    with Suc.IH [OF Suc.prems(1) d] False show ?thesis by simp
  qed (use Suc.prems in simp)
qed simp

lemma read_number_show:
  assumes "2 \<le> radix" "radix \<le> 16" "0 \<le> n" "n < bound" "bound \<le> radix ^ m" "0 < m" "m \<le> 4" "stops radix r"
  shows "read_number radix m allow bound (show_number radix n @ r) = Some (n, r)"
proof -
  let ?ds = "digits_of 4 radix n"
  from assms have m: "n < radix ^ m" by linarith
  also have "\<dots> \<le> radix ^ 4" using assms by (intro power_increasing) auto
  finally have n4: "n < radix ^ 4" .
  have "digits_prefix radix (show_number radix n @ r) = (?ds, r)"
    unfolding show_number_def using assms digits_of_range [of radix n 4] by (intro digits_prefix_show) auto
  moreover have "?ds \<noteq> []" using digits_of_head [of radix n 4] assms n4 by simp
  moreover have "length ?ds \<le> m" using assms m by (intro digits_of_length) auto
  moreover have "foldl (\<lambda>v d. v * radix + d) 0 ?ds = n" using assms n4 by (intro digits_of_value) auto
  moreover have "\<not> (hd ?ds = 0 \<and> 1 < length ?ds)"
  proof (cases "n = 0")
    case True
    then show ?thesis using assms digits_of_0 [of 4 radix] by simp
  next
    case False
    then show ?thesis using digits_of_no_zero_prefix [of radix n 4] assms n4 by simp
  qed
  ultimately show ?thesis using assms(4) unfolding read_number_def Let_def by simp
qed

subsection \<open>Reading printed addresses\<close>

lemma stops_sep [simp]: "stops radix []" "stops 10 (CHR ''.'' # r)" "stops 16 (CHR '':'' # r)" "stops 10 (CHR '':'' # r)"
  unfolding stops_def list.sel by (simp, (rule disjI2, code_simp)+)

lemma read_octet_show: "stops 10 r \<Longrightarrow> read_octet (show_octet o8 @ r) = Some (uint o8, r)"
  using uint_lt2p [of o8] unfolding read_octet_def show_octet_def
  by (intro read_number_show) auto

lemma read_ipv4_show:
  "stops 10 r \<Longrightarrow> read_ipv4_addr (show_v4 a b c d @ r) = Some ((uint a, uint b, uint c, uint d), r)"
  by (simp add: read_ipv4_addr_def show_v4_def read_octet_show read_given_char_def)

lemma read_segment_show:
  "stops 16 r \<Longrightarrow> read_number 16 4 True 65536 (show_segment g @ r) = Some (uint g, r)"
  using uint_lt2p [of g] unfolding show_segment_def by (intro read_number_show) auto

lemma digits_prefix_suffix: "digits_prefix radix s = (ds, t) \<Longrightarrow> set t \<subseteq> set s"
  by (induction s arbitrary: ds t) (auto split: option.split_asm prod.split_asm)

lemma read_octet_suffix: "read_octet s = Some (n, t) \<Longrightarrow> set t \<subseteq> set s"
  using digits_prefix_suffix [of 10 s]
  by (auto simp: read_octet_def read_number_def Let_def split: prod.split_asm if_split_asm)

lemma read_ipv4_no_dot:
  assumes "CHR ''.'' \<notin> set s"
  shows "read_ipv4_addr s = None"
proof (cases "read_octet s")
  case (Some p)
  obtain a t where p: "p = (a, t)" by (cases p)
  with Some have "set t \<subseteq> set s" using read_octet_suffix by blast
  with assms have "read_given_char (CHR ''.'') t = None"
    by (cases t) (auto simp: read_given_char_def)
  with Some p show ?thesis by (simp add: read_ipv4_addr_def)
qed (simp add: read_ipv4_addr_def)

lemma read_number_stops: "stops radix s \<Longrightarrow> read_number radix m allow bound s = None"
  by (cases s) (auto simp: stops_def read_number_def Let_def)

lemma show_segment_chars: "x \<in> set (show_segment g) \<Longrightarrow> \<exists>n. digit_value 16 x = Some n"
  unfolding show_segment_def show_number_def
  using digits_of_range [of 16 "uint g" 4] digit_value_char [of _ 16] by fastforce

lemma show_segment_no_dot [simp]: "CHR ''.'' \<notin> set (show_segment g)"
proof
  assume "CHR ''.'' \<in> set (show_segment g)"
  then obtain n where "digit_value 16 (CHR ''.'') = Some n" using show_segment_chars by blast
  moreover have "digit_value 16 (CHR ''.'') = None" by code_simp
  ultimately show False by simp
qed

text \<open>What may follow the printed groups: nothing, or the double colon.\<close>

definition group_end :: "string \<Rightarrow> bool" where
  "group_end r \<longleftrightarrow> CHR ''.'' \<notin> set r \<and> (r = [] \<or> (\<exists>t. r = ''::'' @ t))"

definition sep_groups :: "u16 list \<Rightarrow> string" where
  "sep_groups gs = concat (map (\<lambda>g. CHR '':'' # show_segment g) gs)"

lemma fmt_subslice_sep: "fmt_subslice (g # gs) = show_segment g @ sep_groups gs"
  by (induction gs arbitrary: g) (auto simp: sep_groups_def)

lemma sep_groups_no_dot [simp]: "CHR ''.'' \<notin> set (sep_groups gs)"
  by (induction gs) (auto simp: sep_groups_def)

lemma sep_groups_stops: "group_end r \<Longrightarrow> stops 16 (sep_groups gs @ r)"
  by (cases gs) (auto simp: sep_groups_def group_end_def)

lemma read_groups_end:
  assumes "group_end r"
  shows "read_groups i n r = ([], False, r)"
proof (cases n)
  case (Suc left)
  have "stops 16 t \<and> CHR ''.'' \<notin> set t" if "after_separator i r = Some t" for t
    using assms that by (auto simp: after_separator_def read_given_char_def group_end_def split: if_split_asm)
  then show ?thesis using Suc
    by (cases "after_separator i r") (simp_all add: read_ipv4_no_dot read_number_stops)
qed simp

lemma read_groups_sep:
  "group_end r \<Longrightarrow> length gs \<le> n \<Longrightarrow> 0 < i \<Longrightarrow>
    read_groups i n (sep_groups gs @ r) = (map uint gs, False, r)"
proof (induction gs arbitrary: i n)
  case Nil
  then show ?case by (simp add: sep_groups_def read_groups_end)
next
  case (Cons g gs)
  then obtain left where n: "n = Suc left" "length gs \<le> left" by (cases n) auto
  have txt_eq: "sep_groups (g # gs) @ r = CHR '':'' # show_segment g @ sep_groups gs @ r"
    by (simp add: sep_groups_def)
  have "CHR ''.'' \<notin> set (show_segment g @ sep_groups gs @ r)" using Cons.prems by (auto simp: group_end_def)
  with Cons n show ?case unfolding txt_eq
    by (simp add: after_separator_def read_given_char_def read_ipv4_no_dot read_segment_show sep_groups_stops)
qed

lemma read_groups_fmt:
  assumes "group_end r" "length gs \<le> n"
  shows "read_groups 0 n (fmt_subslice gs @ r) = (map uint gs, False, r)"
proof (cases gs)
  case Nil
  then show ?thesis using assms by (simp add: read_groups_end)
next
  case (Cons g ss)
  with assms obtain left where n: "n = Suc left" "length ss \<le> left" by (cases n) auto
  have "CHR ''.'' \<notin> set (show_segment g @ sep_groups ss @ r)" using assms by (auto simp: group_end_def)
  with assms n Cons show ?thesis
    by (simp add: fmt_subslice_sep after_separator_def read_ipv4_no_dot read_segment_show sep_groups_stops
        read_groups_sep)
qed

text \<open>The span found consists of zero segments.\<close>

definition zeros_at :: "u16 list \<Rightarrow> nat \<times> nat \<Rightarrow> bool" where
  "zeros_at gs sp \<longleftrightarrow> snd sp = 0 \<or> fst sp + snd sp \<le> length gs \<and> (\<forall>j. fst sp \<le> j \<and> j < fst sp + snd sp \<longrightarrow> gs ! j = 0)"

lemma zeros_at_append: "zeros_at gs sp \<Longrightarrow> zeros_at (gs @ hs) sp"
  by (auto simp: zeros_at_def nth_append)

lemma zero_span_zeros:
  assumes "zeros_at pre longest" "zeros_at pre current" "snd current = 0 \<or> fst current + snd current = length pre"
  shows "zeros_at (pre @ gs) (zero_span (length pre) gs longest current)"
  using assms
proof (induction gs arbitrary: pre longest current)
  case Nil
  then show ?case by simp
next
  case (Cons g gs)
  note IH = Cons.IH [of "pre @ [g]"]
  show ?case
  proof (cases "g = 0")
    case True
    define cur where "cur = (if snd current = 0 then length pre else fst current, snd current + 1)"
    have cur: "zeros_at (pre @ [g]) cur" "fst cur + snd cur = length (pre @ [g])"
      using Cons.prems True by (auto simp: cur_def zeros_at_def nth_append)
    have "zeros_at (pre @ [g]) (if snd longest < snd cur then cur else longest)"
      using Cons.prems(1) cur(1) zeros_at_append by simp
    moreover have "zero_span (length pre) (g # gs) longest current =
        zero_span (length (pre @ [g])) gs (if snd longest < snd cur then cur else longest) cur"
      using True by (simp add: Let_def cur_def)
    ultimately show ?thesis using IH [OF _ cur(1) disjI2 [OF cur(2)]] by simp
  next
    case False
    have "zeros_at (pre @ [g]) longest" using Cons.prems(1) zeros_at_append by simp
    moreover have "zeros_at (pre @ [g]) (0, 0)" by (simp add: zeros_at_def)
    ultimately show ?thesis using IH [of longest "(0, 0)"] False by simp
  qed
qed

lemma zeros_at_split:
  assumes "zeros_at gs (start, len)" "0 < len"
  shows "gs = take start gs @ replicate len 0 @ drop (start + len) gs"
proof -
  have "take len (drop start gs) = replicate len 0"
    using assms by (intro nth_equalityI) (auto simp: zeros_at_def)
  then show ?thesis by (metis append_take_drop_id drop_drop add.commute)
qed

lemma fmt_subslice_no_dot [simp]: "CHR ''.'' \<notin> set (fmt_subslice gs)"
  by (cases gs) (auto simp: fmt_subslice_sep)

lemma read_ipv6_fmt:
  assumes len8: "length gs = 8"
  shows "read_ipv6_addr (fmt_segments gs) = Some (map uint gs, [])"
proof -
  obtain start len where sp: "zero_span 0 gs (0, 0) (0, 0) = (start, len)" by (cases "zero_span 0 gs (0, 0) (0, 0)")
  have e: "group_end []" by (simp add: group_end_def)
  show ?thesis
  proof (cases "1 < len")
    case False
    then show ?thesis using read_groups_fmt [OF e, of gs 8] len8 sp
      by (simp add: fmt_segments_def read_ipv6_addr_def)
  next
    case True
    define front and rear where "front = take start gs" and "rear = drop (start + len) gs"
    have z: "zeros_at gs (start, len)" using zero_span_zeros [of "[]" "(0, 0)" "(0, 0)" gs] sp by (simp add: zeros_at_def)
    then have gs: "gs = front @ replicate len 0 @ rear" unfolding front_def rear_def using True by (intro zeros_at_split) auto
    have ge: "group_end (''::'' @ fmt_subslice rear)" by (auto simp: group_end_def)
    from gs have l: "length front + len + length rear = 8" using len8 by (metis length_append length_replicate add.assoc)
    then have "read_groups 0 8 (fmt_subslice front @ ''::'' @ fmt_subslice rear) = (map uint front, False, ''::'' @ fmt_subslice rear)"
      by (intro read_groups_fmt ge) simp
    moreover have "read_groups 0 (7 - length front) (fmt_subslice rear) = (map uint rear, False, [])"
      using read_groups_fmt [OF e, of rear "7 - length front"] l True by simp
    moreover have "map uint gs = map uint front @ replicate (8 - length front - length rear) 0 @ map uint rear"
      using l by (subst gs) (simp add: map_replicate_const)
    ultimately show ?thesis using True sp l
      by (simp add: fmt_segments_def read_ipv6_addr_def read_given_char_def front_def rear_def)
  qed
qed

lemma of_int_uint_word [simp]: "of_int (uint w) = (w :: 'a::len word)"
  by simp

lemma halves_of_segment:
  "of_int (uint (ucast (drop_bit 8 s) :: u8) * 256 + uint (ucast s :: u8)) = (s :: u16)"
proof -
  have "uint (ucast (drop_bit 8 s) :: u8) = uint s div 256"
    using div_radix(1) [of 256 "uint s"] div_radix(2) [of 256 "uint s" 256] uint_lt2p [of s]
    by (simp add: unsigned_ucast_eq take_bit_eq_mod drop_bit_eq_div uint_div)
  moreover have "uint (ucast s :: u8) = uint s mod 256"
    by (simp add: unsigned_ucast_eq take_bit_eq_mod)
  ultimately have "uint (ucast (drop_bit 8 s) :: u8) * 256 + uint (ucast s :: u8) = uint s" by simp
  then show ?thesis by simp
qed

lemma fmt_segments_no_dot: "CHR ''.'' \<notin> set (fmt_segments gs)"
  by (auto simp: fmt_segments_def split: prod.split)

lemma parse_ip_segments:
  "parse_ip (fmt_segments [s0, s1, s2, s3, s4, s5, s6, s7]) = Some (V6 s0 s1 s2 s3 s4 s5 s6 s7)"
  by (simp add: parse_ip_def read_ipv4_no_dot fmt_segments_no_dot read_ipv6_fmt)

lemma parse_ip_v4: "parse_ip (show_v4 a b c d) = Some (V4 a b c d)"
  using read_ipv4_show [of "[]" a b c d] by (simp add: parse_ip_def)

lemma read_groups_mapped:
  "read_groups 0 7 (''ffff:'' @ show_v4 a b c d) =
    ([65535, uint a * 256 + uint b, uint c * 256 + uint d], True, [])"
proof -
  have "digits_prefix 16 (''ffff:'' @ r) = ([15, 15, 15, 15], CHR '':'' # r)" for r
    by (simp add: digit_value_def)
  then have number: "read_number 16 4 True 65536 (''ffff:'' @ r) = Some (65535, CHR '':'' # r)" for r
    by (simp add: read_number_def)
  have "digits_prefix 10 (''ffff:'' @ r) = ([], ''ffff:'' @ r)" for r
    by (simp add: digit_value_def)
  then have "read_octet (''ffff:'' @ r) = None" for r
    by (simp add: read_octet_def read_number_def)
  then have no4: "read_ipv4_addr (''ffff:'' @ r) = None" for r
    by (simp add: read_ipv4_addr_def)
  have "read_groups 1 6 (CHR '':'' # show_v4 a b c d) = ([uint a * 256 + uint b, uint c * 256 + uint d], True, [])"
    using read_ipv4_show [of "[]" a b c d] by (simp add: eval_nat_numeral after_separator_def read_given_char_def)
  then show ?thesis using number no4
    by (simp add: eval_nat_numeral after_separator_def)
qed

lemma parse_ip_mapped:
  "parse_ip (''::ffff:'' @ show_v4 (ucast (drop_bit 8 s6)) (ucast s6) (ucast (drop_bit 8 s7)) (ucast s7))
    = Some (V6 0 0 0 0 0 0xffff s6 s7)"
proof -
  let ?v4 = "show_v4 (ucast (drop_bit 8 s6)) (ucast s6) (ucast (drop_bit 8 s7)) (ucast s7)"
  have stop: "stops radix (CHR '':'' # r)" for radix r by (simp add: stops_def digit_value_def)
  have "read_ipv4_addr (''::ffff:'' @ ?v4) = None"
    by (simp add: read_ipv4_addr_def read_octet_def read_number_stops stop)
  moreover from this have "read_groups 0 8 (''::ffff:'' @ ?v4) = ([], False, ''::ffff:'' @ ?v4)"
    by (simp add: eval_nat_numeral after_separator_def read_number_stops stop)
  moreover have "read_groups 0 7 (''ffff:'' @ ?v4) =
     ([65535, uint (ucast (drop_bit 8 s6) :: u8) * 256 + uint (ucast s6 :: u8),
       uint (ucast (drop_bit 8 s7) :: u8) * 256 + uint (ucast s7 :: u8)], True, [])"
    by (rule read_groups_mapped)
  ultimately show ?thesis
    using halves_of_segment [of s6] halves_of_segment [of s7]
    by (simp add: parse_ip_def read_ipv6_addr_def read_given_char_def eval_nat_numeral)
qed

lemma parse_ip_display: "parse_ip (ip_to_string ip) = Some ip"
proof (cases ip)
  case (V4 a b c d)
  then show ?thesis by (simp add: ip_to_string_def parse_ip_v4)
next
  case (V6 s0 s1 s2 s3 s4 s5 s6 s7)
  then show ?thesis
    by (auto simp: ip_to_string_def parse_ip_segments parse_ip_mapped simp del: append.simps)
qed

subsection \<open>Characters of a printed address\<close>

definition ip_chars :: string where
  "ip_chars = ''0123456789abcdef.:''"

lemma digit_char_ip: "0 \<le> n \<Longrightarrow> n < 16 \<Longrightarrow> digit_char n \<in> set ip_chars \<and> digit_char n \<noteq> CHR ''.''"
proof -
  assume "0 \<le> n" "n < 16"
  then have "n \<in> set [0..15]" by auto
  moreover have "\<forall>m \<in> set [0..15]. digit_char m \<in> set ip_chars \<and> digit_char m \<noteq> CHR ''.''" by code_simp
  ultimately show ?thesis by blast
qed

lemma show_number_ip:
  "2 \<le> radix \<Longrightarrow> radix \<le> 16 \<Longrightarrow> 0 \<le> n \<Longrightarrow>
    set (show_number radix n) \<subseteq> set ip_chars - {CHR ''.''} \<and> show_number radix n \<noteq> []"
proof -
  assume r: "2 \<le> radix" "radix \<le> 16" "0 \<le> n"
  have "digit_char d \<in> set ip_chars - {CHR ''.''}" if "d \<in> set (digits_of 4 radix n)" for d
    using digits_of_range [OF r(1,3), of 4] that r(2) digit_char_ip [of d] by auto
  moreover have "digits_of 4 radix n \<noteq> []" by (simp add: numeral_eq_Suc)
  ultimately show ?thesis by (auto simp: show_number_def)
qed

lemma show_octet_ip: "set (show_octet b) \<subseteq> set ip_chars - {CHR ''.''}" "show_octet b \<noteq> []"
  using show_number_ip [of 10 "uint b"] by (simp_all add: show_octet_def)

lemma show_segment_ip: "set (show_segment b) \<subseteq> set ip_chars - {CHR ''.''}" "show_segment b \<noteq> []"
  using show_number_ip [of 16 "uint b"] by (simp_all add: show_segment_def)

lemma sep_chars_ip [simp]: "CHR ''.'' \<in> set ip_chars" "CHR '':'' \<in> set ip_chars" "CHR ''f'' \<in> set ip_chars"
  by (simp_all add: ip_chars_def)

lemma last_in: "xs \<noteq> [] \<Longrightarrow> set xs \<subseteq> S - {x} \<Longrightarrow> last xs \<noteq> x"
  using last_in_set by fastforce

lemma show_v4_ip: "set (show_v4 a b c d) \<subseteq> set ip_chars" "show_v4 a b c d \<noteq> []" "last (show_v4 a b c d) \<noteq> CHR ''.''"
  using show_octet_ip [of a] show_octet_ip [of b] show_octet_ip [of c] show_octet_ip [of d] last_in [OF show_octet_ip(2,1), of d]
  by (auto simp: show_v4_def)

lemma fmt_subslice_ip: "set (fmt_subslice gs) \<subseteq> set ip_chars - {CHR ''.''}"
  using show_segment_ip(1) by (induction gs rule: fmt_subslice.induct) auto

lemma fmt_subslice_nonempty: "gs \<noteq> [] \<Longrightarrow> fmt_subslice gs \<noteq> []"
  by (cases gs rule: fmt_subslice.cases) (auto simp: show_segment_ip)

lemma fmt_segments_ip: "gs \<noteq> [] \<Longrightarrow> set (fmt_segments gs) \<subseteq> set ip_chars - {CHR ''.''} \<and> fmt_segments gs \<noteq> []"
  using fmt_subslice_ip by (auto simp: fmt_segments_def fmt_subslice_nonempty split: prod.split)

lemma ip_to_string_ip:
  "set (ip_to_string ip) \<subseteq> set ip_chars \<and> ip_to_string ip \<noteq> [] \<and> last (ip_to_string ip) \<noteq> CHR ''.''"
proof (cases ip)
  case (V4 a b c d)
  then show ?thesis using show_v4_ip by (simp add: ip_to_string_def)
next
  case (V6 s0 s1 s2 s3 s4 s5 s6 s7)
  then show ?thesis
    using fmt_segments_ip [of "[s0, s1, s2, s3, s4, s5, s6, s7]"] last_in [of "fmt_segments [s0, s1, s2, s3, s4, s5, s6, s7]"] show_v4_ip
    by (auto simp: ip_to_string_def)
qed

end
