(* ===== verification/EgressPolicy.thy ===== *)
theory EgressPolicy
  imports NetworkPolicy IpDisplay
begin

section \<open>Egress authorisation of the overlay network\<close>

text \<open>
  \<open>persisting-overlaynet\<close>: the network configuration and its compilation (\<open>policy.rs\<close>), the
  authorisation of a logical target and of each address it resolves to (\<open>resolver.rs\<close>). Name
  resolution is the parameter \<open>lookup_host\<close>. An injected controller is a function of the request;
  the \<open>expect\<close> on its transition is the error value \<open>EgressPanic\<close>.
\<close>

subsection \<open>Configuration\<close>

datatype NetworkMode = Public | NoNetwork | Allowlist

record NetworkConfig =
  nc_mode :: NetworkMode
  nc_allowed_hosts :: "string list"
  nc_rules :: "NetworkAccessRule list"
  nc_deny_rules :: "NetworkAccessRule list"
  nc_limits :: "NetworkBandwidthLimit list"

record 'n CompiledBandwidthLimit =
  cl_matcher :: "'n NetworkRule option"
  cl_config :: NetworkBandwidthLimit

record 'n NetworkPolicy =
  np_mode :: NetworkMode
  np_guard :: "'n NetworkGuard"
  np_limits :: "'n CompiledBandwidthLimit list"

datatype policy_error = AllowEntriesWithoutAllowlist | BadRule rule_error | ZeroRate | ZeroPort

definition network_capability :: "NetworkConfig \<Rightarrow> NetworkCapability" where
  "network_capability network =
    (if nc_mode network = NoNetwork then Deny
     else if nc_deny_rules network = [] \<and> nc_limits network = []
     then (case nc_mode network of
             Allowlist \<Rightarrow> AllowList (nc_allowed_hosts network) (nc_rules network)
           | _ \<Rightarrow> Ambient)
     else Policy (case nc_mode network of Public \<Rightarrow> DefaultAllow | _ \<Rightarrow> DefaultDeny)
       (nc_rules network @ map host_only_rule (nc_allowed_hosts network))
       (nc_deny_rules network) (nc_limits network))"

definition compile_limit ::
  "'n ipnet_ops \<Rightarrow> NetworkBandwidthLimit \<Rightarrow> policy_error + 'n CompiledBandwidthLimit" where
  "compile_limit ops config =
    (if nbl_bytes_per_second config = 0 then Inl ZeroRate
     else if nbl_port config = Some 0 then Inl ZeroPort
     else case nbl_host config of
       None \<Rightarrow> Inr \<lparr>cl_matcher = None, cl_config = config\<rparr>
     | Some host \<Rightarrow>
        (case parse_network_rule ops host of
           Inl e \<Rightarrow> Inl (BadRule e)
         | Inr rule \<Rightarrow> Inr \<lparr>cl_matcher = Some rule, cl_config = config\<rparr>))"

definition policy_compile :: "'n ipnet_ops \<Rightarrow> NetworkConfig \<Rightarrow> policy_error + 'n NetworkPolicy" where
  "policy_compile ops network =
    (if \<not> (nc_mode network = Allowlist \<or> nc_allowed_hosts network = [] \<and> nc_rules network = [])
     then Inl AllowEntriesWithoutAllowlist
     else case guard_compile ops (network_capability network) [] of
       Inl e \<Rightarrow> Inl (BadRule e)
     | Inr guard \<Rightarrow>
        rbind (collect_results (compile_limit ops) (nc_limits network)) (\<lambda>limits.
          Inr \<lparr>np_mode = nc_mode network, np_guard = guard, np_limits = limits\<rparr>))"

subsection \<open>Authorisation\<close>

datatype DenyReason =
    ReasonNoNetwork | ReasonAllowlistEmpty | ReasonNotInAllowlist | ReasonPortNotAllowed
  | ReasonTransportNotAllowed | ReasonResolvedAddressNotAllowed | ReasonExplicitDeny

datatype egress_error = EgressPanic | EgressDenied DenyReason

fun deny_reason :: "AccessReason \<Rightarrow> DenyReason" where
  "deny_reason NetworkDenied = ReasonNoNetwork"
| "deny_reason NetworkAllowListEmpty = ReasonAllowlistEmpty"
| "deny_reason PortNotAllowed = ReasonPortNotAllowed"
| "deny_reason TransportNotAllowed = ReasonTransportNotAllowed"
| "deny_reason ResolvedAddressNotAllowed = ReasonResolvedAddressNotAllowed"
| "deny_reason ExplicitlyDenied = ReasonExplicitDeny"
| "deny_reason _ = ReasonNotInAllowlist"

type_synonym 'n controller = "'n ControlRequest \<Rightarrow> ControlTransition"

definition authorize_egress ::
  "'n controller \<Rightarrow> 'n NetworkPolicy \<Rightarrow> NetworkAccessRequest \<Rightarrow> egress_error + unit" where
  "authorize_egress controller policy request =
    (case fst (machine_authorize controller (NetworkRequest (np_guard policy) request) machine_new) of
       Inl _ \<Rightarrow> Inl EgressPanic
     | Inr transition \<Rightarrow>
        if is_allowed transition then Inr () else Inl (EgressDenied (deny_reason (ct_reason transition))))"

definition preflight where
  "preflight ops policy request = authorize_egress (policy_authorize ops) policy request"

definition policy_check ::
  "'n ipnet_ops \<Rightarrow> 'n controller \<Rightarrow> 'n NetworkPolicy \<Rightarrow> NetworkAccessRequest \<Rightarrow> egress_error + unit" where
  "policy_check ops controller policy request =
    rbind (preflight ops policy request) (\<lambda>_. authorize_egress controller policy request)"

definition host_matches :: "'n ipnet_ops \<Rightarrow> string \<Rightarrow> 'n NetworkRule list \<Rightarrow> bool" where
  "host_matches ops host rules = list_ex (\<lambda>rule. matches_host ops rule host None) rules"

record SocketAddr =
  sa_ip :: IpAddr
  sa_port :: u16
  sa_flowinfo :: u32
  sa_scope_id :: u32

definition limit_matches ::
  "'n ipnet_ops \<Rightarrow> string \<Rightarrow> u16 option \<Rightarrow> SocketAddr list \<Rightarrow> 'n CompiledBandwidthLimit \<Rightarrow> bool" where
  "limit_matches ops host port resolved limit \<longleftrightarrow>
    (case nbl_port (cl_config limit) of None \<Rightarrow> True | Some expected \<Rightarrow> port = Some expected) \<and>
    (case cl_matcher limit of
       None \<Rightarrow> True
     | Some matcher \<Rightarrow>
        host_matches ops host [matcher]
        \<or> list_ex (\<lambda>address. host_matches ops (ip_to_string (sa_ip address)) [matcher]) resolved)"

definition matching_limits ::
  "'n ipnet_ops \<Rightarrow> 'n NetworkPolicy \<Rightarrow> string \<Rightarrow> u16 option \<Rightarrow> SocketAddr list \<Rightarrow> NetworkBandwidthLimit list" where
  "matching_limits ops policy host port resolved =
    map cl_config (filter (limit_matches ops host port resolved) (np_limits policy))"

definition host_from_authority :: "string \<Rightarrow> string" where
  "host_from_authority raw =
    (let authority = trim raw;
         bracketed = Option.bind (strip_prefix authority ''['')
           (\<lambda>rest. if CHR '']'' \<in> set rest then Some (normalize_host (takeWhile (\<lambda>c. c \<noteq> CHR '']'') rest)) else None)
     in case bracketed of
       Some host \<Rightarrow> host
     | None \<Rightarrow>
        (case rsplit_colon authority of
           Some (host, port) \<Rightarrow>
             if host \<noteq> [] \<and> list_all is_ascii_digit port then normalize_host host else normalize_host authority
         | None \<Rightarrow> normalize_host authority))"

subsection \<open>Resolution\<close>

datatype ResolvedAddressPolicy = Strict | HostConnectorAliases

datatype lookup_result = LookupTimeout | LookupFailed | LookupAddresses "SocketAddr list"

record AuthorizedTarget =
  at_host :: string
  at_addresses :: "SocketAddr list"

datatype target_error = TargetPanic | TargetDenied DenyReason | TargetResolve

definition target_error_of :: "egress_error \<Rightarrow> target_error" where
  "target_error_of e = (case e of EgressPanic \<Rightarrow> TargetPanic | EgressDenied r \<Rightarrow> TargetDenied r)"

fun is_alias_address :: "IpAddr \<Rightarrow> bool" where
  "is_alias_address (V4 a b c d) \<longleftrightarrow> a = 198 \<and> (b = 18 \<or> b = 19)"
| "is_alias_address _ \<longleftrightarrow> False"

definition is_host_connector_alias :: "string \<Rightarrow> IpAddr \<Rightarrow> bool" where
  "is_host_connector_alias host address \<longleftrightarrow> parse_ip host = None \<and> is_alias_address address"

text \<open>The authorisation of one resolved address.\<close>

definition authorize_address ::
  "'n ipnet_ops \<Rightarrow> 'n controller \<Rightarrow> 'n NetworkPolicy \<Rightarrow> NetworkAccessRequest \<Rightarrow> ResolvedAddressPolicy
    \<Rightarrow> SocketAddr \<Rightarrow> egress_error + unit" where
  "authorize_address ops controller policy request rp address =
    (case policy_check ops controller policy (request\<lparr>nr_resolved_ip := Some (sa_ip address)\<rparr>) of
       Inr u \<Rightarrow> Inr u
     | Inl EgressPanic \<Rightarrow> Inl EgressPanic
     | Inl (EgressDenied reason) \<Rightarrow>
        if reason \<noteq> ReasonResolvedAddressNotAllowed \<or> rp \<noteq> HostConnectorAliases
           \<or> \<not> is_host_connector_alias (nr_host request) (sa_ip address)
        then Inl (EgressDenied reason)
        else policy_check ops controller policy (request\<lparr>nr_resolved_ip := None\<rparr>))"

text \<open>The loop over the resolved addresses: those seen, those accepted, the last refusal.\<close>

fun authorize_addresses ::
  "'n ipnet_ops \<Rightarrow> 'n controller \<Rightarrow> 'n NetworkPolicy \<Rightarrow> NetworkAccessRequest \<Rightarrow> ResolvedAddressPolicy
    \<Rightarrow> SocketAddr list \<Rightarrow> SocketAddr list \<Rightarrow> SocketAddr list \<Rightarrow> DenyReason
    \<Rightarrow> target_error + SocketAddr list \<times> DenyReason" where
  "authorize_addresses ops controller policy request rp [] seen addresses denied = Inr (addresses, denied)"
| "authorize_addresses ops controller policy request rp (a # resolved) seen addresses denied =
    (if a \<in> set seen then authorize_addresses ops controller policy request rp resolved seen addresses denied
     else case authorize_address ops controller policy request rp a of
       Inr _ \<Rightarrow> authorize_addresses ops controller policy request rp resolved (a # seen) (addresses @ [a]) denied
     | Inl EgressPanic \<Rightarrow> Inl TargetPanic
     | Inl (EgressDenied reason) \<Rightarrow>
         authorize_addresses ops controller policy request rp resolved (a # seen) addresses reason)"

definition authorize_resolved_target ::
  "'n ipnet_ops \<Rightarrow> 'n controller \<Rightarrow> 'n NetworkPolicy \<Rightarrow> NetworkAccessRequest \<Rightarrow> SocketAddr list
    \<Rightarrow> ResolvedAddressPolicy \<Rightarrow> target_error + AuthorizedTarget" where
  "authorize_resolved_target ops controller policy request resolved rp =
    rbind (authorize_addresses ops controller policy request rp resolved [] [] ReasonResolvedAddressNotAllowed)
      (\<lambda>(addresses, denied).
        if resolved = [] then Inl TargetResolve
        else if addresses = [] then Inl (TargetDenied denied)
        else Inr \<lparr>at_host = nr_host request, at_addresses = addresses\<rparr>)"

definition authorize_target_with_policy ::
  "'n ipnet_ops \<Rightarrow> (string \<Rightarrow> u16 \<Rightarrow> lookup_result) \<Rightarrow> 'n controller \<Rightarrow> 'n NetworkPolicy
    \<Rightarrow> NetworkAccessRequest \<Rightarrow> ResolvedAddressPolicy \<Rightarrow> target_error + AuthorizedTarget" where
  "authorize_target_with_policy ops lookup_host controller policy request0 rp =
    (let request = request0\<lparr>nr_resolved_ip := None\<rparr> in
     case policy_check ops controller policy request of
       Inl e \<Rightarrow> Inl (target_error_of e)
     | Inr _ \<Rightarrow>
        (case nr_port request of
           None \<Rightarrow> Inl TargetResolve
         | Some port \<Rightarrow>
            (case lookup_host (nr_host request) port of
               LookupTimeout \<Rightarrow> Inl TargetResolve
             | LookupFailed \<Rightarrow> Inl TargetResolve
             | LookupAddresses resolved \<Rightarrow>
                 authorize_resolved_target ops controller policy request resolved rp)))"

definition authorize_target where
  "authorize_target ops lookup_host controller policy request =
     authorize_target_with_policy ops lookup_host controller policy request Strict"

subsection \<open>What a check establishes\<close>

lemma machine_authorize_valid:
  "ct_from (c q) = Requested \<Longrightarrow> ct_to (c q) \<in> {Allowed, Denied} \<Longrightarrow>
    fst (machine_authorize c q machine_new) = Inr (c q)"
  by (auto simp: machine_authorize_def machine_new_def machine_commit_def Let_def)

lemma preflight_eq:
  "preflight ops policy request =
    (let t = authorize_network ops (np_guard policy) request in
     if is_allowed t then Inr () else Inl (EgressDenied (deny_reason (ct_reason t))))"
proof -
  let ?q = "NetworkRequest (np_guard policy) request"
  have "fst (machine_authorize (policy_authorize ops) ?q machine_new) = Inr (policy_authorize ops ?q)"
    using policy_authorize_valid [of ops ?q] by (intro machine_authorize_valid) auto
  then show ?thesis by (simp add: preflight_def authorize_egress_def policy_authorize_def Let_def)
qed

lemma preflight_no_panic [simp]: "preflight ops policy request \<noteq> Inl EgressPanic"
  by (simp add: preflight_eq Let_def)

lemma preflight_Inr: "preflight ops policy request = Inr u \<longleftrightarrow> is_allowed (authorize_network ops (np_guard policy) request)"
  by (simp add: preflight_eq Let_def)

lemma policy_check_own: "policy_check ops (policy_authorize ops) policy request = preflight ops policy request"
  by (cases "preflight ops policy request") (auto simp: policy_check_def preflight_def)

lemma policy_check_Inr: "policy_check ops controller policy request = Inr u \<Longrightarrow> preflight ops policy request = Inr u"
  by (cases "preflight ops policy request") (auto simp: policy_check_def)

text \<open>An injected controller can only narrow what the compiled policy accepts.\<close>

lemma authorize_address_narrows:
  "authorize_address ops controller policy request rp a = Inr u \<Longrightarrow>
    preflight ops policy (request\<lparr>nr_resolved_ip := Some (sa_ip a)\<rparr>) = Inr () \<or>
    rp = HostConnectorAliases \<and> is_host_connector_alias (nr_host request) (sa_ip a)
      \<and> preflight ops policy (request\<lparr>nr_resolved_ip := None\<rparr>) = Inr ()"
  using policy_check_Inr [of ops controller policy "request\<lparr>nr_resolved_ip := Some (sa_ip a)\<rparr>" "()"]
    policy_check_Inr [of ops controller policy "request\<lparr>nr_resolved_ip := None\<rparr>" "()"]
  by (auto simp: authorize_address_def split: sum.split_asm egress_error.split_asm if_split_asm)

lemma authorize_address_own:
  assumes "authorize_address ops controller policy request rp a = Inr u"
  shows "authorize_address ops (policy_authorize ops) policy request rp a = Inr ()"
proof (cases "preflight ops policy (request\<lparr>nr_resolved_ip := Some (sa_ip a)\<rparr>)")
  case (Inr v)
  then show ?thesis by (simp add: authorize_address_def policy_check_own)
next
  case (Inl e)
  then have "policy_check ops controller policy (request\<lparr>nr_resolved_ip := Some (sa_ip a)\<rparr>) = Inl e"
    by (simp add: policy_check_def)
  with assms Inl show ?thesis using policy_check_Inr [of ops controller policy "request\<lparr>nr_resolved_ip := None\<rparr>"]
    by (auto simp: authorize_address_def policy_check_own split: egress_error.split_asm if_split_asm)
qed

lemma authorize_addresses_sound:
  "authorize_addresses ops controller policy request rp resolved seen addresses denied = Inr (out, d) \<Longrightarrow>
    a \<in> set out \<Longrightarrow> a \<in> set addresses \<or> a \<in> set resolved \<and> authorize_address ops controller policy request rp a = Inr ()"
  by (induction ops controller policy request rp resolved seen addresses denied rule: authorize_addresses.induct)
    (auto split: if_split_asm sum.split_asm egress_error.split_asm)

lemma authorize_addresses_complete:
  assumes "\<And>a. authorize_address ops controller policy request rp a \<noteq> Inl EgressPanic"
  shows "\<exists>out d. authorize_addresses ops controller policy request rp resolved seen addresses denied = Inr (out, d)
    \<and> set addresses \<subseteq> set out
    \<and> (\<forall>a \<in> set resolved - set seen. authorize_address ops controller policy request rp a = Inr () \<longrightarrow> a \<in> set out)"
proof (induction resolved arbitrary: seen addresses denied)
  case Nil
  then show ?case by simp
next
  case (Cons a resolved)
  show ?case
  proof (cases "a \<in> set seen")
    case True
    then show ?thesis using Cons.IH [of seen addresses denied] by auto
  next
    case False
    have "\<exists>addresses' denied'. authorize_addresses ops controller policy request rp (a # resolved) seen addresses denied =
        authorize_addresses ops controller policy request rp resolved (a # seen) addresses' denied' \<and>
        set addresses' = set addresses \<union> {b. b = a \<and> authorize_address ops controller policy request rp a = Inr ()}"
      using False assms [of a]
      by (auto split: sum.split egress_error.split)
    then obtain addresses' denied' where
      "authorize_addresses ops controller policy request rp (a # resolved) seen addresses denied =
        authorize_addresses ops controller policy request rp resolved (a # seen) addresses' denied'"
      "set addresses' = set addresses \<union> {b. b = a \<and> authorize_address ops controller policy request rp a = Inr ()}" by blast
    then show ?thesis using Cons.IH [of "a # seen" addresses' denied'] by fastforce
  qed
qed

lemma authorize_target_Inr:
  assumes "authorize_target_with_policy ops lookup_host controller policy request rp = Inr target"
  obtains port resolved where
    "policy_check ops controller policy (request\<lparr>nr_resolved_ip := None\<rparr>) = Inr ()"
    "nr_port request = Some port" "lookup_host (nr_host request) port = LookupAddresses resolved"
    "authorize_resolved_target ops controller policy (request\<lparr>nr_resolved_ip := None\<rparr>) resolved rp = Inr target"
  using assms
  by (auto simp: authorize_target_with_policy_def Let_def split: sum.split_asm option.split_asm lookup_result.split_asm)

lemma authorized_address:
  assumes "authorize_target_with_policy ops lookup_host controller policy request rp = Inr target"
    and "a \<in> set (at_addresses target)"
  shows "authorize_address ops controller policy (request\<lparr>nr_resolved_ip := None\<rparr>) rp a = Inr ()"
  using assms(1)
proof (rule authorize_target_Inr)
  fix port resolved
  assume "authorize_resolved_target ops controller policy (request\<lparr>nr_resolved_ip := None\<rparr>) resolved rp = Inr target"
  with assms(2) show ?thesis
    by (auto simp: authorize_resolved_target_def split: rbind_split_asm if_split_asm dest!: authorize_addresses_sound)
qed

subsection \<open>Declared grants and refusals\<close>

text \<open>
  What a declared rule says, without compilation and staged filtering: its ports, its transports,
  and its host entry. A host entry names hosts (exactly or by suffix) or addresses.
\<close>

definition declared_fits :: "NetworkAccessRule \<Rightarrow> NetworkAccessRequest \<Rightarrow> bool" where
  "declared_fits d request \<longleftrightarrow>
    (nar_ports d = [] \<or> nr_port request \<in> Some ` set (nar_ports d)) \<and>
    (nar_transports d = [] \<or> nr_transport request \<in> set (nar_transports d))"

fun names_host :: "'n NetworkHostRule \<Rightarrow> string \<Rightarrow> bool" where
  "names_host (Exact h) host \<longleftrightarrow> host = h"
| "names_host (WildcardSuffix suffix) host \<longleftrightarrow> (\<exists>label. host = label @ ''.'' @ suffix)"
| "names_host _ host \<longleftrightarrow> False"

fun names_address :: "'n ipnet_ops \<Rightarrow> 'n NetworkHostRule \<Rightarrow> IpAddr \<Rightarrow> bool" where
  "names_address ops (IpRule allowed) ip \<longleftrightarrow> ip = allowed"
| "names_address ops (Cidr network) ip \<longleftrightarrow> net_contains ops network ip"
| "names_address ops _ ip \<longleftrightarrow> False"

definition grants_address :: "'n ipnet_ops \<Rightarrow> NetworkAccessRule \<Rightarrow> NetworkAccessRequest \<Rightarrow> IpAddr \<Rightarrow> bool" where
  "grants_address ops d request ip \<longleftrightarrow> declared_fits d request \<and>
    (\<exists>h. parse_network_host_rule ops (nar_host d) = Inr h \<and>
      (names_host h (normalize_host (nr_host request)) \<and>
         (is_public_egress_ip ip \<or> nar_allow_private_ips d \<and> is_opt_in_private_ip ip)
       \<or> names_address ops h ip))"

definition grants_name :: "'n ipnet_ops \<Rightarrow> NetworkAccessRule \<Rightarrow> NetworkAccessRequest \<Rightarrow> bool" where
  "grants_name ops d request \<longleftrightarrow> declared_fits d request \<and>
    (\<exists>h. parse_network_host_rule ops (nar_host d) = Inr h \<and>
      (names_host h (normalize_host (nr_host request))
       \<or> (\<exists>ip. parse_ip (normalize_host (nr_host request)) = Some ip \<and> names_address ops h ip)))"

definition allow_rules :: "NetworkConfig \<Rightarrow> NetworkAccessRule list" where
  "allow_rules network = nc_rules network @ map host_only_rule (nc_allowed_hosts network)"

lemma matches_host_iff:
  "matches_host ops rule host resolved \<longleftrightarrow>
    names_host (rule_host rule) (normalize_host host)
    \<or> (case rule_host rule of
         IpRule allowed \<Rightarrow> parse_ip (normalize_host host) = Some allowed \<or> resolved = Some allowed
       | Cidr network \<Rightarrow> (\<exists>ip. (case parse_ip (normalize_host host) of None \<Rightarrow> resolved | h \<Rightarrow> h) = Some ip
           \<and> net_contains ops network ip)
       | _ \<Rightarrow> False)"
proof (cases "rule_host rule")
  case (WildcardSuffix suffix)
  let ?h = "normalize_host host"
  have "ends_with ?h suffix \<and> length suffix < length ?h \<and> ?h ! (length ?h - length suffix - 1) = CHR ''.''
      \<longleftrightarrow> (\<exists>label. ?h = label @ ''.'' @ suffix)" (is "?l \<longleftrightarrow> ?r")
  proof
    assume l: ?l
    then obtain p where p: "?h = p @ suffix" by (auto simp: ends_with_iff)
    with l have "p \<noteq> []" by auto
    then obtain q c where q: "p = q @ [c]" by (metis rev_exhaust)
    with l p have "c = CHR ''.''" by (simp add: nth_append)
    with p q show ?r by simp
  next
    assume ?r
    then obtain label where "?h = label @ ''.'' @ suffix" by blast
    then show ?l by (simp add: ends_with_iff nth_append)
  qed
  with WildcardSuffix show ?thesis by (simp add: matches_host_def Let_def)
qed (auto simp: matches_host_def Let_def split: option.split)

lemma compiled_fits:
  assumes "compile_network_rule ops d = Inr rule"
  shows "matches_port rule (nr_port request) \<and> matches_transport rule (nr_transport request) \<longleftrightarrow> declared_fits d request"
proof -
  from compile_network_rule_Inr [OF assms]
  have p: "set (rule_ports rule) = set (nar_ports d)" and t: "set (rule_transports rule) = set (nar_transports d)" by auto
  from arg_cong [OF p, of "\<lambda>S. S = {}"] arg_cong [OF t, of "\<lambda>S. S = {}"] p t show ?thesis
    by (auto simp: matches_port_def matches_transport_def declared_fits_def split: option.split)
qed

lemma admitted_address_granted:
  assumes "compile_network_rule ops d = Inr rule" "rule_admits ops rule request"
    and "nr_resolved_ip request = Some ip" "allows_resolved_address ops rule (Some ip)"
  shows "grants_address ops d request ip"
  using assms compile_network_rule_Inr [OF assms(1)] compiled_fits [OF assms(1), of request]
  by (cases "rule_host rule")
    (auto simp: grants_address_def rule_admits_def matches_host_iff allows_resolved_address_def)

lemma admitted_name_granted:
  assumes "compile_network_rule ops d = Inr rule" "rule_admits ops rule request" "nr_resolved_ip request = None"
  shows "grants_name ops d request"
  using assms compile_network_rule_Inr [OF assms(1)] compiled_fits [OF assms(1), of request]
  by (cases "rule_host rule")
    (auto simp: grants_name_def rule_admits_def matches_host_iff split: option.split_asm)

lemma grants_resolved [simp]:
  "declared_fits d (request\<lparr>nr_resolved_ip := x\<rparr>) = declared_fits d request"
  "grants_name ops d (request\<lparr>nr_resolved_ip := x\<rparr>) = grants_name ops d request"
  "grants_address ops d (request\<lparr>nr_resolved_ip := x\<rparr>) ip = grants_address ops d request ip"
  by (simp_all add: declared_fits_def grants_name_def grants_address_def)

lemma policy_compile_guard:
  assumes "policy_compile ops network = Inr policy"
  shows "guard_compile ops (network_capability network) [] = Inr (np_guard policy)"
  using assms by (auto simp: policy_compile_def split: if_split_asm sum.split_asm rbind_split_asm)

lemma network_capability_facts:
  "default_allows (network_capability network) \<longleftrightarrow> nc_mode network = Public"
  "network_capability network = Deny \<longleftrightarrow> nc_mode network = NoNetwork"
  "nc_mode network = Allowlist \<Longrightarrow> set (declared_rules (network_capability network)) = set (allow_rules network)"
  "nc_mode network \<noteq> NoNetwork \<Longrightarrow> declared_denies (network_capability network) = nc_deny_rules network"
  by (cases "nc_mode network"; auto simp: network_capability_def allow_rules_def)+

text \<open>The outcome of the policy's own check, in terms of the configuration.\<close>

lemma preflight_config:
  assumes "policy_compile ops network = Inr policy"
  shows "preflight ops policy request = Inr () \<longleftrightarrow>
    \<not> guard_denied ops (np_guard policy) request \<and>
    (nc_mode network = Public \<or>
     nc_mode network = Allowlist \<and> (\<exists>d \<in> set (allow_rules network). \<exists>rule. compile_network_rule ops d = Inr rule
        \<and> rule_admits ops rule request \<and> allows_resolved_address ops rule (nr_resolved_ip request)))"
proof -
  note g = guard_compile_rules [OF policy_compile_guard [OF assms]]
  have "\<not> is_trusted (np_guard policy) host" for host by (simp add: is_trusted_def g(4))
  then show ?thesis unfolding preflight_Inr authorize_network_allowed g(3) network_capability_facts(1,2)
    using g(1) network_capability_facts(3) [of network] by (cases "nc_mode network") (simp_all, blast)
qed

lemma guard_denied_config:
  assumes "policy_compile ops network = Inr policy" "nc_mode network \<noteq> NoNetwork"
  shows "guard_denied ops (np_guard policy) request \<longleftrightarrow>
    (\<exists>d \<in> set (nc_deny_rules network). \<exists>rule. compile_network_rule ops d = Inr rule \<and> rule_admits ops rule request)"
  using guard_compile_rules(2) [OF policy_compile_guard [OF assms(1)]] network_capability_facts(4) [OF assms(2)]
  by (simp add: guard_denied_iff) blast

text \<open>A deny rule of a compiled policy compiles.\<close>

lemma collect_results_all: "collect_results f xs = Inr ys \<Longrightarrow> x \<in> set xs \<Longrightarrow> \<exists>y. f x = Inr y"
  by (induction xs arbitrary: ys) (auto split: rbind_split_asm)

lemma deny_rule_compiles:
  assumes "policy_compile ops network = Inr policy" "nc_mode network \<noteq> NoNetwork" "d \<in> set (nc_deny_rules network)"
  shows "\<exists>rule. compile_network_rule ops d = Inr rule"
proof -
  have "declared_denies (network_capability network) = nc_deny_rules network"
    using assms(2) by (rule network_capability_facts(4))
  with assms(3) obtain act allow deny limits where "network_capability network = Policy act allow deny limits" "d \<in> set deny"
    by (cases "network_capability network") auto
  with policy_compile_guard [OF assms(1)] show ?thesis
    by (auto simp: guard_compile_def split: rbind_split_asm dest: collect_results_all)
qed

definition denies_address :: "'n ipnet_ops \<Rightarrow> NetworkAccessRule \<Rightarrow> NetworkAccessRequest \<Rightarrow> IpAddr \<Rightarrow> bool" where
  "denies_address ops d request ip \<longleftrightarrow> declared_fits d request \<and>
    (\<exists>h. parse_network_host_rule ops (nar_host d) = Inr h \<and>
      (names_host h (normalize_host (nr_host request))
       \<or> names_address ops h (case parse_ip (normalize_host (nr_host request)) of Some literal \<Rightarrow> literal | None \<Rightarrow> ip)))"

lemma denied_address_admitted:
  assumes "compile_network_rule ops d = Inr rule" "denies_address ops d request ip"
  shows "rule_admits ops rule (request\<lparr>nr_resolved_ip := Some ip\<rparr>)"
  using assms(2) compile_network_rule_Inr [OF assms(1)] compiled_fits [OF assms(1), of request]
  by (cases "rule_host rule")
    (auto simp: denies_address_def rule_admits_def matches_host_iff split: option.splits)

text \<open>An accepted address was not hit by a deny rule, also when it passes as a connector alias.\<close>

lemma not_allowed_reason:
  assumes "preflight ops policy request = Inl (EgressDenied ReasonResolvedAddressNotAllowed)"
  shows "\<not> guard_denied ops (np_guard policy) request"
  using assms by (auto simp: preflight_eq authorize_network_def Let_def ct_denied_def split: if_split_asm)

lemma authorize_address_not_denied:
  assumes "authorize_address ops controller policy request rp a = Inr u"
  shows "\<not> guard_denied ops (np_guard policy) (request\<lparr>nr_resolved_ip := Some (sa_ip a)\<rparr>)"
proof (cases "preflight ops policy (request\<lparr>nr_resolved_ip := Some (sa_ip a)\<rparr>)")
  case (Inr v)
  then show ?thesis by (simp add: preflight_Inr authorize_network_allowed)
next
  case (Inl e)
  with assms have "e = EgressDenied ReasonResolvedAddressNotAllowed"
    by (auto simp: authorize_address_def policy_check_def split: egress_error.split_asm if_split_asm)
  with Inl show ?thesis using not_allowed_reason by simp
qed

subsection \<open>Properties\<close>

text \<open>C18: In allowlist mode every address handed to the connector is justified by the
  configuration: some declared rule (structured, or a plain allowed host) fits the request and
  names the requested host or literal, and some declared rule grants the very address: it names
  the host and the address is public, or private with the opt-in, or it names the address itself.
  The only other way in is the fake-IP exception, which needs the alias policy, a request that is
  no IP literal, and an address of the benchmarking range.\<close>
theorem egress_justified:
  assumes compile: "policy_compile ops network = Inr policy" and mode: "nc_mode network = Allowlist"
    and target: "authorize_target_with_policy ops lookup_host controller policy request rp = Inr target"
    and a: "a \<in> set (at_addresses target)"
  shows "(\<exists>d \<in> set (allow_rules network). grants_name ops d request) \<and>
    ((\<exists>d \<in> set (allow_rules network). grants_address ops d request (sa_ip a)) \<or>
     rp = HostConnectorAliases \<and> is_host_connector_alias (nr_host request) (sa_ip a))"
proof -
  let ?logical = "request\<lparr>nr_resolved_ip := None\<rparr>"
  from target have "preflight ops policy ?logical = Inr ()"
    by (elim authorize_target_Inr) (rule policy_check_Inr)
  then obtain d rule where "d \<in> set (allow_rules network)" "compile_network_rule ops d = Inr rule"
    "rule_admits ops rule ?logical"
    unfolding preflight_config [OF compile] using mode by auto
  then have name: "\<exists>d \<in> set (allow_rules network). grants_name ops d request"
    using admitted_name_granted [of ops d rule ?logical] by auto
  consider (address) "preflight ops policy (request\<lparr>nr_resolved_ip := Some (sa_ip a)\<rparr>) = Inr ()"
    | (connector) "rp = HostConnectorAliases \<and> is_host_connector_alias (nr_host request) (sa_ip a)"
    using authorize_address_narrows [OF authorized_address [OF target a]] by auto
  then show ?thesis
  proof cases
    case address
    then obtain d rule where d: "d \<in> set (allow_rules network)" "compile_network_rule ops d = Inr rule"
      "rule_admits ops rule (request\<lparr>nr_resolved_ip := Some (sa_ip a)\<rparr>)" "allows_resolved_address ops rule (Some (sa_ip a))"
      unfolding preflight_config [OF compile] using mode by auto
    from admitted_address_granted [OF d(2,3) _ d(4)] d(1) name show ?thesis by auto
  qed (use name in blast)
qed

text \<open>C19: Explicit deny rules win in every mode, whatever the allow rules and the controller say:
  no address handed to the connector is one that a deny rule fitting the request covers, by the
  name requested, by the literal requested, or by the address resolved.\<close>
theorem deny_rules_block:
  assumes compile: "policy_compile ops network = Inr policy"
    and target: "authorize_target_with_policy ops lookup_host controller policy request rp = Inr target"
    and a: "a \<in> set (at_addresses target)" and d: "d \<in> set (nc_deny_rules network)"
  shows "\<not> denies_address ops d request (sa_ip a)"
proof
  assume deny: "denies_address ops d request (sa_ip a)"
  from target have "preflight ops policy (request\<lparr>nr_resolved_ip := None\<rparr>) = Inr ()"
    by (elim authorize_target_Inr) (rule policy_check_Inr)
  then have mode: "nc_mode network \<noteq> NoNetwork" unfolding preflight_config [OF compile] by auto
  from deny_rule_compiles [OF compile mode d] obtain rule where rule: "compile_network_rule ops d = Inr rule" ..
  from denied_address_admitted [OF rule deny]
  have "guard_denied ops (np_guard policy) (request\<lparr>nr_resolved_ip := Some (sa_ip a)\<rparr>)"
    unfolding guard_denied_config [OF compile mode] using d rule by blast
  with authorize_address_not_denied [OF authorized_address [OF target a]] show False by simp
qed

text \<open>C20: An injected controller may restrict the compiled policy and never widen it: whatever it
  answers, a target accepted under it is accepted under the policy alone, with at least the same
  addresses.\<close>
theorem controller_cannot_widen:
  assumes "authorize_target_with_policy ops lookup_host controller policy request rp = Inr target"
  shows "\<exists>own. authorize_target_with_policy ops lookup_host (policy_authorize ops) policy request rp = Inr own
    \<and> set (at_addresses target) \<subseteq> set (at_addresses own)"
  using assms
proof (rule authorize_target_Inr)
  fix port resolved
  let ?logical = "request\<lparr>nr_resolved_ip := None\<rparr>"
  let ?own = "authorize_address ops (policy_authorize ops) policy ?logical rp"
  assume pre: "policy_check ops controller policy ?logical = Inr ()" and port: "nr_port request = Some port"
    and lookup: "lookup_host (nr_host request) port = LookupAddresses resolved"
    and t: "authorize_resolved_target ops controller policy ?logical resolved rp = Inr target"
  from t obtain d where out: "authorize_addresses ops controller policy ?logical rp resolved [] [] ReasonResolvedAddressNotAllowed
      = Inr (at_addresses target, d)" and ne: "resolved \<noteq> []" "at_addresses target \<noteq> []"
    by (auto simp: authorize_resolved_target_def split: rbind_split_asm if_split_asm)
  have own_ok: "?own a = Inr ()" if "a \<in> set (at_addresses target)" for a
    using authorize_addresses_sound [OF out that] authorize_address_own by auto
  have "?own a \<noteq> Inl EgressPanic" for a
    by (auto simp: authorize_address_def policy_check_own split: sum.split egress_error.split)
  from authorize_addresses_complete [OF this] obtain own d' where
    own: "authorize_addresses ops (policy_authorize ops) policy ?logical rp resolved [] [] ReasonResolvedAddressNotAllowed = Inr (own, d')"
    and all: "\<forall>a \<in> set resolved - set []. ?own a = Inr () \<longrightarrow> a \<in> set own" by blast
  have "set (at_addresses target) \<subseteq> set own"
    using authorize_addresses_sound [OF out] own_ok all by fastforce
  moreover from this ne have "own \<noteq> []" by auto
  ultimately show ?thesis using policy_check_Inr [OF pre] port lookup own ne
    by (simp add: authorize_target_with_policy_def authorize_resolved_target_def policy_check_own)
qed

subsection \<open>Bandwidth limits of a target\<close>

lemma ip_chars_plain:
  "c \<in> set ip_chars \<Longrightarrow> graphic c \<and> to_ascii_lower c = c \<and> c \<noteq> CHR ''['' \<and> c \<noteq> CHR '']'' \<and> c \<noteq> CHR ''/'' \<and> c \<noteq> CHR ''*''"
  by (auto simp: ip_chars_def graphic_def to_ascii_lower_def)

lemma dropWhile_hd: "\<not> P (hd xs) \<Longrightarrow> dropWhile P xs = xs"
  by (cases xs) auto

lemma trim_end_matches_last: "\<not> P (last xs) \<Longrightarrow> trim_end_matches P xs = xs"
  by (cases xs rule: rev_cases) (auto simp: trim_end_matches_def)

lemma normalize_host_address:
  assumes "set s \<subseteq> set ip_chars" "s \<noteq> []" "last s \<noteq> CHR ''.''"
  shows "normalize_host s = s"
proof -
  from assms ip_chars_plain have plain: "\<forall>c \<in> set s. graphic c \<and> to_ascii_lower c = c \<and> c \<noteq> CHR ''['' \<and> c \<noteq> CHR '']''" by blast
  with assms(2) have ends: "hd s \<noteq> CHR ''['' \<and> hd s \<noteq> CHR '']''" "last s \<noteq> CHR ''['' \<and> last s \<noteq> CHR '']''" by auto
  have "trim s = s" using plain trim_graphic by simp
  moreover have "trim_matches (\<lambda>c. c = CHR ''['' \<or> c = CHR '']'') s = s"
    using ends by (simp add: trim_matches_def dropWhile_hd trim_end_matches_last)
  moreover have "to_ascii_lowercase s = s" using plain by (simp add: to_ascii_lowercase_def map_idI)
  ultimately show ?thesis using assms(3) by (simp add: normalize_host_def trim_end_matches_last)
qed

lemma normalize_host_display [simp]: "normalize_host (ip_to_string ip) = ip_to_string ip"
  using ip_to_string_ip [of ip] by (intro normalize_host_address) auto

lemma compile_limit_Inr:
  "compile_limit ops config = Inr limit \<longleftrightarrow> nbl_bytes_per_second config \<noteq> 0 \<and> nbl_port config \<noteq> Some 0 \<and>
    cl_config limit = config \<and>
    (case nbl_host config of None \<Rightarrow> cl_matcher limit = None
     | Some h \<Rightarrow> \<exists>rule. parse_network_rule ops h = Inr rule \<and> cl_matcher limit = Some rule)"
  by (cases limit) (auto simp: compile_limit_def split: option.split sum.split)

lemma parse_network_rule_host: "parse_network_rule ops h = Inr rule \<Longrightarrow> parse_network_host_rule ops h = Inr (rule_host rule)"
  using compile_network_rule_Inr [of ops "host_only_rule h" rule]
  by (simp add: parse_network_rule_host_only) (simp add: host_only_rule_def)

definition names_target :: "'n ipnet_ops \<Rightarrow> 'n NetworkHostRule \<Rightarrow> string \<Rightarrow> bool" where
  "names_target ops h host \<longleftrightarrow> names_host h (normalize_host host)
     \<or> (\<exists>ip. parse_ip (normalize_host host) = Some ip \<and> names_address ops h ip)"

lemma host_matches_names: "host_matches ops host [rule] \<longleftrightarrow> names_target ops (rule_host rule) host"
  by (cases "rule_host rule")
    (auto simp: host_matches_def matches_host_iff names_target_def split: option.splits)

lemma names_target_address:
  "names_target ops h (ip_to_string ip) \<longleftrightarrow> names_host h (ip_to_string ip) \<or> names_address ops h ip"
  by (simp add: names_target_def parse_ip_display)

lemma policy_compile_limits:
  assumes "policy_compile ops network = Inr policy"
  shows "collect_results (compile_limit ops) (nc_limits network) = Inr (np_limits policy)"
  using assms by (auto simp: policy_compile_def split: if_split_asm sum.split_asm rbind_split_asm)

text \<open>The bandwidth limits applied to a target are exactly the configured ones whose port is
  absent or the target's, and whose host is absent or names the target: by the host requested, by
  the literal requested, or by one of the addresses it resolved to. Addresses are compared after
  printing and parsing them, which loses nothing.\<close>
theorem matching_limits_spec:
  assumes "policy_compile ops network = Inr policy"
  shows "limit \<in> set (matching_limits ops policy host port resolved) \<longleftrightarrow>
    limit \<in> set (nc_limits network) \<and> (nbl_port limit = None \<or> nbl_port limit = port) \<and>
    (case nbl_host limit of None \<Rightarrow> True
     | Some entry \<Rightarrow> (\<exists>h. parse_network_host_rule ops entry = Inr h \<and>
         (names_target ops h host
          \<or> (\<exists>a \<in> set resolved. names_address ops h (sa_ip a) \<or> names_host h (ip_to_string (sa_ip a))))))"
proof -
  let ?spec = "\<lambda>limit. (nbl_port limit = None \<or> nbl_port limit = port) \<and>
    (case nbl_host limit of None \<Rightarrow> True
     | Some entry \<Rightarrow> (\<exists>h. parse_network_host_rule ops entry = Inr h \<and>
         (names_target ops h host
          \<or> (\<exists>a \<in> set resolved. names_address ops h (sa_ip a) \<or> names_host h (ip_to_string (sa_ip a))))))"
  have matches: "limit_matches ops host port resolved cl \<longleftrightarrow> ?spec config" if "compile_limit ops config = Inr cl" for config cl
  proof -
    from that have "cl_config cl = config" by (simp add: compile_limit_Inr)
    moreover have "(case nbl_port config of None \<Rightarrow> True | Some expected \<Rightarrow> port = Some expected)
        \<longleftrightarrow> nbl_port config = None \<or> nbl_port config = port" by (auto split: option.split)
    ultimately show ?thesis using that
      by (cases "nbl_host config")
        (auto simp: limit_matches_def compile_limit_Inr host_matches_names names_target_address list_ex_iff
          dest!: parse_network_rule_host)
  qed
  note cl = collect_results_set [OF policy_compile_limits [OF assms]]
  have "limit \<in> set (matching_limits ops policy host port resolved) \<longleftrightarrow>
      (\<exists>c. c \<in> set (np_limits policy) \<and> limit_matches ops host port resolved c \<and> cl_config c = limit)"
    by (auto simp: matching_limits_def)
  also have "\<dots> \<longleftrightarrow> (\<exists>c config. config \<in> set (nc_limits network) \<and> compile_limit ops config = Inr c \<and> ?spec config \<and> cl_config c = limit)"
    using cl matches by blast
  also have "\<dots> \<longleftrightarrow> limit \<in> set (nc_limits network) \<and> ?spec limit"
    using collect_results_all [OF policy_compile_limits [OF assms]] by (auto simp: compile_limit_Inr)
  finally show ?thesis .
qed

subsection \<open>IPv4-mapped literals\<close>

definition mapped_v6 :: "u16 \<Rightarrow> u16 \<Rightarrow> IpAddr" where
  "mapped_v6 s6 s7 = V6 0 0 0 0 0 0xffff s6 s7"

definition embedded_v4 :: "u16 \<Rightarrow> u16 \<Rightarrow> IpAddr" where
  "embedded_v4 s6 s7 = V4 (ucast (drop_bit 8 s6)) (ucast s6) (ucast (drop_bit 8 s7)) (ucast s7)"

lemma show_octet_no_colon: "CHR '':'' \<notin> set (show_octet b)"
proof
  assume "CHR '':'' \<in> set (show_octet b)"
  then obtain n where "0 \<le> n" "n < 10" "CHR '':'' = digit_char n"
    using digits_of_range [of 10 "uint b" 4] by (auto simp: show_octet_def show_number_def)
  with digit_value_char [of n 10] have "digit_value 10 (CHR '':'') = Some n" by simp
  moreover have "digit_value 10 (CHR '':'') = None" by code_simp
  ultimately show False by simp
qed

lemma show_v4_no_colon: "CHR '':'' \<notin> set (show_v4 a b c d)"
  using show_octet_no_colon by (simp add: show_v4_def)

lemma parse_host_rule_v4:
  assumes "net_parse ops (show_v4 a b c d) = None"
  shows "parse_network_host_rule ops (show_v4 a b c d) = Inr (IpRule (V4 a b c d))"
proof -
  let ?s = "show_v4 a b c d"
  have chars: "\<forall>x \<in> set ?s. graphic x \<and> x \<noteq> CHR ''['' \<and> x \<noteq> CHR '']'' \<and> x \<noteq> CHR ''/'' \<and> x \<noteq> CHR ''*''"
    using show_v4_ip(1) ip_chars_plain by blast
  then have "trim ?s = ?s" using trim_graphic by simp
  moreover have "\<not> str_contains ?s ''://''" using show_v4_no_colon [of a b c d] by (auto simp: str_contains_iff)
  moreover have "strip_prefix ?s ''*.'' = None"
    using chars by (cases ?s) (auto simp: strip_prefix_def starts_with_iff)
  moreover have "CHR ''['' \<notin> set ?s" "CHR '']'' \<notin> set ?s" "CHR ''/'' \<notin> set ?s" "CHR ''*'' \<notin> set ?s"
    using chars by blast+
  ultimately show ?thesis
    using assms show_v4_ip(2) [of a b c d] show_v4_no_colon [of a b c d]
    by (simp add: parse_network_host_rule_def rsplit_colon_def parse_ip_v4)
qed

definition deny_literal :: "string \<Rightarrow> NetworkConfig" where
  "deny_literal literal = \<lparr>nc_mode = Public, nc_allowed_hosts = [], nc_rules = [],
     nc_deny_rules = [host_only_rule literal], nc_limits = []\<rparr>"

text \<open>C21: A deny rule on an IPv4 address is evaded by the IPv4-mapped IPv6 spelling of the same
  address. In public mode with a deny rule on the literal, the request for the IPv4 literal is
  refused as explicitly denied, and the request for the mapped literal is accepted and handed to
  the connector, although the classification of addresses treats a mapped address as the IPv4
  address it embeds. The hypothesis is that the CIDR parser wants a prefix length.\<close>
theorem mapped_address_evades_deny:
  fixes ops :: "'n ipnet_ops"
  assumes ipnet: "net_parse ops (ip_to_string (embedded_v4 s6 s7)) = None"
    and host: "nr_host request = ip_to_string (mapped_v6 s6 s7)" and port: "nr_port request = Some port"
    and lookup: "lookup_host (nr_host request) port = LookupAddresses [a]" and a: "sa_ip a = mapped_v6 s6 s7"
  shows "to_ipv4_mapped (mapped_v6 s6 s7) = Some (embedded_v4 s6 s7) \<and>
    (\<exists>policy. policy_compile ops (deny_literal (ip_to_string (embedded_v4 s6 s7))) = Inr policy
      \<and> authorize_target ops lookup_host (policy_authorize ops) policy request
          = Inr \<lparr>at_host = nr_host request, at_addresses = [a]\<rparr>
      \<and> authorize_target ops lookup_host (policy_authorize ops) policy (request\<lparr>nr_host := ip_to_string (embedded_v4 s6 s7)\<rparr>)
          = Inl (TargetDenied ReasonExplicitDeny))"
proof -
  have mapped: "to_ipv4_mapped (mapped_v6 s6 s7) = Some (embedded_v4 s6 s7)"
    by (simp add: mapped_v6_def embedded_v4_def)
  let ?v4 = "embedded_v4 s6 s7" and ?v6 = "mapped_v6 s6 s7"
  let ?net = "deny_literal (ip_to_string ?v4)"
  have rule: "parse_network_host_rule ops (ip_to_string ?v4) = Inr (IpRule ?v4)"
    using ipnet parse_host_rule_v4 by (simp add: embedded_v4_def ip_to_string_def)
  define deny :: "'n NetworkRule" where "deny = \<lparr>rule_host = IpRule ?v4, rule_ports = [], rule_transports = [], rule_allow_private_ips = False\<rparr>"
  define guard where "guard = \<lparr>ng_capability = network_capability ?net, ng_rules = [], ng_deny_rules = [deny], ng_trusted_hosts = []\<rparr>"
  define policy where "policy = \<lparr>np_mode = Public, np_guard = guard, np_limits = []\<rparr>"
  have cap: "network_capability ?net = Policy DefaultAllow [] [host_only_rule (ip_to_string ?v4)] []"
    by (simp add: network_capability_def deny_literal_def)
  have compiled: "policy_compile ops ?net = Inr policy"
    using rule by (simp add: policy_compile_def guard_compile_def cap compile_network_rule_def host_only_rule_def
        policy_def guard_def deny_def) (simp add: deny_literal_def cap)
  have ne: "?v6 \<noteq> ?v4" by (simp add: mapped_v6_def embedded_v4_def)
  have admits: "rule_admits ops deny r \<longleftrightarrow> parse_ip (normalize_host (nr_host r)) = Some ?v4 \<or> nr_resolved_ip r = Some ?v4" for r
    by (simp add: rule_admits_def matches_host_iff matches_port_def matches_transport_def deny_def)
  have pre: "preflight ops policy r = (if rule_admits ops deny r then Inl (EgressDenied ReasonExplicitDeny) else Inr ())" for r
    by (simp add: preflight_eq authorize_network_def guard_denied_iff policy_def guard_def is_trusted_def cap)
      (simp add: ct_denied_def)
  have "authorize_target ops lookup_host (policy_authorize ops) policy request = Inr \<lparr>at_host = nr_host request, at_addresses = [a]\<rparr>"
    using port lookup ne
    by (simp add: authorize_target_def authorize_target_with_policy_def policy_check_own pre admits host parse_ip_display
        authorize_resolved_target_def authorize_address_def a)
  moreover have "authorize_target ops lookup_host (policy_authorize ops) policy (request\<lparr>nr_host := ip_to_string ?v4\<rparr>)
      = Inl (TargetDenied ReasonExplicitDeny)"
    by (simp add: authorize_target_def authorize_target_with_policy_def policy_check_own pre admits parse_ip_display target_error_of_def)
  ultimately show ?thesis
    using mapped compiled by blast
qed

subsection \<open>A configuration\<close>

text \<open>A \<open>ipnet\<close> that knows one network, an allowlist with a private range denied, and a resolver
  that answers with a public and a private address.\<close>

definition demo_ops :: "(IpAddr \<times> nat) ipnet_ops" where
  "demo_ops = \<lparr>net_parse = (\<lambda>s. if s = ''10.0.0.0/8'' then Some (V4 10 0 0 0, 8) else None), net_addr = fst,
     net_contains = (\<lambda>n ip. case (fst n, ip) of (V4 a _ _ _, V4 b _ _ _) \<Rightarrow> a = b | _ \<Rightarrow> False)\<rparr>"

definition demo_network :: NetworkConfig where
  "demo_network = \<lparr>nc_mode = Allowlist, nc_allowed_hosts = [''*.example.com''], nc_rules = [],
     nc_deny_rules = [host_only_rule ''10.0.0.0/8''],
     nc_limits = [\<lparr>nbl_host = Some ''*.example.com'', nbl_port = None, nbl_bytes_per_second = 1000\<rparr>]\<rparr>"

definition demo_egress_request :: NetworkAccessRequest where
  "demo_egress_request = \<lparr>nr_run_id = None, nr_attempt_id = None, nr_storyline_id = None, nr_host = ''API.example.com.'',
     nr_port = Some 443, nr_transport = TcpTunnel, nr_resolved_ip = None\<rparr>"

definition demo_address :: "IpAddr \<Rightarrow> SocketAddr" where
  "demo_address ip = \<lparr>sa_ip = ip, sa_port = 443, sa_flowinfo = 0, sa_scope_id = 0\<rparr>"

definition demo_lookup :: "string \<Rightarrow> u16 \<Rightarrow> lookup_result" where
  "demo_lookup host port = LookupAddresses (map demo_address [V4 93 184 216 34, V4 10 0 0 5])"

definition demo_policy where "demo_policy = projr (policy_compile demo_ops demo_network)"

definition demo_target where
  "demo_target = \<lparr>at_host = nr_host demo_egress_request, at_addresses = [demo_address (V4 93 184 216 34)]\<rparr>"

lemma demo_policy: "policy_compile demo_ops demo_network = Inr demo_policy"
  by code_simp

lemma demo_target:
  "authorize_target_with_policy demo_ops demo_lookup (policy_authorize demo_ops) demo_policy demo_egress_request Strict = Inr demo_target"
  by code_simp

theorem egress_justified_witness:
  "(\<exists>d \<in> set (allow_rules demo_network). grants_name demo_ops d demo_egress_request) \<and>
   (\<exists>d \<in> set (allow_rules demo_network). grants_address demo_ops d demo_egress_request (V4 93 184 216 34))"
  using egress_justified [OF demo_policy _ demo_target, of "demo_address (V4 93 184 216 34)"]
  by (simp add: demo_network_def demo_target_def demo_address_def)

theorem deny_rules_block_witness:
  "\<not> denies_address demo_ops (host_only_rule ''10.0.0.0/8'') demo_egress_request (V4 93 184 216 34)"
  using deny_rules_block [OF demo_policy demo_target, of "demo_address (V4 93 184 216 34)" "host_only_rule ''10.0.0.0/8''"]
  by (simp add: demo_network_def demo_target_def demo_address_def)

theorem controller_cannot_widen_witness:
  "\<exists>own. authorize_target_with_policy demo_ops demo_lookup (policy_authorize demo_ops) demo_policy demo_egress_request Strict = Inr own
    \<and> set (at_addresses demo_target) \<subseteq> set (at_addresses own)"
  by (rule controller_cannot_widen [OF demo_target])

theorem matching_limits_spec_witness:
  "\<lparr>nbl_host = Some ''*.example.com'', nbl_port = None, nbl_bytes_per_second = 1000\<rparr>
     \<in> set (matching_limits demo_ops demo_policy ''api.example.com'' (Some 443) (at_addresses demo_target))"
proof -
  have "parse_network_host_rule demo_ops ''*.example.com'' = Inr (WildcardSuffix ''example.com'')" by code_simp
  moreover have "normalize_host ''api.example.com'' = ''api'' @ ''.'' @ ''example.com''" by code_simp
  ultimately show ?thesis
    unfolding matching_limits_spec [OF demo_policy] by (simp add: demo_network_def names_target_def)
qed

theorem mapped_address_evades_deny_witness:
  "\<exists>policy. policy_compile demo_ops (deny_literal ''10.0.0.5'') = Inr policy
    \<and> authorize_target demo_ops (\<lambda>_ _. LookupAddresses [demo_address (mapped_v6 0x0a00 5)]) (policy_authorize demo_ops) policy
        (demo_egress_request\<lparr>nr_host := ''::ffff:10.0.0.5''\<rparr>)
      = Inr \<lparr>at_host = ''::ffff:10.0.0.5'', at_addresses = [demo_address (mapped_v6 0x0a00 5)]\<rparr>"
proof -
  have v4: "ip_to_string (embedded_v4 0x0a00 5) = ''10.0.0.5''" and v6: "ip_to_string (mapped_v6 0x0a00 5) = ''::ffff:10.0.0.5''"
    by code_simp+
  show ?thesis
    using mapped_address_evades_deny [where ops = demo_ops and ?s6.0 = "0x0a00" and ?s7.0 = 5 and port = 443
        and request = "demo_egress_request\<lparr>nr_host := ''::ffff:10.0.0.5''\<rparr>"
        and lookup_host = "\<lambda>_ _. LookupAddresses [demo_address (mapped_v6 0x0a00 5)]"
        and a = "demo_address (mapped_v6 0x0a00 5)"]
    unfolding v4 v6 by (fastforce simp: demo_ops_def demo_egress_request_def demo_address_def)
qed

end
