(* ===== verification/Bandwidth.thy ===== *)
theory Bandwidth
  imports EgressPolicy
begin

section \<open>Bandwidth reservations\<close>

text \<open>
  \<open>persisting-overlaynet/src/bandwidth.rs\<close> and the VM egress of \<open>egress.rs\<close>. An \<open>Instant\<close> is a
  number of nanoseconds; each use of the clock is an argument. The registry maps a limit to the
  time its bucket is next available; a session is the list of its buckets, named by their limits.
  A bucket is a mutex, so the reservations of concurrent sessions are a sequence of calls.
\<close>

type_synonym registry = "NetworkBandwidthLimit \<rightharpoonup> nat"

definition bucket_nanos :: "u64 \<Rightarrow> nat \<Rightarrow> nat" where
  "bucket_nanos bytes_per_second bytes =
    min (let n = min (bytes * 1000000000) (2 ^ 128 - 1); r = unat bytes_per_second
         in n div r + (if n mod r = 0 then 0 else 1)) (2 ^ 64 - 1)"

text \<open>\<open>reserve\<close> at clock reading \<open>now\<close>: the time the bytes may pass, which is when the bucket is
  next available.\<close>

definition reserve :: "u64 \<Rightarrow> nat \<Rightarrow> nat \<Rightarrow> nat \<Rightarrow> nat" where
  "reserve bytes_per_second next_available now bytes =
     max next_available now + bucket_nanos bytes_per_second bytes"

text \<open>\<open>BandwidthRegistry::session\<close>: new buckets are available at once; equal limits share one.\<close>

fun registry_session :: "nat \<Rightarrow> NetworkBandwidthLimit list \<Rightarrow> registry \<Rightarrow> NetworkBandwidthLimit list
    \<Rightarrow> NetworkBandwidthLimit list \<times> registry" where
  "registry_session now [] reg buckets = (buckets, reg)"
| "registry_session now (limit # limits) reg buckets =
    registry_session now limits
      (case reg limit of None \<Rightarrow> reg(limit \<mapsto> now) | Some _ \<Rightarrow> reg)
      (if limit \<in> set buckets then buckets else buckets @ [limit])"

text \<open>\<open>throttle\<close>: reserve in every bucket, one clock reading each; the caller sleeps until the result.\<close>

fun throttle_buckets :: "(nat \<Rightarrow> nat) \<Rightarrow> nat \<Rightarrow> nat \<Rightarrow> NetworkBandwidthLimit list \<Rightarrow> registry \<Rightarrow> nat \<times> registry" where
  "throttle_buckets clk bytes ready_at [] reg = (ready_at, reg)"
| "throttle_buckets clk bytes ready_at (limit # limits) reg =
    (let ready = reserve (nbl_bytes_per_second limit) (case reg limit of Some t \<Rightarrow> t | None \<Rightarrow> 0) (clk (length limits)) bytes
     in throttle_buckets clk bytes (max ready_at ready) limits (reg(limit \<mapsto> ready)))"

definition throttle :: "(nat \<Rightarrow> nat) \<Rightarrow> nat \<Rightarrow> nat \<Rightarrow> NetworkBandwidthLimit list \<Rightarrow> registry \<Rightarrow> nat option \<times> registry" where
  "throttle clk now bytes buckets reg =
    (if bytes = 0 \<or> buckets = [] then (None, reg)
     else case throttle_buckets clk bytes now buckets reg of (t, reg') \<Rightarrow> (Some t, reg'))"

definition is_limited :: "NetworkBandwidthLimit list \<Rightarrow> bool" where
  "is_limited buckets \<longleftrightarrow> buckets \<noteq> []"

subsection \<open>VM egress\<close>

record EgressContext =
  ec_run_id :: "string option"
  ec_attempt_id :: "string option"
  ec_storyline_id :: "string option"

datatype tcp_error = TcpPanic | TcpDenied DenyReason | TcpResolve

definition tcp_request :: "EgressContext \<Rightarrow> string \<Rightarrow> u16 \<Rightarrow> NetworkAccessRequest" where
  "tcp_request context host port =
    \<lparr>nr_run_id = ec_run_id context, nr_attempt_id = ec_attempt_id context,
     nr_storyline_id = ec_storyline_id context, nr_host = host, nr_port = Some port,
     nr_transport = TcpTunnel, nr_resolved_ip = None\<rparr>"

definition authorize_tcp ::
  "'n ipnet_ops \<Rightarrow> (string \<Rightarrow> u16 \<Rightarrow> lookup_result) \<Rightarrow> 'n controller \<Rightarrow> 'n NetworkPolicy \<Rightarrow> nat
    \<Rightarrow> EgressContext \<Rightarrow> string \<Rightarrow> u16 \<Rightarrow> registry
    \<Rightarrow> (tcp_error + SocketAddr list \<times> NetworkBandwidthLimit list) \<times> registry" where
  "authorize_tcp ops lookup_host controller policy now context host port reg =
    (case authorize_target_with_policy ops lookup_host controller policy (tcp_request context host port) HostConnectorAliases of
       Inl TargetPanic \<Rightarrow> (Inl TcpPanic, reg)
     | Inl (TargetDenied reason) \<Rightarrow> (Inl (TcpDenied reason), reg)
     | Inl TargetResolve \<Rightarrow> (Inl TcpResolve, reg)
     | Inr authorized \<Rightarrow>
        (case registry_session now (matching_limits ops policy host (Some port) (at_addresses authorized)) reg [] of
           (buckets, reg') \<Rightarrow> (Inr (at_addresses authorized, buckets), reg')))"

datatype connect_result = Connected SocketAddr | ConnectFailed | NoAuthorizedAddress

text \<open>\<open>connect_tcp_addresses\<close> within its timeout: the addresses in order, the first that connects.\<close>

fun connect_tcp_addresses :: "(SocketAddr \<Rightarrow> bool) \<Rightarrow> SocketAddr list \<Rightarrow> bool \<Rightarrow> connect_result" where
  "connect_tcp_addresses connects [] failed = (if failed then ConnectFailed else NoAuthorizedAddress)"
| "connect_tcp_addresses connects (a # addresses) failed =
    (if connects a then Connected a else connect_tcp_addresses connects addresses True)"

subsection \<open>Sequences of calls\<close>

datatype bandwidth_call =
    OpenSession nat "NetworkBandwidthLimit list"
  | Throttle "nat \<Rightarrow> nat" nat nat "NetworkBandwidthLimit list"

text \<open>The releases a sequence of calls grants: the bytes, the buckets and the time they may pass.\<close>

fun bandwidth_run :: "bandwidth_call list \<Rightarrow> registry \<Rightarrow> (nat \<times> NetworkBandwidthLimit list \<times> nat) list" where
  "bandwidth_run [] reg = []"
| "bandwidth_run (OpenSession now limits # calls) reg =
    bandwidth_run calls (snd (registry_session now limits reg []))"
| "bandwidth_run (Throttle clk now bytes buckets # calls) reg =
    (case throttle clk now bytes buckets reg of
       (None, reg') \<Rightarrow> bandwidth_run calls reg'
     | (Some t, reg') \<Rightarrow> (bytes, buckets, t) # bandwidth_run calls reg')"

definition released :: "NetworkBandwidthLimit \<Rightarrow> nat \<Rightarrow> (nat \<times> NetworkBandwidthLimit list \<times> nat) list \<Rightarrow> nat" where
  "released limit T releases = sum_list (map fst (filter (\<lambda>(_, buckets, t). limit \<in> set buckets \<and> t \<le> T) releases))"

fun unsaturated :: "NetworkBandwidthLimit \<Rightarrow> bandwidth_call \<Rightarrow> bool" where
  "unsaturated limit (Throttle clk now bytes buckets) \<longleftrightarrow>
     bytes < 2 ^ 64 \<and> bytes * 1000000000 \<le> unat (nbl_bytes_per_second limit) * (2 ^ 64 - 1)"
| "unsaturated limit (OpenSession now limits) \<longleftrightarrow> True"

lemma ceil_div_mult: "0 < r \<Longrightarrow> n \<le> r * (n div r + (if n mod r = 0 then 0 else 1))" for n r :: nat
proof (cases "n mod r = 0")
  case False
  assume "0 < r"
  then have "n mod r \<le> r" by (simp add: less_imp_le)
  then have "n \<le> r * (n div r) + r" using mult_div_mod_eq [of r n] by linarith
  with False show ?thesis by (simp add: algebra_simps)
qed (use mult_div_mod_eq [of r n] in simp)

lemma bucket_nanos_ge:
  assumes "0 < rate" "bytes < 2 ^ 64" "bytes * 1000000000 \<le> unat rate * (2 ^ 64 - 1)"
  shows "bytes * 1000000000 \<le> unat rate * bucket_nanos rate bytes"
proof -
  let ?n = "bytes * 1000000000" and ?r = "unat rate"
  have r: "0 < ?r" using assms(1) by (simp add: word_less_nat_alt)
  have "?n \<le> 2 ^ 128 - 1" using assms(2) by simp
  then have m: "min ?n (2 ^ 128 - 1) = ?n" by simp
  show ?thesis
  proof (cases "?n div ?r + (if ?n mod ?r = 0 then 0 else 1) \<le> 2 ^ 64 - 1")
    case True
    then show ?thesis unfolding bucket_nanos_def m Let_def
      using ceil_div_mult [OF r, of ?n] by (simp only: min_absorb1)
  next
    case False
    then show ?thesis unfolding bucket_nanos_def m Let_def
      using assms(3) by (simp only: min_absorb2 nat_le_linear)
  qed
qed

lemma throttle_buckets_bucket:
  assumes "throttle_buckets clk bytes ready buckets reg = (t, reg')" "reg limit = Some t0"
  shows "ready \<le> t \<and> (if limit \<in> set buckets
     then \<exists>t1. reg' limit = Some t1 \<and> t0 + bucket_nanos (nbl_bytes_per_second limit) bytes \<le> t1 \<and> t1 \<le> t
     else reg' limit = Some t0)"
  using assms
proof (induction clk bytes ready buckets reg arbitrary: t0 rule: throttle_buckets.induct)
  case (1 clk bytes ready reg)
  then show ?case by simp
next
  case (2 clk bytes ready l limits reg)
  define r where "r = reserve (nbl_bytes_per_second l) (case reg l of Some t \<Rightarrow> t | None \<Rightarrow> 0) (clk (length limits)) bytes"
  have run: "throttle_buckets clk bytes (max ready r) limits (reg(l \<mapsto> r)) = (t, reg')"
    using "2.prems"(1) by (simp add: r_def Let_def)
  show ?case
  proof (cases "l = limit")
    case True
    then have "t0 + bucket_nanos (nbl_bytes_per_second limit) bytes \<le> r"
      using "2.prems"(2) by (simp add: r_def reserve_def)
    moreover have "max ready r \<le> t \<and> (if limit \<in> set limits
        then \<exists>t1. reg' limit = Some t1 \<and> r + bucket_nanos (nbl_bytes_per_second limit) bytes \<le> t1 \<and> t1 \<le> t
        else reg' limit = Some r)"
      using "2.IH" [OF r_def run] True by simp
    ultimately show ?thesis using True by (auto split: if_split_asm)
  next
    case False
    with "2.IH" [OF r_def run] "2.prems"(2) show ?thesis by (auto split: if_split_asm)
  qed
qed

lemma registry_session_keeps: "reg limit = Some t \<Longrightarrow> snd (registry_session now limits reg buckets) limit = Some t"
proof (induction now limits reg buckets rule: registry_session.induct)
  case (2 now l limits reg buckets)
  then have "(case reg l of None \<Rightarrow> reg(l \<mapsto> now) | Some _ \<Rightarrow> reg) limit = Some t"
    by (auto split: option.split)
  then show ?case using "2.IH" by simp
qed simp

text \<open>C22: A bandwidth limit holds in aggregate. Over any sequence of sessions opened and chunks
  throttled on one registry, by any number of connections and with any clock readings, the bytes
  of the chunks that pass through a limit's bucket and are released no later than \<open>T\<close> do not
  exceed the rate times the time since the bucket was first available.\<close>
theorem bandwidth_bound:
  assumes "reg limit = Some t0" "0 < nbl_bytes_per_second limit" "\<forall>call \<in> set calls. unsaturated limit call"
  shows "released limit T (bandwidth_run calls reg) * 1000000000 \<le> unat (nbl_bytes_per_second limit) * (T - t0)"
  using assms
proof (induction calls reg arbitrary: t0 rule: bandwidth_run.induct)
  case (1 reg)
  then show ?case by (simp add: released_def)
next
  case (2 now limits calls reg)
  then show ?case by (simp add: registry_session_keeps)
next
  case (3 clk now bytes buckets calls reg)
  let ?r = "unat (nbl_bytes_per_second limit)"
  show ?case
  proof (cases "bytes = 0 \<or> buckets = []")
    case True
    then show ?thesis using 3 by (simp add: throttle_def)
  next
    case False
    obtain t reg' where tb: "throttle_buckets clk bytes now buckets reg = (t, reg')" by fastforce
    with False have th: "throttle clk now bytes buckets reg = (Some t, reg')" by (simp add: throttle_def)
    note bucket = throttle_buckets_bucket [OF tb "3.prems"(1)]
    show ?thesis
    proof (cases "limit \<in> set buckets")
      case out: False
      with bucket "3.IH"(2) [OF th [symmetric] refl] "3.prems" th show ?thesis by (simp add: released_def)
    next
      case True
      with bucket obtain t1 where t1: "reg' limit = Some t1" "t0 + bucket_nanos (nbl_bytes_per_second limit) bytes \<le> t1" "t1 \<le> t"
        by auto
      have IH: "released limit T (bandwidth_run calls reg') * 1000000000 \<le> ?r * (T - t1)"
        using "3.IH"(2) [OF th [symmetric] refl t1(1)] "3.prems" by simp
      show ?thesis
      proof (cases "t \<le> T")
        case le: True
        have "bytes * 1000000000 \<le> ?r * bucket_nanos (nbl_bytes_per_second limit) bytes"
          using "3.prems" by (intro bucket_nanos_ge) auto
        with IH have "(bytes + released limit T (bandwidth_run calls reg')) * 1000000000
            \<le> ?r * (bucket_nanos (nbl_bytes_per_second limit) bytes + (T - t1))"
          by (simp add: algebra_simps)
        also have "\<dots> \<le> ?r * (T - t0)" using t1 le by (intro mult_le_mono2) linarith
        finally show ?thesis using th True le by (simp add: released_def)
      next
        case gt: False
        note IH
        also have "?r * (T - t1) \<le> ?r * (T - t0)" using t1 by (intro mult_le_mono2) linarith
        finally show ?thesis using th gt by (simp add: released_def)
      qed
    qed
  qed
qed

definition demo_limit :: NetworkBandwidthLimit where
  "demo_limit = \<lparr>nbl_host = None, nbl_port = None, nbl_bytes_per_second = 1000\<rparr>"

text \<open>Two connections with three chunks of 1000 bytes on a limit of 1000 bytes per second: within
  the first two seconds two chunks pass.\<close>

theorem bandwidth_bound_witness:
  "released demo_limit 2000000000 (bandwidth_run
      [OpenSession 0 [demo_limit], Throttle (\<lambda>_. 0) 0 1000 [demo_limit], Throttle (\<lambda>_. 5) 5 1000 [demo_limit],
       Throttle (\<lambda>_. 7) 7 1000 [demo_limit]] [demo_limit \<mapsto> 0]) * 1000000000 \<le> 1000 * 2000000000
   \<and> released demo_limit 2000000000 (bandwidth_run
      [OpenSession 0 [demo_limit], Throttle (\<lambda>_. 0) 0 1000 [demo_limit], Throttle (\<lambda>_. 5) 5 1000 [demo_limit],
       Throttle (\<lambda>_. 7) 7 1000 [demo_limit]] [demo_limit \<mapsto> 0]) = 2000"
proof
  let ?calls = "[OpenSession 0 [demo_limit], Throttle (\<lambda>_. 0) 0 1000 [demo_limit], Throttle (\<lambda>_. 5) 5 1000 [demo_limit],
       Throttle (\<lambda>_. 7) 7 1000 [demo_limit]]"
  show "released demo_limit 2000000000 (bandwidth_run ?calls [demo_limit \<mapsto> 0]) * 1000000000 \<le> 1000 * 2000000000"
    using bandwidth_bound [of "[demo_limit \<mapsto> 0]" demo_limit 0 ?calls 2000000000]
    by (simp add: demo_limit_def)
  show "released demo_limit 2000000000 (bandwidth_run ?calls [demo_limit \<mapsto> 0]) = 2000"
    by (simp add: demo_limit_def throttle_def reserve_def bucket_nanos_def released_def)
qed

end
