(* ===== verification/Scheduler.thy ===== *)
theory Scheduler
  imports Prelude
begin

section \<open>Task placement of pPilot\<close>

text \<open>
  \<open>persisting-ppilot/src/scheduler.rs\<close>. The shared vectors of atomics are lists; every atomic
  access is one step of a task, so a task is the program point it has reached (with its local
  variables), and tasks interleave freely. \<open>notify_waiters\<close> wakes the tasks whose \<open>notified()\<close> future
  exists and leaves no permit behind. Counters are far below the width of \<open>usize\<close> and are \<open>nat\<close>.
\<close>

record Scheduler =
  sc_loads :: "nat list"
  sc_per_worker :: nat
  sc_failures :: "nat list"
  sc_quarantined :: "bool list"
  sc_quarantine_after :: nat

definition DEFAULT_QUARANTINE_AFTER :: nat where
  "DEFAULT_QUARANTINE_AFTER = 3"

definition with_quarantine_after :: "nat \<Rightarrow> nat \<Rightarrow> nat \<Rightarrow> Scheduler" where
  "with_quarantine_after n_workers per_worker quarantine_after =
    \<lparr>sc_loads = replicate (max n_workers 1) 0, sc_per_worker = max per_worker 1,
     sc_failures = replicate (max n_workers 1) 0, sc_quarantined = replicate (max n_workers 1) False,
     sc_quarantine_after = max quarantine_after 1\<rparr>"

definition scheduler_new :: "nat \<Rightarrow> nat \<Rightarrow> Scheduler" where
  "scheduler_new n_workers per_worker = with_quarantine_after n_workers per_worker DEFAULT_QUARANTINE_AFTER"

definition active_slots :: "Scheduler \<Rightarrow> nat" where
  "active_slots s = length (filter Not (sc_quarantined s))"

definition capacity :: "Scheduler \<Rightarrow> nat" where
  "capacity s = max (active_slots s * sc_per_worker s) 1"

definition is_quarantined :: "Scheduler \<Rightarrow> nat \<Rightarrow> bool" where
  "is_quarantined s i = (if i < length (sc_quarantined s) then sc_quarantined s ! i else True)"

definition slot_usable :: "Scheduler \<Rightarrow> nat \<Rightarrow> nat \<Rightarrow> bool" where
  "slot_usable s i cur \<longleftrightarrow> \<not> sc_quarantined s ! i \<and> cur < sc_per_worker s"

definition better :: "(nat \<times> nat) option \<Rightarrow> nat \<Rightarrow> nat \<Rightarrow> (nat \<times> nat) option" where
  "better best i cur =
    (case best of
       None \<Rightarrow> Some (i, cur)
     | Some (bi, b) \<Rightarrow> if cur < b then Some (i, cur) else if cur = b \<and> i < bi then Some (i, cur) else best)"

subsection \<open>Without contention\<close>

text \<open>\<open>try_acquire\<close> when no other task touches the loads: one scan, then the exchange succeeds.\<close>

fun scan :: "Scheduler \<Rightarrow> nat \<Rightarrow> nat list \<Rightarrow> (nat \<times> nat) option \<Rightarrow> (nat \<times> nat) option" where
  "scan s i [] best = best"
| "scan s i (cur # loads) best = scan s (i + 1) loads (if slot_usable s i cur then better best i cur else best)"

definition try_acquire :: "Scheduler \<Rightarrow> (nat \<times> Scheduler) option" where
  "try_acquire s =
    (case scan s 0 (sc_loads s) None of
       None \<Rightarrow> None
     | Some (i, expect) \<Rightarrow> Some (i, s\<lparr>sc_loads := (sc_loads s)[i := expect + 1]\<rparr>))"

definition try_acquire_index :: "Scheduler \<Rightarrow> nat \<Rightarrow> bool \<times> Scheduler" where
  "try_acquire_index s i =
    (if length (sc_loads s) \<le> i \<or> sc_quarantined s ! i \<or> sc_per_worker s \<le> sc_loads s ! i then (False, s)
     else (True, s\<lparr>sc_loads := (sc_loads s)[i := sc_loads s ! i + 1]\<rparr>))"

definition note_success :: "Scheduler \<Rightarrow> nat \<Rightarrow> Scheduler" where
  "note_success s i = (if i < length (sc_failures s) then s\<lparr>sc_failures := (sc_failures s)[i := 0]\<rparr> else s)"

text \<open>The result says whether waiters are notified.\<close>

definition force_quarantine :: "Scheduler \<Rightarrow> nat \<Rightarrow> Scheduler \<times> bool" where
  "force_quarantine s i =
    (if length (sc_quarantined s) \<le> i \<or> sc_quarantined s ! i then (s, False)
     else (s\<lparr>sc_quarantined := (sc_quarantined s)[i := True]\<rparr>, True))"

definition note_failure :: "Scheduler \<Rightarrow> nat \<Rightarrow> Scheduler \<times> bool" where
  "note_failure s i =
    (if length (sc_failures s) \<le> i then (s, False)
     else
      (let n = sc_failures s ! i + 1; s' = s\<lparr>sc_failures := (sc_failures s)[i := n]\<rparr> in
       if sc_quarantine_after s \<le> n then force_quarantine s' i else (s', False)))"

definition release :: "Scheduler \<Rightarrow> nat \<Rightarrow> Scheduler" where
  "release s i = (if length (sc_loads s) \<le> i then s else s\<lparr>sc_loads := (sc_loads s)[i := sc_loads s ! i - 1]\<rparr>)"

subsection \<open>Tasks\<close>

datatype placement = AnySlot | PreferSlot "nat option" | StickySlot nat

datatype task =
    Start placement
  | TryIndex placement nat
  | IndexLoad placement nat
  | IndexExchange placement nat nat
  | Scan placement nat "(nat \<times> nat) option"
  | ScanFlag placement nat nat "(nat \<times> nat) option"
  | ScanExchange placement nat nat
  | CountActive placement nat nat
  | Register placement
  | Waiting placement
  | Holding nat
  | Notifying
  | LostSticky nat
  | AllQuarantined
  | Succeeded nat
  | Failing nat
  | Quarantining nat
  | Finished

definition index_failed :: "placement \<Rightarrow> task" where
  "index_failed g = (case g of StickySlot _ \<Rightarrow> Register g | _ \<Rightarrow> Scan g 0 None)"

text \<open>One atomic step of a task: the scheduler, where the task is then, and whether waiters are notified.\<close>

fun task_step :: "Scheduler \<Rightarrow> task \<Rightarrow> (Scheduler \<times> task \<times> bool) option" where
  "task_step s (Start AnySlot) = Some (s, Scan AnySlot 0 None, False)"
| "task_step s (Start (PreferSlot None)) = Some (s, Scan (PreferSlot None) 0 None, False)"
| "task_step s (Start (PreferSlot (Some i))) = Some (s, TryIndex (PreferSlot (Some i)) i, False)"
| "task_step s (Start (StickySlot i)) =
    Some (s, if is_quarantined s i then LostSticky i else TryIndex (StickySlot i) i, False)"
| "task_step s (TryIndex g i) =
    Some (s, if length (sc_loads s) \<le> i \<or> sc_quarantined s ! i then index_failed g else IndexLoad g i, False)"
| "task_step s (IndexLoad g i) =
    Some (s, if sc_per_worker s \<le> sc_loads s ! i then index_failed g else IndexExchange g i (sc_loads s ! i), False)"
| "task_step s (IndexExchange g i cur) =
    (if sc_loads s ! i = cur then Some (s\<lparr>sc_loads := (sc_loads s)[i := cur + 1]\<rparr>, Holding i, False)
     else Some (s, IndexLoad g i, False))"
| "task_step s (Scan g i best) =
    Some (s,
      if i < length (sc_loads s) then ScanFlag g i (sc_loads s ! i) best
      else (case best of None \<Rightarrow> CountActive g 0 0 | Some (j, expect) \<Rightarrow> ScanExchange g j expect), False)"
| "task_step s (ScanFlag g i cur best) =
    Some (s, Scan g (i + 1) (if slot_usable s i cur then better best i cur else best), False)"
| "task_step s (ScanExchange g i expect) =
    (if sc_loads s ! i = expect then Some (s\<lparr>sc_loads := (sc_loads s)[i := expect + 1]\<rparr>, Holding i, False)
     else Some (s, Scan g 0 None, False))"
| "task_step s (CountActive g i n) =
    Some (s,
      if i < length (sc_quarantined s) then CountActive g (i + 1) (if sc_quarantined s ! i then n else n + 1)
      else if n = 0 then AllQuarantined else Register g, False)"
| "task_step s (Register g) = Some (s, Waiting g, False)"
| "task_step s (Waiting g) = None"
| "task_step s (Holding i) = Some (release s i, Notifying, False)"
| "task_step s Notifying = Some (s, Finished, True)"
| "task_step s (LostSticky i) = None"
| "task_step s AllQuarantined = None"
| "task_step s (Succeeded i) = Some (note_success s i, Finished, False)"
| "task_step s (Failing i) =
    (if length (sc_failures s) \<le> i then Some (s, Finished, False)
     else
      (let n = sc_failures s ! i + 1 in
       Some (s\<lparr>sc_failures := (sc_failures s)[i := n]\<rparr>,
         if sc_quarantine_after s \<le> n then Quarantining i else Finished, False)))"
| "task_step s (Quarantining i) = (case force_quarantine s i of (s', notify) \<Rightarrow> Some (s', Finished, notify))"
| "task_step s Finished = None"

fun wake :: "task \<Rightarrow> task" where
  "wake (Waiting g) = Start g"
| "wake t = t"

type_synonym system = "Scheduler \<times> task list"

definition system_step :: "nat \<Rightarrow> system \<Rightarrow> system option" where
  "system_step k sys =
    (case sys of (s, ts) \<Rightarrow>
       if length ts \<le> k then None
       else case task_step s (ts ! k) of
         None \<Rightarrow> None
       | Some (s', t, notify) \<Rightarrow> Some (s', (if notify then map wake else id) (ts[k := t])))"

fun run_schedule :: "nat list \<Rightarrow> system \<Rightarrow> system option" where
  "run_schedule [] sys = Some sys"
| "run_schedule (k # ks) sys = Option.bind (system_step k sys) (run_schedule ks)"

text \<open>What a caller can start: a placement, a reported outcome, a forced quarantine.\<close>

fun initial_task :: "task \<Rightarrow> bool" where
  "initial_task (Start g) = True"
| "initial_task (Succeeded i) = True"
| "initial_task (Failing i) = True"
| "initial_task (Quarantining i) = True"
| "initial_task _ = False"

inductive reaches :: "Scheduler \<Rightarrow> system \<Rightarrow> bool" for s0 where
  started: "reaches s0 (s0, [])"
| spawned: "reaches s0 (s, ts) \<Longrightarrow> initial_task t \<Longrightarrow> reaches s0 (s, ts @ [t])"
| stepped: "reaches s0 sys \<Longrightarrow> system_step k sys = Some sys' \<Longrightarrow> reaches s0 sys'"

subsection \<open>Slots are counted exactly\<close>

definition holds_slot :: "task \<Rightarrow> nat option" where
  "holds_slot t = (case t of Holding i \<Rightarrow> Some i | _ \<Rightarrow> None)"

definition best_ok :: "Scheduler \<Rightarrow> (nat \<times> nat) option \<Rightarrow> bool" where
  "best_ok s best = (case best of None \<Rightarrow> True | Some (i, e) \<Rightarrow> i < length (sc_loads s) \<and> e < sc_per_worker s)"

fun task_ok :: "Scheduler \<Rightarrow> task \<Rightarrow> bool" where
  "task_ok s (IndexLoad g i) = (i < length (sc_loads s))"
| "task_ok s (IndexExchange g i cur) = (i < length (sc_loads s) \<and> cur < sc_per_worker s)"
| "task_ok s (Scan g i best) = best_ok s best"
| "task_ok s (ScanFlag g i cur best) = (i < length (sc_loads s) \<and> best_ok s best)"
| "task_ok s (ScanExchange g i e) = (i < length (sc_loads s) \<and> e < sc_per_worker s)"
| "task_ok s (Holding i) = (i < length (sc_loads s))"
| "task_ok s _ = True"

fun system_ok :: "system \<Rightarrow> bool" where
  "system_ok (s, ts) \<longleftrightarrow>
    (\<forall>i < length (sc_loads s). sc_loads s ! i = count_list (map holds_slot ts) (Some i) \<and> sc_loads s ! i \<le> sc_per_worker s)
    \<and> (\<forall>t \<in> set ts. task_ok s t)"

lemma better_ok:
  "best_ok s best \<Longrightarrow> i < length (sc_loads s) \<Longrightarrow> slot_usable s i cur \<Longrightarrow> best_ok s (better best i cur)"
  by (auto simp: best_ok_def better_def slot_usable_def split: option.splits)

lemma best_ok_simps [simp]:
  "best_ok s None" "best_ok s (Some (i, e)) \<longleftrightarrow> i < length (sc_loads s) \<and> e < sc_per_worker s"
  by (simp_all add: best_ok_def)

lemma index_failed_ok [simp]: "task_ok s (index_failed g)"
  by (simp add: index_failed_def split: placement.split)

lemma same_shape [simp]:
  "length (sc_loads (release s i)) = length (sc_loads s)" "sc_per_worker (release s i) = sc_per_worker s"
  "sc_loads (note_success s i) = sc_loads s" "sc_per_worker (note_success s i) = sc_per_worker s"
  "sc_loads (fst (force_quarantine s i)) = sc_loads s" "sc_per_worker (fst (force_quarantine s i)) = sc_per_worker s"
  by (auto simp: release_def note_success_def force_quarantine_def)

lemma task_step_shape:
  assumes "task_step s t = Some (s', t', notify)"
  shows "length (sc_loads s') = length (sc_loads s) \<and> sc_per_worker s' = sc_per_worker s"
  using assms
  by (cases "(s, t)" rule: task_step.cases)
    (auto simp: Let_def force_quarantine_def split: if_split_asm prod.split_asm)

lemma task_step_ok:
  assumes "task_step s t = Some (s', t', notify)" "task_ok s t"
  shows "task_ok s t'"
  using assms
  by (cases "(s, t)" rule: task_step.cases)
    (auto simp: Let_def better_ok split: if_split_asm prod.split_asm option.split_asm)

text \<open>A step keeps the loads, takes a slot below its limit, or returns one.\<close>

lemma holds_slot_simps [simp]:
  "holds_slot (Holding i) = Some i" "holds_slot (index_failed g) = None" "holds_slot Notifying = None"
  "holds_slot Finished = None" "holds_slot (Start g) = None" "holds_slot (TryIndex g i) = None"
  "holds_slot (IndexLoad g i) = None" "holds_slot (IndexExchange g i c) = None" "holds_slot (Scan g i best) = None"
  "holds_slot (ScanFlag g i c best) = None" "holds_slot (ScanExchange g i c) = None" "holds_slot (CountActive g i n) = None"
  "holds_slot (Register g) = None" "holds_slot (Waiting g) = None" "holds_slot (LostSticky i) = None"
  "holds_slot AllQuarantined = None" "holds_slot (Succeeded i) = None" "holds_slot (Failing i) = None"
  "holds_slot (Quarantining i) = None"
  by (simp_all add: holds_slot_def index_failed_def split: placement.split)

definition load_change :: "Scheduler \<Rightarrow> nat option \<Rightarrow> nat option \<Rightarrow> nat list" where
  "load_change s before after =
    (case (before, after) of
       (None, Some i) \<Rightarrow> (sc_loads s)[i := sc_loads s ! i + 1]
     | (Some i, None) \<Rightarrow> (sc_loads s)[i := sc_loads s ! i - 1]
     | _ \<Rightarrow> sc_loads s)"

lemma task_step_loads:
  assumes "task_step s t = Some (s', t', notify)" "task_ok s t"
  shows "sc_loads s' = load_change s (holds_slot t) (holds_slot t')"
    and "holds_slot t = None \<or> holds_slot t' = None"
    and "holds_slot t' = Some i \<Longrightarrow> i < length (sc_loads s) \<and> sc_loads s ! i < sc_per_worker s"
    and "holds_slot t = Some i \<Longrightarrow> i < length (sc_loads s)"
  using assms
  by (cases "(s, t)" rule: task_step.cases;
      auto simp: Let_def load_change_def release_def note_success_def force_quarantine_def
        split: if_split_asm prod.split_asm option.split_asm)+

lemma count_list_update:
  "k < length xs \<Longrightarrow> count_list (xs[k := y]) x + (if xs ! k = x then 1 else 0) = count_list xs x + (if y = x then 1 else 0)"
proof (induction xs arbitrary: k)
  case (Cons a xs)
  then show ?case
  proof (cases k)
    case (Suc j)
    then show ?thesis using Cons.IH [of j] Cons.prems by (auto split: if_split_asm)
  qed simp
qed simp

lemma holds_wake [simp]: "holds_slot (wake t) = holds_slot t"
  by (cases t) (auto simp: holds_slot_def)

lemma task_ok_wake [simp]: "task_ok s t \<Longrightarrow> task_ok s (wake t)"
  by (cases t) auto

lemma task_ok_shape:
  "length (sc_loads s') = length (sc_loads s) \<Longrightarrow> sc_per_worker s' = sc_per_worker s \<Longrightarrow> task_ok s' t = task_ok s t"
  by (cases t) (auto simp: best_ok_def split: option.split)

lemma system_step_ok:
  assumes "system_step k (s, ts) = Some sys'" "system_ok (s, ts)"
  shows "system_ok sys'"
proof -
  from assms(1) obtain s' t notify where k: "k < length ts" and st: "task_step s (ts ! k) = Some (s', t, notify)"
    and sys': "sys' = (s', (if notify then map wake else id) (ts[k := t]))"
    by (auto simp: system_step_def split: if_split_asm option.split_asm)
  from k assms(2) have ok: "task_ok s (ts ! k)" by simp
  note shape = task_step_shape [OF st]
  have "task_ok s' u" if "u \<in> set (ts[k := t])" for u
    using that assms(2) task_step_ok [OF st ok] task_ok_shape [of s' s] shape set_update_subset_insert by fastforce
  then have tasks: "\<forall>u \<in> set (snd sys'). task_ok s' u" using sys' by auto
  have held: "map holds_slot (snd sys') = (map holds_slot ts)[k := holds_slot t]"
    using sys' by (auto simp: map_update comp_def)
  have upd: "count_list (map holds_slot (snd sys')) (Some i) + (if holds_slot (ts ! k) = Some i then 1 else 0)
      = count_list (map holds_slot ts) (Some i) + (if holds_slot t = Some i then 1 else 0)" for i
    unfolding held using count_list_update [of k "map holds_slot ts" "holds_slot t" "Some i"] k by simp
  have loads: "sc_loads s' ! i = count_list (map holds_slot (snd sys')) (Some i) \<and> sc_loads s' ! i \<le> sc_per_worker s'"
    if "i < length (sc_loads s')" for i
    using task_step_loads(1,2) [OF st ok] task_step_loads(3,4) [OF st ok, of i] upd [of i] that shape assms(2)
    by (cases "holds_slot (ts ! k)"; cases "holds_slot t") (auto simp: load_change_def nth_list_update split: if_split_asm)
  have "system_ok (s', snd sys')" unfolding system_ok.simps using tasks loads by blast
  then show ?thesis unfolding sys' snd_conv .
qed

text \<open>C23: Under every interleaving of placements, releases and reported outcomes, the load of a slot
  is the number of tasks that hold it, and never more than the per-worker limit; so the decrement
  of a release never underflows, and a task only ever holds a slot of the pool.\<close>
theorem slots_counted:
  assumes "reaches (with_quarantine_after n_workers per_worker quarantine_after) (s, ts)"
  shows "system_ok (s, ts)"
proof -
  have "system_ok sys" if "reaches (with_quarantine_after n_workers per_worker quarantine_after) sys" for sys
    using that
  proof induction
    case started
    then show ?case by (simp add: with_quarantine_after_def)
  next
    case (spawned s ts t)
    then show ?case by (cases t) (auto simp: holds_slot_def)
  next
    case (stepped sys k sys')
    then show ?case using system_step_ok by (cases sys) simp
  qed
  with assms show ?thesis by blast
qed

subsection \<open>Placement\<close>

definition usable :: "Scheduler \<Rightarrow> nat \<Rightarrow> bool" where
  "usable s i \<longleftrightarrow> i < length (sc_loads s) \<and> slot_usable s i (sc_loads s ! i)"

definition least_loaded :: "Scheduler \<Rightarrow> nat \<Rightarrow> bool" where
  "least_loaded s i \<longleftrightarrow> usable s i \<and>
    (\<forall>j. usable s j \<longrightarrow> sc_loads s ! i < sc_loads s ! j \<or> sc_loads s ! i = sc_loads s ! j \<and> i \<le> j)"

definition best_upto :: "Scheduler \<Rightarrow> nat \<Rightarrow> (nat \<times> nat) option \<Rightarrow> bool" where
  "best_upto s n best = (case best of
     None \<Rightarrow> \<forall>j < n. \<not> usable s j
   | Some (i, e) \<Rightarrow> i < n \<and> usable s i \<and> e = sc_loads s ! i
       \<and> (\<forall>j < n. usable s j \<longrightarrow> e < sc_loads s ! j \<or> e = sc_loads s ! j \<and> i \<le> j))"

lemma better_upto:
  assumes "best_upto s n best" "n < length (sc_loads s)"
  shows "best_upto s (Suc n) (if slot_usable s n (sc_loads s ! n) then better best n (sc_loads s ! n) else best)"
  using assms by (auto simp: best_upto_def better_def usable_def less_Suc_eq split: option.splits)

lemma scan_upto:
  assumes "best_upto s n best" "n \<le> length (sc_loads s)"
  shows "best_upto s (length (sc_loads s)) (scan s n (drop n (sc_loads s)) best)"
  using assms
proof (induction "length (sc_loads s) - n" arbitrary: n best)
  case (Suc m)
  then have n: "n < length (sc_loads s)" by simp
  then have "drop n (sc_loads s) = sc_loads s ! n # drop (Suc n) (sc_loads s)" by (simp add: Cons_nth_drop_Suc)
  moreover from n Suc have "best_upto s (length (sc_loads s)) (scan s (Suc n) (drop (Suc n) (sc_loads s))
      (if slot_usable s n (sc_loads s ! n) then better best n (sc_loads s ! n) else best))"
    by (intro Suc.hyps(1) better_upto) simp_all
  ultimately show ?case by simp
qed simp

lemma scan_best: "best_upto s (length (sc_loads s)) (scan s 0 (sc_loads s) None)"
  using scan_upto [of s 0 None] by (simp add: best_upto_def)

lemma try_acquire_Some:
  assumes "try_acquire s = Some (i, s')"
  shows "least_loaded s i \<and> s' = s\<lparr>sc_loads := (sc_loads s)[i := sc_loads s ! i + 1]\<rparr>"
  using assms scan_best [of s]
  by (auto simp: try_acquire_def best_upto_def least_loaded_def usable_def split: option.split_asm)

lemma try_acquire_None: "try_acquire s = None \<Longrightarrow> \<not> usable s i"
  using scan_best [of s] by (auto simp: try_acquire_def best_upto_def usable_def split: option.split_asm)

text \<open>A task that runs alone does what \<open>try_acquire\<close> says.\<close>

lemma system_step_alone:
  "k < length ts \<Longrightarrow> task_step s t = Some (s', t', False) \<Longrightarrow> system_step k (s, ts[k := t]) = Some (s', ts[k := t'])"
  by (simp add: system_step_def)

lemma run_scan:
  assumes "k < length ts" "i \<le> length (sc_loads s)"
  shows "run_schedule (replicate (2 * (length (sc_loads s) - i)) k @ ks) (s, ts[k := Scan g i best]) =
    run_schedule ks (s, ts[k := Scan g (length (sc_loads s)) (scan s i (drop i (sc_loads s)) best)])"
  using assms(2)
proof (induction "length (sc_loads s) - i" arbitrary: i best)
  case (Suc m)
  then have i: "i < length (sc_loads s)" by simp
  then have d: "drop i (sc_loads s) = sc_loads s ! i # drop (Suc i) (sc_loads s)" by (simp add: Cons_nth_drop_Suc)
  have two: "replicate (2 * (length (sc_loads s) - i)) k = k # k # replicate (2 * (length (sc_loads s) - Suc i)) k"
    using i by (cases "length (sc_loads s) - i") (auto simp: Suc_diff_Suc)
  show ?case unfolding two d
    using Suc.hyps(1) [of "Suc i"] Suc.hyps(2) Suc.prems i assms(1) by (simp add: system_step_alone)
qed simp

text \<open>A placement that meets no contention terminates and takes the slot with the fewest running
  tasks among those that are neither quarantined nor full, the lowest index on a tie; it is told
  that there is none exactly when every slot is quarantined or full.\<close>
theorem placement_least_loaded:
  assumes "k < length ts" "ts ! k = Start AnySlot"
  shows "(case try_acquire s of
      Some (i, s') \<Rightarrow> least_loaded s i \<and> s' = s\<lparr>sc_loads := (sc_loads s)[i := sc_loads s ! i + 1]\<rparr>
        \<and> (\<exists>steps. run_schedule (replicate steps k) (s, ts) = Some (s', ts[k := Holding i]))
    | None \<Rightarrow> (\<forall>i. \<not> usable s i)
        \<and> (\<exists>steps. run_schedule (replicate steps k) (s, ts) = Some (s, ts[k := CountActive AnySlot 0 0])))"
proof -
  let ?n = "length (sc_loads s)" and ?best = "scan s 0 (sc_loads s) None"
  let ?task = "case ?best of None \<Rightarrow> CountActive AnySlot 0 0 | Some (j, e) \<Rightarrow> ScanExchange AnySlot j e"
  have start: "system_step k (s, ts) = Some (s, ts[k := Scan AnySlot 0 None])"
    using assms by (simp add: system_step_def)
  have scanned: "run_schedule (k # replicate (2 * ?n) k @ [k] @ ks) (s, ts) = run_schedule ks (s, ts[k := ?task])" for ks
    using run_scan [OF assms(1), of 0 s "[k] @ ks" AnySlot None] assms(1) start
    by (simp add: system_step_alone)
  have rep: "k # replicate m k @ [k] = replicate (m + 2) k" "k # replicate m k @ [k, k] = replicate (m + 3) k" for m
    by (rule replicate_eqI; auto)+
  show ?thesis
  proof (cases ?best)
    case None
    then have "try_acquire s = None" by (simp add: try_acquire_def)
    moreover from this have "\<forall>i. \<not> usable s i" using try_acquire_None by simp
    moreover have "run_schedule (replicate (2 * ?n + 2) k) (s, ts) = Some (s, ts[k := CountActive AnySlot 0 0])"
      using scanned [of "[]"] None by (simp add: rep)
    then have "\<exists>steps. run_schedule (replicate steps k) (s, ts) = Some (s, ts[k := CountActive AnySlot 0 0])" by (rule exI)
    ultimately show ?thesis by simp
  next
    case (Some p)
    obtain i e where p: "p = (i, e)" by (cases p)
    define s' where "s' = s\<lparr>sc_loads := (sc_loads s)[i := e + 1]\<rparr>"
    have acq: "try_acquire s = Some (i, s')" using Some p by (simp add: try_acquire_def s'_def)
    have e: "e = sc_loads s ! i" using scan_best [of s] Some p by (simp add: best_upto_def)
    have "run_schedule (replicate (2 * ?n + 3) k) (s, ts) = Some (s', ts[k := Holding i])"
      using scanned [of "[k]"] Some p e assms(1) by (simp add: rep system_step_alone s'_def)
    then have "\<exists>steps. run_schedule (replicate steps k) (s, ts) = Some (s', ts[k := Holding i])" by (rule exI)
    with acq try_acquire_Some [OF acq] show ?thesis by simp
  qed
qed

theorem placement_least_loaded_witness:
  "least_loaded \<lparr>sc_loads = [1, 0, 0], sc_per_worker = 2, sc_failures = [0, 0, 0], sc_quarantined = [False, True, False],
     sc_quarantine_after = 3\<rparr> 2"
proof -
  let ?s = "\<lparr>sc_loads = [1, 0, 0], sc_per_worker = 2, sc_failures = [0, 0, 0], sc_quarantined = [False, True, False],
     sc_quarantine_after = 3\<rparr>"
  have "try_acquire ?s = Some (2, ?s\<lparr>sc_loads := [1, 0, 1]\<rparr>)" by code_simp
  then show ?thesis using placement_least_loaded [of 0 "[Start AnySlot]" ?s] by simp
qed

subsection \<open>Lost wake-ups\<close>

text \<open>C24: A wake-up can be lost. With one slot for one task, the second task scans, finds the slot
  taken and a slot active; the first task then releases the slot and notifies, before the second
  has created its \<open>notified()\<close> future. The second task then waits while the slot is free, nothing is
  quarantined, and no task can ever take a step again.\<close>
theorem placement_loses_wakeup:
  "\<exists>schedule s. run_schedule schedule (scheduler_new 1 1, [Start AnySlot, Start AnySlot])
      = Some (s, [Finished, Waiting AnySlot])
    \<and> usable s 0 \<and> active_slots s = 1 \<and> (\<forall>k. system_step k (s, [Finished, Waiting AnySlot]) = None)"
proof (intro exI conjI allI)
  let ?schedule = "replicate 5 0 @ replicate 6 1 @ [0, 0] @ [1]"
  show "run_schedule ?schedule (scheduler_new 1 1, [Start AnySlot, Start AnySlot])
      = Some (scheduler_new 1 1, [Finished, Waiting AnySlot])" by code_simp
  show "usable (scheduler_new 1 1) 0" "active_slots (scheduler_new 1 1) = 1" by code_simp+
  show "system_step k (scheduler_new 1 1, [Finished, Waiting AnySlot]) = None" for k
    by (auto simp: system_step_def less_Suc_eq nth_Cons split: nat.split)
qed

theorem slots_counted_witness:
  "system_ok (scheduler_new 1 1, [Finished, Waiting AnySlot])"
proof -
  have "reaches (scheduler_new 1 1) (scheduler_new 1 1, [Start AnySlot, Start AnySlot])"
    using reaches.spawned [OF reaches.spawned [OF reaches.started]] by simp
  moreover have "reaches s0 sys \<Longrightarrow> run_schedule ks sys = Some sys' \<Longrightarrow> reaches s0 sys'" for s0 ks sys sys'
    by (induction ks arbitrary: sys) (auto simp: bind_eq_Some_conv intro: reaches.stepped)
  moreover have "run_schedule (replicate 5 0 @ replicate 6 1 @ [0, 0] @ [1]) (scheduler_new 1 1, [Start AnySlot, Start AnySlot])
      = Some (scheduler_new 1 1, [Finished, Waiting AnySlot])" by code_simp
  ultimately have "reaches (scheduler_new 1 1) (scheduler_new 1 1, [Finished, Waiting AnySlot])" by blast
  then show ?thesis using slots_counted unfolding scheduler_new_def by blast
qed

end
