(* ===== verification/OverlayCore.thy ===== *)
theory OverlayCore
  imports RustStr IoMonad BTreeMap "HOL-Library.Sublist" "HOL-Library.AList"
begin

section \<open>The overlay file system\<close>

text \<open>
  \<open>persisting-overlay-core/src/core.rs\<close>: a writable upper directory over read-only lower ones, with
  whiteout files for removed entries and markers for opaque directories, and a journal of the
  first state seen of every path touched. A relative path is the list of its components. A lower
  layer is what the kernel answers about it (\<open>layer\<close>): the entry at a path, and the names in a
  directory. The upper directory is an association list from paths to entries, markers included,
  under the kernel's rules (\<open>u_create\<close>, \<open>u_unlink\<close>, ...). Every call that changes it may fail: the
  \<open>i\<close>-th one fails when \<open>oc_fault i\<close>. A copied-up entry is prepared under a hidden temporary name and
  published by one rename, which is the call that counts. Hard link identity is not modelled.
\<close>

type_synonym path = "string list"

record Metadata =
  md_mode :: u32
  md_uid :: u32
  md_gid :: u32
  md_mtime :: "int \<times> int"

text \<open>The flag of a directory is the opaque extended attribute.\<close>

datatype node =
    FileNode Metadata string
  | DirNode Metadata bool
  | LinkNode Metadata string
  | OtherNode Metadata u64

fun is_dir :: "node \<Rightarrow> bool" where
  "is_dir (DirNode _ _) = True"
| "is_dir _ = False"

fun node_meta :: "node \<Rightarrow> Metadata" where
  "node_meta (FileNode m _) = m"
| "node_meta (DirNode m _) = m"
| "node_meta (LinkNode m _) = m"
| "node_meta (OtherNode m _) = m"

fun xattr_opaque :: "node \<Rightarrow> bool" where
  "xattr_opaque (DirNode _ opaque) = opaque"
| "xattr_opaque _ = False"

datatype errno = ENOENT | EEXIST | ENOTDIR | EISDIR | ENOTEMPTY | EINVAL | EXDEV | EIO

record layer =
  ly_stat :: "path \<Rightarrow> errno + node"
  ly_entries :: "path \<Rightarrow> string list option"

definition ly_lookup :: "layer \<Rightarrow> path \<Rightarrow> node option" where
  "ly_lookup lower rel = (case ly_stat lower rel of Inl _ \<Rightarrow> None | Inr n \<Rightarrow> Some n)"

datatype PathFingerprint =
    AbsentPrint
  | FilePrint string u32 u32 u32
  | DirectoryPrint u32 u32 u32 "int \<times> int"
  | SymlinkPrint string u32 u32
  | OtherPrint u32 u32 u32 u64

type_synonym upper = "(path \<times> node) list"

record OverlayCore =
  oc_lowers :: "layer list"
  oc_excluded :: "path list"
  oc_journaling :: bool
  oc_digest :: "string \<Rightarrow> string"
  oc_new_meta :: "u32 \<Rightarrow> Metadata"
  oc_chown :: bool
  oc_utimes :: bool
  oc_xattrs :: bool
  oc_upper_dir :: path
  oc_work :: "(path \<times> bool) option"
  oc_fault :: "nat \<Rightarrow> bool"

record overlay =
  ov_upper :: upper
  ov_journal :: "(string \<times> path \<times> PathFingerprint) list"
  ov_complete :: bool
  ov_calls :: nat

type_synonym 'a overlay_io = "(overlay, errno, 'a) io"

subsection \<open>Names and paths\<close>

definition WHITEOUT_PREFIX :: string where "WHITEOUT_PREFIX = ''.wh.''"

definition OPAQUE_NAME :: string where "OPAQUE_NAME = ''.wh..wh..opq''"

definition validate_rel :: "path \<Rightarrow> bool" where
  "validate_rel rel = list_all (\<lambda>c. c \<noteq> [] \<and> c \<noteq> ''.'' \<and> c \<noteq> ''..'' \<and> CHR ''/'' \<notin> set c) rel"

definition is_whiteout_name :: "string \<Rightarrow> bool" where
  "is_whiteout_name name = starts_with name WHITEOUT_PREFIX"

definition validate_name :: "string \<Rightarrow> bool" where
  "validate_name name \<longleftrightarrow>
     name \<noteq> [] \<and> name \<noteq> ''.'' \<and> name \<noteq> ''..'' \<and> CHR ''/'' \<notin> set name \<and> \<not> is_whiteout_name name"

definition child :: "path \<Rightarrow> string \<Rightarrow> path option" where
  "child parent name = (if validate_rel parent \<and> validate_name name then Some (parent @ [name]) else None)"

definition is_excluded :: "OverlayCore \<Rightarrow> path \<Rightarrow> bool" where
  "is_excluded core rel = list_ex (\<lambda>excluded. prefix excluded rel) (oc_excluded core)"

definition visible :: "OverlayCore \<Rightarrow> path \<Rightarrow> bool" where
  "visible core rel \<longleftrightarrow> validate_rel rel \<and> \<not> is_excluded core rel"

definition require_visible :: "OverlayCore \<Rightarrow> path \<Rightarrow> unit overlay_io" where
  "require_visible core rel =
    (if \<not> validate_rel rel then io_fail EINVAL
     else if is_excluded core rel then io_fail ENOENT
     else io_return ())"

subsection \<open>The upper directory\<close>

text \<open>The error for a path with no entry: \<open>ENOTDIR\<close> when something on the way is not a directory.\<close>

definition u_missing :: "upper \<Rightarrow> path \<Rightarrow> errno" where
  "u_missing u p =
    (if list_ex (\<lambda>q. case map_of u q of None \<Rightarrow> False | Some n \<Rightarrow> \<not> is_dir n) (prefixes (butlast p))
     then ENOTDIR else ENOENT)"

definition u_create :: "path \<Rightarrow> node \<Rightarrow> upper \<Rightarrow> errno + upper" where
  "u_create p n u =
    (if map_of u p \<noteq> None then Inl EEXIST
     else case map_of u (butlast p) of
       None \<Rightarrow> Inl (u_missing u p)
     | Some d \<Rightarrow> if is_dir d then Inr ((p, n) # u) else Inl ENOTDIR)"

definition u_unlink :: "path \<Rightarrow> upper \<Rightarrow> errno + upper" where
  "u_unlink p u =
    (case map_of u p of
       None \<Rightarrow> Inl (u_missing u p)
     | Some n \<Rightarrow> if is_dir n then Inl EISDIR else Inr (AList.delete p u))"

definition u_remove_tree :: "path \<Rightarrow> upper \<Rightarrow> errno + upper" where
  "u_remove_tree p u = Inr (filter (\<lambda>(q, _). \<not> prefix p q) u)"

definition u_set_opaque :: "path \<Rightarrow> upper \<Rightarrow> errno + upper" where
  "u_set_opaque p u =
    (case map_of u p of
       Some (DirNode m _) \<Rightarrow> Inr (AList.update p (DirNode m True) u)
     | _ \<Rightarrow> Inl ENOENT)"

definition u_put :: "path \<Rightarrow> node \<Rightarrow> upper \<Rightarrow> errno + upper" where
  "u_put p n u = (if map_of u p = None then Inl (u_missing u p) else Inr (AList.update p n u))"

definition os_call :: "OverlayCore \<Rightarrow> (upper \<Rightarrow> errno + upper) \<Rightarrow> unit overlay_io" where
  "os_call core f st =
    (if oc_fault core (ov_calls st) then (Inl EIO, st\<lparr>ov_calls := ov_calls st + 1\<rparr>)
     else case f (ov_upper st) of
       Inl e \<Rightarrow> (Inl e, st\<lparr>ov_calls := ov_calls st + 1\<rparr>)
     | Inr u \<Rightarrow> (Inr (), st\<lparr>ov_upper := u, ov_calls := ov_calls st + 1\<rparr>))"

definition whiteout_path :: "path \<Rightarrow> string \<Rightarrow> path" where
  "whiteout_path parent name = parent @ [WHITEOUT_PREFIX @ name]"

definition is_whiteouted :: "upper \<Rightarrow> path \<Rightarrow> string \<Rightarrow> bool" where
  "is_whiteouted u parent name \<longleftrightarrow> map_of u (whiteout_path parent name) \<noteq> None"

definition is_opaque :: "upper \<Rightarrow> path \<Rightarrow> bool" where
  "is_opaque u rel \<longleftrightarrow> map_of u (rel @ [OPAQUE_NAME]) \<noteq> None
     \<or> (case map_of u rel of Some (DirNode _ True) \<Rightarrow> True | _ \<Rightarrow> False)"

subsection \<open>Resolution\<close>

fun find_map :: "('a \<Rightarrow> 'b option) \<Rightarrow> 'a list \<Rightarrow> 'b option" where
  "find_map f [] = None"
| "find_map f (x # xs) = (case f x of None \<Rightarrow> find_map f xs | Some y \<Rightarrow> Some y)"

text \<open>The entry and whether it is in the upper directory.\<close>

definition resolve_component :: "OverlayCore \<Rightarrow> upper \<Rightarrow> path \<Rightarrow> (node \<times> bool) option" where
  "resolve_component core u rel =
    (case map_of u rel of
       Some n \<Rightarrow> Some (n, True)
     | None \<Rightarrow>
        if rel = [] then None
        else if is_whiteouted u (butlast rel) (last rel) \<or> is_opaque u (butlast rel) then None
        else map_option (\<lambda>n. (n, False)) (find_map (\<lambda>lower. ly_lookup lower rel) (oc_lowers core)))"

fun resolve_walk :: "OverlayCore \<Rightarrow> upper \<Rightarrow> path \<Rightarrow> path \<Rightarrow> (node \<times> bool) option \<Rightarrow> (node \<times> bool) option" where
  "resolve_walk core u current [] resolved = resolved"
| "resolve_walk core u current (c # cs) resolved =
    (case resolve_component core u (current @ [c]) of
       None \<Rightarrow> None
     | Some item \<Rightarrow>
        if cs \<noteq> [] \<and> \<not> is_dir (fst item) then None
        else resolve_walk core u (current @ [c]) cs (Some item))"

definition resolve :: "OverlayCore \<Rightarrow> upper \<Rightarrow> path \<Rightarrow> (node \<times> bool) option" where
  "resolve core u rel =
    (if \<not> visible core rel then None
     else if rel = [] then map_option (\<lambda>n. (n, True)) (map_of u [])
     else resolve_walk core u [] rel None)"

definition exists_in_lower :: "OverlayCore \<Rightarrow> path \<Rightarrow> bool" where
  "exists_in_lower core rel \<longleftrightarrow> visible core rel \<and> list_ex (\<lambda>lower. ly_lookup lower rel \<noteq> None) (oc_lowers core)"

definition upper_entries :: "upper \<Rightarrow> path \<Rightarrow> string list" where
  "upper_entries u rel = map (last \<circ> fst) (filter (\<lambda>(p, _). p \<noteq> [] \<and> butlast p = rel) u)"

definition list_names :: "OverlayCore \<Rightarrow> upper \<Rightarrow> path \<Rightarrow> errno + string list" where
  "list_names core u rel =
    (if \<not> validate_rel rel then Inl EINVAL
     else if is_excluded core rel then Inl ENOENT
     else case resolve core u rel of
       None \<Rightarrow> Inl ENOENT
     | Some (n, _) \<Rightarrow>
        if \<not> is_dir n then Inl ENOTDIR
        else
          (let from_lowers = (if is_opaque u rel then []
                 else concat (map (\<lambda>lower. case ly_entries lower rel of None \<Rightarrow> [] | Some names \<Rightarrow> names) (oc_lowers core)));
               names = filter (\<lambda>n. \<not> is_whiteout_name n) (from_lowers @ upper_entries u rel)
           in Inr (remdups (sort (filter (\<lambda>name. \<not> is_whiteouted u rel name
                \<and> (case child rel name of None \<Rightarrow> False | Some c \<Rightarrow> \<not> is_excluded core c)) names)))))"

subsection \<open>The journal of first states\<close>

text \<open>The bytes of a relative path.\<close>

fun path_bytes :: "path \<Rightarrow> string" where
  "path_bytes [] = []"
| "path_bytes [c] = c"
| "path_bytes (c # cs) = c @ ''/'' @ path_bytes cs"

text \<open>Only \<open>NotFound\<close> means absent; every other error of the kernel is returned.\<close>

definition fingerprint_at :: "OverlayCore \<Rightarrow> layer \<Rightarrow> path \<Rightarrow> errno + PathFingerprint" where
  "fingerprint_at core root rel =
    (if \<not> validate_rel rel then Inl EINVAL
     else case ly_stat root rel of
       Inl ENOENT \<Rightarrow> Inr AbsentPrint
     | Inl e \<Rightarrow> Inl e
     | Inr (FileNode m content) \<Rightarrow> Inr (FilePrint (oc_digest core content) (md_mode m) (md_uid m) (md_gid m))
     | Inr (DirNode m _) \<Rightarrow> Inr (DirectoryPrint (md_mode m) (md_uid m) (md_gid m) (md_mtime m))
     | Inr (LinkNode m target) \<Rightarrow> Inr (SymlinkPrint target (md_uid m) (md_gid m))
     | Inr (OtherNode m rdev) \<Rightarrow> Inr (OtherPrint (md_mode m) (md_uid m) (md_gid m) rdev))"

text \<open>The name of the journal entry of a path.\<close>

definition journal_key :: "OverlayCore \<Rightarrow> path \<Rightarrow> string" where
  "journal_key core rel = oc_digest core (path_bytes rel)"

definition record_preimage :: "OverlayCore \<Rightarrow> path \<Rightarrow> unit overlay_io" where
  "record_preimage core rel =
    (if \<not> oc_journaling core then io_return ()
     else if \<not> validate_rel rel then io_fail EINVAL
     else io_read (\<lambda>st.
       if map_of (ov_journal st) (journal_key core rel) \<noteq> None then io_return ()
       else if oc_lowers core = [] then io_fail EINVAL
       else case fingerprint_at core (last (oc_lowers core)) rel of
         Inl e \<Rightarrow> io_fail e
       | Inr state \<Rightarrow>
          io_bind (os_call core Inr) (\<lambda>_. io_update (\<lambda>st.
            st\<lparr>ov_journal := (journal_key core rel, rel, state) # ov_journal st\<rparr>))))"

definition remove_preimages :: "OverlayCore \<Rightarrow> path list \<Rightarrow> unit overlay_io" where
  "remove_preimages core paths =
    io_fold (\<lambda>path _.
      if \<not> validate_rel path then io_fail EINVAL
      else io_bind (os_call core Inr) (\<lambda>_. io_update (\<lambda>st.
        st\<lparr>ov_journal := AList.delete (journal_key core path) (ov_journal st)\<rparr>))) paths ()"

subsection \<open>Copying up\<close>

text \<open>The owner, the times and the extended attributes are copied where the kernel permits it; a
  symbolic link keeps its own mode. The type bits of a mode are the upper four.\<close>

definition copy_metadata :: "OverlayCore \<Rightarrow> bool \<Rightarrow> Metadata \<Rightarrow> Metadata \<Rightarrow> Metadata" where
  "copy_metadata core nofollow source destination =
    \<lparr>md_mode = (if nofollow then md_mode destination
        else or (and (md_mode destination) 0xF000) (and (md_mode source) 0xFFF)),
     md_uid = (if oc_chown core then md_uid source else md_uid destination),
     md_gid = (if oc_chown core then md_gid source else md_gid destination),
     md_mtime = (if oc_utimes core then (max 0 (fst (md_mtime source)), snd (md_mtime source)) else md_mtime destination)\<rparr>"

definition S_IFREG :: u32 where "S_IFREG = 0x8000"
definition S_IFDIR :: u32 where "S_IFDIR = 0x4000"
definition S_IFLNK :: u32 where "S_IFLNK = 0xA000"

fun copied :: "OverlayCore \<Rightarrow> node \<Rightarrow> node" where
  "copied core (FileNode m content) =
    FileNode (copy_metadata core False m (oc_new_meta core (or S_IFREG (and (md_mode m) 0xFFF)))) content"
| "copied core (DirNode m opaque) =
    DirNode (copy_metadata core False m (oc_new_meta core (or S_IFDIR 0x1FF))) (opaque \<and> oc_xattrs core)"
| "copied core (LinkNode m target) = LinkNode (copy_metadata core True m (oc_new_meta core (or S_IFLNK 0x1FF))) target"
| "copied core (OtherNode m rdev) =
    OtherNode (copy_metadata core False m (oc_new_meta core (md_mode m))) (ucast (ucast rdev :: u32))"

text \<open>A parent that only a lower layer has is created and given the metadata and the extended
  attributes of the directory it copies.\<close>

definition copy_parent :: "OverlayCore \<Rightarrow> path \<Rightarrow> node \<Rightarrow> unit overlay_io" where
  "copy_parent core current n =
    io_bind (record_preimage core current) (\<lambda>_.
    io_bind (os_call core (u_create current (DirNode (oc_new_meta core (or S_IFDIR 0x1FF)) False))) (\<lambda>_.
      os_call core (u_put current (copied core n))))"

fun ensure_parents :: "OverlayCore \<Rightarrow> path \<Rightarrow> path \<Rightarrow> unit overlay_io" where
  "ensure_parents core current [] = io_return ()"
| "ensure_parents core current (c # cs) =
    io_read (\<lambda>st.
      case map_of (ov_upper st) (current @ [c]) of
        Some n \<Rightarrow> if is_dir n then ensure_parents core (current @ [c]) cs else io_fail ENOTDIR
      | None \<Rightarrow>
         (case resolve core (ov_upper st) (current @ [c]) of
            None \<Rightarrow> io_fail ENOENT
          | Some (n, _) \<Rightarrow>
             if \<not> is_dir n then io_fail ENOTDIR
             else io_bind (copy_parent core (current @ [c]) n) (\<lambda>_. ensure_parents core (current @ [c]) cs)))"

definition ensure_upper_parents :: "OverlayCore \<Rightarrow> path \<Rightarrow> unit overlay_io" where
  "ensure_upper_parents core rel =
    io_bind (require_visible core rel) (\<lambda>_. ensure_parents core [] (butlast rel))"

definition copy_up :: "OverlayCore \<Rightarrow> path \<Rightarrow> unit overlay_io" where
  "copy_up core rel =
    io_bind (require_visible core rel) (\<lambda>_.
    io_bind (record_preimage core rel) (\<lambda>_.
    io_read (\<lambda>st.
      if map_of (ov_upper st) rel \<noteq> None then io_return ()
      else case resolve core (ov_upper st) rel of
        None \<Rightarrow> io_fail ENOENT
      | Some (n, is_upper) \<Rightarrow>
          if is_upper then io_return ()
          else io_bind (ensure_upper_parents core rel) (\<lambda>_. os_call core (u_create rel (copied core n))))))"

definition mark_opaque :: "OverlayCore \<Rightarrow> path \<Rightarrow> unit overlay_io" where
  "mark_opaque core rel =
    io_bind (io_read (\<lambda>st.
      if map_of (ov_upper st) (rel @ [OPAQUE_NAME]) \<noteq> None then io_return ()
      else os_call core (u_create (rel @ [OPAQUE_NAME]) (FileNode (oc_new_meta core (or S_IFREG 0x180)) [])))) (\<lambda>_.
    if oc_xattrs core then os_call core (u_set_opaque rel) else io_return ())"

definition create_whiteout :: "OverlayCore \<Rightarrow> path \<Rightarrow> unit overlay_io" where
  "create_whiteout core rel =
    io_bind (ensure_upper_parents core rel) (\<lambda>_.
      if rel = [] then io_fail EINVAL
      else io_read (\<lambda>st.
        if map_of (ov_upper st) (whiteout_path (butlast rel) (last rel)) \<noteq> None then io_return ()
        else os_call core (u_create (whiteout_path (butlast rel) (last rel)) (FileNode (oc_new_meta core (or S_IFREG 0x180)) []))))"

definition clear_whiteout :: "OverlayCore \<Rightarrow> path \<Rightarrow> unit overlay_io" where
  "clear_whiteout core rel =
    io_bind (require_visible core rel) (\<lambda>_.
      if rel = [] then io_fail EINVAL
      else io_try (os_call core (u_unlink (whiteout_path (butlast rel) (last rel)))) (\<lambda>r.
        case r of Inr _ \<Rightarrow> io_return () | Inl ENOENT \<Rightarrow> io_return () | Inl e \<Rightarrow> io_fail e))"

subsection \<open>Creating and removing\<close>

text \<open>The three calls that every creation makes before it adds its entry.\<close>

definition make_room :: "OverlayCore \<Rightarrow> path \<Rightarrow> unit overlay_io" where
  "make_room core rel =
    io_bind (record_preimage core rel) (\<lambda>_.
    io_bind (ensure_upper_parents core rel) (\<lambda>_. clear_whiteout core rel))"

text \<open>What \<open>create_file\<close>, \<open>create_symlink\<close> and \<open>create_node\<close> share: they differ in the call that makes the entry.\<close>

definition create_entry :: "OverlayCore \<Rightarrow> path \<Rightarrow> node \<Rightarrow> unit overlay_io" where
  "create_entry core rel n =
    io_bind (require_visible core rel) (\<lambda>_.
    io_read (\<lambda>st.
      if resolve core (ov_upper st) rel \<noteq> None then io_fail EEXIST
      else io_bind (make_room core rel) (\<lambda>_. os_call core (u_create rel n))))"

definition create_file :: "OverlayCore \<Rightarrow> path \<Rightarrow> u32 \<Rightarrow> unit overlay_io" where
  "create_file core rel mode = create_entry core rel (FileNode (oc_new_meta core (or S_IFREG (and mode 0xFFF))) [])"

definition create_symlink :: "OverlayCore \<Rightarrow> path \<Rightarrow> string \<Rightarrow> unit overlay_io" where
  "create_symlink core rel target = create_entry core rel (LinkNode (oc_new_meta core (or S_IFLNK 0x1FF)) target)"

definition create_node :: "OverlayCore \<Rightarrow> path \<Rightarrow> u32 \<Rightarrow> u32 \<Rightarrow> unit overlay_io" where
  "create_node core rel mode rdev = create_entry core rel (OtherNode (oc_new_meta core mode) (ucast rdev))"

definition create_dir :: "OverlayCore \<Rightarrow> path \<Rightarrow> u32 \<Rightarrow> unit overlay_io" where
  "create_dir core rel mode =
    io_bind (require_visible core rel) (\<lambda>_.
    io_read (\<lambda>st.
      if resolve core (ov_upper st) rel \<noteq> None then io_fail EEXIST
      else io_bind (make_room core rel) (\<lambda>_.
        io_bind (os_call core (u_create rel (DirNode (oc_new_meta core (or S_IFDIR 0x1FF)) False))) (\<lambda>_.
        io_bind (os_call core (u_put rel (DirNode ((oc_new_meta core (or S_IFDIR 0x1FF))\<lparr>md_mode := or S_IFDIR (and mode 0xFFF)\<rparr>) False))) (\<lambda>_.
          if exists_in_lower core rel then mark_opaque core rel else io_return ())))))"

text \<open>\<open>record_logical_tree_mapping\<close> to a depth; a directory that is removed is empty, so depth one is enough there.\<close>

fun record_tree :: "OverlayCore \<Rightarrow> nat \<Rightarrow> path \<Rightarrow> path \<Rightarrow> unit overlay_io" where
  "record_tree core 0 source destination = io_fail EIO"
| "record_tree core (Suc depth) source destination =
    io_bind (record_preimage core destination) (\<lambda>_.
    io_read (\<lambda>st.
      case resolve core (ov_upper st) source of
        None \<Rightarrow> io_fail ENOENT
      | Some (n, _) \<Rightarrow>
         if \<not> is_dir n then io_return ()
         else (case list_names core (ov_upper st) source of
             Inl e \<Rightarrow> io_fail e
           | Inr names \<Rightarrow> io_fold (\<lambda>name _. record_tree core depth (source @ [name]) (destination @ [name])) names ())))"

text \<open>The checks of \<open>remove\<close> on the resolved entry, and what it does after them.\<close>

definition removable :: "OverlayCore \<Rightarrow> upper \<Rightarrow> path \<Rightarrow> bool \<Rightarrow> node \<Rightarrow> errno + unit" where
  "removable core u rel directory n =
    (if directory then
       (if \<not> is_dir n then Inl ENOTDIR
        else case list_names core u rel of
          Inl e \<Rightarrow> Inl e
        | Inr names \<Rightarrow> if names \<noteq> [] then Inl ENOTEMPTY else Inr ())
     else if is_dir n then Inl EISDIR else Inr ())"

definition remove_resolved :: "OverlayCore \<Rightarrow> path \<Rightarrow> bool \<Rightarrow> bool \<Rightarrow> unit overlay_io" where
  "remove_resolved core rel directory is_upper =
    io_bind (record_tree core 1 rel rel) (\<lambda>_.
    io_bind (if \<not> is_upper then io_return ()
             else os_call core (if directory then u_remove_tree rel else u_unlink rel)) (\<lambda>_.
    if exists_in_lower core rel then create_whiteout core rel else io_return ()))"

definition remove :: "OverlayCore \<Rightarrow> path \<Rightarrow> bool \<Rightarrow> unit overlay_io" where
  "remove core rel directory =
    io_bind (require_visible core rel) (\<lambda>_.
    io_read (\<lambda>st.
      case resolve core (ov_upper st) rel of
        None \<Rightarrow> io_fail ENOENT
      | Some (n, is_upper) \<Rightarrow>
         (case removable core (ov_upper st) rel directory n of
            Inl e \<Rightarrow> io_fail e
          | Inr _ \<Rightarrow> remove_resolved core rel directory is_upper)))"

subsection \<open>Opening an overlay\<close>

text \<open>On an upper directory that is still empty. The working directory comes with whether it is on
  the same device; what it still holds of an earlier process is deleted and nothing reads it.\<close>

definition overlay_new :: "OverlayCore \<Rightarrow> errno + overlay" where
  "overlay_new core =
    (if oc_lowers core = [] then Inl EINVAL
     else if list_ex (\<lambda>lower. ly_entries lower [] = None) (oc_lowers core) then Inl ENOTDIR
     else rbind (case oc_work core of
         None \<Rightarrow> Inr ()
       | Some (work, same_device) \<Rightarrow>
           if prefix (oc_upper_dir core) work \<or> prefix work (oc_upper_dir core) then Inl EINVAL
           else if \<not> same_device then Inl EXDEV
           else Inr ()) (\<lambda>_.
       if list_ex (\<lambda>path. \<not> validate_rel path \<or> path = []) (oc_excluded core) then Inl EINVAL
       else case ly_stat (hd (oc_lowers core)) [] of
         Inl e \<Rightarrow> Inl e
       | Inr root \<Rightarrow> Inr \<lparr>
           ov_upper = [([], DirNode (copy_metadata core False (node_meta root) (oc_new_meta core (or S_IFDIR 0x1FF)))
             (xattr_opaque root \<and> oc_xattrs core))],
           ov_journal = [], ov_complete = oc_journaling core, ov_calls = 0\<rparr>))"

end
