(* ===== verification/OverlayView.thy ===== *)
theory OverlayView
  imports OverlayCore
begin

section \<open>What the overlay shows\<close>

text \<open>
  The tree that a reader of the overlay sees (\<open>view\<close>), the shape of the upper directory that every
  operation keeps (\<open>upper_ok\<close>), what is relied on about the lower layers (\<open>layer_ok\<close>), and the effect of
  the operations on the tree: copying up does not change it, creating and removing change one path.
\<close>

datatype content = FileContent string | Directory | Symlink string | Device u64

fun content_of :: "node \<Rightarrow> content" where
  "content_of (FileNode _ content) = FileContent content"
| "content_of (DirNode _ _) = Directory"
| "content_of (LinkNode _ target) = Symlink target"
| "content_of (OtherNode _ rdev) = Device rdev"

type_synonym tree = "path \<Rightarrow> content option"

definition view :: "OverlayCore \<Rightarrow> upper \<Rightarrow> tree" where
  "view core u p = (if list_all validate_name p then map_option (content_of \<circ> fst) (resolve core u p) else None)"

definition directory_at :: "upper \<Rightarrow> path \<Rightarrow> bool" where
  "directory_at u p \<longleftrightarrow> (case map_of u p of None \<Rightarrow> False | Some n \<Rightarrow> is_dir n)"

definition upper_ok :: "upper \<Rightarrow> bool" where
  "upper_ok u \<longleftrightarrow>
    directory_at u [] \<and>
    list_all (\<lambda>(p, _). p = [] \<or> directory_at u (butlast p)) u \<and>
    list_all (\<lambda>(p, _). p = [] \<or> (if is_whiteout_name (last p) then \<not> directory_at u (butlast p @ [last p])
      else \<not> is_whiteouted u (butlast p) (last p))) u"

definition layer_ok :: "layer \<Rightarrow> bool" where
  "layer_ok lower \<longleftrightarrow>
    (\<forall>p names n. ly_entries lower p = Some names \<longrightarrow> validate_name n \<longrightarrow> (n \<in> set names \<longleftrightarrow> ly_lookup lower (p @ [n]) \<noteq> None)) \<and>
    (\<forall>p n. ly_entries lower p = None \<longrightarrow> ly_lookup lower (p @ [n]) = None) \<and>
    (\<forall>p n. ly_lookup lower p = None \<longrightarrow> ly_lookup lower (p @ [n]) = None) \<and>
    (\<forall>p n. ly_lookup lower p = Some n \<longrightarrow> \<not> xattr_opaque n) \<and>
    (\<forall>p m rdev. ly_lookup lower p = Some (OtherNode m rdev) \<longrightarrow> ucast (ucast rdev :: u32) = rdev)"

definition lowers_ok :: "OverlayCore \<Rightarrow> bool" where
  "lowers_ok core \<longleftrightarrow> list_all layer_ok (oc_lowers core) \<and> [] \<notin> set (oc_excluded core)"

lemma directory_at_iff: "directory_at u p \<longleftrightarrow> (\<exists>n. map_of u p = Some n \<and> is_dir n)"
  by (auto simp: directory_at_def split: option.splits)

lemma content_of_Directory [simp]: "content_of n = Directory \<longleftrightarrow> is_dir n"
  by (cases n) simp_all

lemma layer_ok_laws:
  assumes "layer_ok lower"
  shows "ly_entries lower p = Some names \<Longrightarrow> validate_name n \<Longrightarrow> n \<in> set names \<longleftrightarrow> ly_lookup lower (p @ [n]) \<noteq> None"
    and "ly_entries lower p = None \<Longrightarrow> ly_lookup lower (p @ [n]) = None"
    and "ly_lookup lower p = None \<Longrightarrow> ly_lookup lower (p @ [n]) = None"
    and "ly_lookup lower p = Some e \<Longrightarrow> \<not> xattr_opaque e"
    and "ly_lookup lower p = Some (OtherNode m rdev) \<Longrightarrow> ucast (ucast rdev :: u32) = rdev"
  using assms unfolding layer_ok_def by metis+

lemma visible_Nil [simp]: "lowers_ok core \<Longrightarrow> visible core []"
  by (auto simp: visible_def validate_rel_def is_excluded_def lowers_ok_def list_ex_iff)

lemma visible_prefixD: "visible core q \<Longrightarrow> prefix p q \<Longrightarrow> visible core p"
  by (auto simp: visible_def validate_rel_def is_excluded_def list_ex_iff prefix_def)

lemma visible_snocD: "visible core (p @ [c]) \<Longrightarrow> visible core p"
  using visible_prefixD [of core "p @ [c]" p] by simp

lemma resolve_walk_snoc:
  "resolve_walk core u current (cs @ [c]) resolved =
    (if cs = [] then resolve_component core u (current @ [c])
     else case resolve_walk core u current cs resolved of
       None \<Rightarrow> None
     | Some item \<Rightarrow> if is_dir (fst item) then resolve_component core u (current @ cs @ [c]) else None)"
proof (induction cs arbitrary: current resolved)
  case Nil
  then show ?case by (simp split: option.splits)
next
  case (Cons x xs)
  show ?case by (cases "xs = []") (auto simp: Cons.IH split: option.splits)
qed

lemma resolve_snoc:
  assumes "lowers_ok core" "upper_ok u"
  shows "resolve core u (p @ [c]) =
    (if visible core (p @ [c]) then
       case resolve core u p of
         None \<Rightarrow> None
       | Some item \<Rightarrow> if is_dir (fst item) then resolve_component core u (p @ [c]) else None
     else None)"
  using assms visible_snocD [of core p c]
  by (auto simp: resolve_def resolve_walk_snoc upper_ok_def directory_at_def split: option.splits)

lemma resolve_upper:
  assumes "lowers_ok core" "upper_ok u" "resolve core u rel = Some (n, b)"
  shows "if b then map_of u rel = Some n else map_of u rel = None"
proof (cases rel rule: rev_cases)
  case Nil
  then show ?thesis using assms by (auto simp: resolve_def)
next
  case (snoc p c)
  then have "resolve_component core u rel = Some (n, b)"
    using assms by (simp add: resolve_snoc split: if_splits option.splits)
  then show ?thesis by (auto simp: resolve_component_def split: option.splits if_splits)
qed

lemma view_names: "view core u p = Some x \<Longrightarrow> list_all validate_name p"
  by (simp add: view_def split: if_splits)

lemma view_Nil:
  "lowers_ok core \<Longrightarrow> upper_ok u \<Longrightarrow> view core u [] = Some Directory"
  by (auto simp: view_def resolve_def upper_ok_def directory_at_def split: option.splits)

lemma view_snoc:
  assumes "lowers_ok core" "upper_ok u"
  shows "view core u (p @ [c]) =
    (if validate_name c \<and> visible core (p @ [c]) \<and> view core u p = Some Directory
     then map_option (content_of \<circ> fst) (resolve_component core u (p @ [c])) else None)"
  by (auto simp: view_def resolve_snoc [OF assms] split: option.splits)

lemma view_below:
  assumes "lowers_ok core" "upper_ok u" "q \<noteq> []" "\<And>c. view core u (p @ [c]) = None"
  shows "view core u (p @ q) = None"
  using assms(3)
proof (induction q rule: rev_induct)
  case (snoc c cs)
  then show ?case using assms(4) view_snoc [OF assms(1,2), of "p @ cs" c] by (cases "cs = []") auto
qed simp

lemma view_not_dir:
  assumes "lowers_ok core" "upper_ok u" "view core u p \<noteq> Some Directory" "q \<noteq> []"
  shows "view core u (p @ q) = None"
  using view_below [OF assms(1,2,4)] assms(3) by (simp add: view_snoc [OF assms(1,2)])

lemma view_outside:
  assumes ok: "lowers_ok core" "upper_ok u" "upper_ok u'"
    and same: "\<And>p c. \<not> prefix rel (p @ [c]) \<Longrightarrow> list_all validate_name (p @ [c]) \<Longrightarrow>
      resolve_component core u' (p @ [c]) = resolve_component core u (p @ [c])"
  shows "\<not> prefix rel p \<Longrightarrow> view core u' p = view core u p"
proof (induction p rule: rev_induct)
  case Nil
  then show ?case by (simp add: view_Nil ok)
next
  case (snoc c p)
  then have "view core u' p = view core u p" by auto
  then show ?case using same [of p c] snoc.prems
    by (auto simp: view_snoc [OF ok(1,2)] view_snoc [OF ok(1,3)] dest: view_names)
qed

lemma view_change:
  assumes ok: "lowers_ok core" "upper_ok u" "upper_ok u'"
    and outside: "\<And>p. \<not> prefix rel p \<Longrightarrow> view core u' p = view core u p"
    and below: "\<And>c. view core u' (rel @ [c]) = None" "\<And>c. view core u (rel @ [c]) = None"
  shows "view core u' = (view core u)(rel := view core u' rel)"
proof
  fix p
  show "view core u' p = ((view core u)(rel := view core u' rel)) p"
  proof (cases "prefix rel p \<and> p \<noteq> rel")
    case True
    then obtain q where "p = rel @ q" "q \<noteq> []" by (auto simp: prefix_def)
    then show ?thesis using view_below [OF ok(1,2) _ below(2)] view_below [OF ok(1,3) _ below(1)] by simp
  qed (use outside in auto)
qed

lemma view_same:
  assumes ok: "lowers_ok core" "upper_ok u" "upper_ok u'"
    and same: "\<And>p c. list_all validate_name (p @ [c]) \<Longrightarrow> view core u p = Some Directory \<Longrightarrow> visible core (p @ [c]) \<Longrightarrow>
      map_option (content_of \<circ> fst) (resolve_component core u' (p @ [c])) =
      map_option (content_of \<circ> fst) (resolve_component core u (p @ [c]))"
  shows "view core u' = view core u"
proof
  fix p
  show "view core u' p = view core u p"
  proof (induction p rule: rev_induct)
    case (snoc c p)
    then show ?case using same [of p c]
      by (auto simp: view_snoc [OF ok(1,2)] view_snoc [OF ok(1,3)] dest: view_names)
  qed (simp add: view_Nil ok)
qed

subsection \<open>The shape of the upper directory\<close>

definition map_ok :: "(path \<Rightarrow> node option) \<Rightarrow> bool" where
  "map_ok m \<longleftrightarrow> (\<exists>n. m [] = Some n \<and> is_dir n) \<and>
    (\<forall>p c. m (p @ [c]) \<noteq> None \<longrightarrow> (\<exists>n. m p = Some n \<and> is_dir n)) \<and>
    (\<forall>p c. m (p @ [c]) \<noteq> None \<longrightarrow>
      (if is_whiteout_name c then \<not> (\<exists>n. m (p @ [c]) = Some n \<and> is_dir n) else m (whiteout_path p c) = None))"

lemma list_all_map_of:
  "list_all (\<lambda>(p, _). p = [] \<or> P (butlast p) (last p)) u \<longleftrightarrow> (\<forall>p c. map_of u (p @ [c]) \<noteq> None \<longrightarrow> P p c)"
proof -
  have "list_all (\<lambda>(p, _). p = [] \<or> P (butlast p) (last p)) u \<longleftrightarrow> (\<forall>q\<in>fst ` set u. q = [] \<or> P (butlast q) (last q))"
    by (auto simp: list_all_iff)
  also have "\<dots> \<longleftrightarrow> (\<forall>p c. p @ [c] \<in> fst ` set u \<longrightarrow> P p c)"
    by (metis append_butlast_last_id butlast_snoc last_snoc snoc_eq_iff_butlast)
  finally show ?thesis by (simp add: map_of_eq_None_iff)
qed

lemma upper_ok_map: "upper_ok u \<longleftrightarrow> map_ok (map_of u)"
proof -
  have marker: "(\<not> is_whiteouted u p c) \<longleftrightarrow> map_of u (whiteout_path p c) = None" for p c
    by (simp add: is_whiteouted_def)
  show ?thesis
    unfolding upper_ok_def map_ok_def directory_at_iff marker
      list_all_map_of [of "\<lambda>p c. \<exists>n. map_of u p = Some n \<and> is_dir n"]
      list_all_map_of [of "\<lambda>p c. if is_whiteout_name c then \<not> (\<exists>n. map_of u (p @ [c]) = Some n \<and> is_dir n)
        else map_of u (whiteout_path p c) = None"]
    by (rule refl)
qed

lemma is_whiteout_prefix [simp]: "is_whiteout_name (WHITEOUT_PREFIX @ c)"
  by (simp add: is_whiteout_name_def starts_with_def)

lemma is_whiteout_opaque [simp]: "is_whiteout_name OPAQUE_NAME"
  by (simp add: is_whiteout_name_def starts_with_def OPAQUE_NAME_def WHITEOUT_PREFIX_def)

lemma validate_name_not_whiteout [simp]: "validate_name c \<Longrightarrow> \<not> is_whiteout_name c"
  by (simp add: validate_name_def)

lemma validate_name_whiteout [simp]: "\<not> validate_name (WHITEOUT_PREFIX @ c)" "\<not> validate_name OPAQUE_NAME"
  by (simp_all add: validate_name_def)

lemma whiteout_path_inj [simp]: "whiteout_path p c = whiteout_path q d \<longleftrightarrow> p = q \<and> c = d"
  by (simp add: whiteout_path_def)

lemma whiteout_path_not_name [simp]: "validate_name c \<Longrightarrow> whiteout_path q d \<noteq> p @ [c]" "validate_name c \<Longrightarrow> p @ [c] \<noteq> whiteout_path q d"
  by (auto simp: whiteout_path_def)

lemma whiteout_path_not_opaque [simp]: "validate_name c \<Longrightarrow> whiteout_path q c \<noteq> p @ [OPAQUE_NAME]" "validate_name c \<Longrightarrow> p @ [OPAQUE_NAME] \<noteq> whiteout_path q c"
proof -
  have "validate_name c \<Longrightarrow> WHITEOUT_PREFIX @ c \<noteq> OPAQUE_NAME"
    by (auto simp: validate_name_def is_whiteout_name_def starts_with_def OPAQUE_NAME_def WHITEOUT_PREFIX_def)
  then show "validate_name c \<Longrightarrow> whiteout_path q c \<noteq> p @ [OPAQUE_NAME]" "validate_name c \<Longrightarrow> p @ [OPAQUE_NAME] \<noteq> whiteout_path q c"
    by (auto simp: whiteout_path_def)
qed

lemma map_ok_child: "map_ok m \<Longrightarrow> m p = None \<Longrightarrow> m (p @ [c]) = None"
  by (metis map_ok_def option.distinct(1))

lemma map_ok_below: "map_ok m \<Longrightarrow> m p = None \<Longrightarrow> m (p @ q) = None"
  by (induction q rule: rev_induct) (auto simp flip: append_assoc intro: map_ok_child)


text \<open>What the four kinds of change keep.\<close>

lemma WHITEOUT_PREFIX_not_Nil [simp]: "WHITEOUT_PREFIX \<noteq> []" "WHITEOUT_PREFIX @ c \<noteq> c"
  by (simp_all add: WHITEOUT_PREFIX_def)

lemma map_okI:
  assumes "m [] = Some n" "is_dir n"
    and "\<And>p c. m (p @ [c]) \<noteq> None \<Longrightarrow> \<exists>n. m p = Some n \<and> is_dir n"
    and "\<And>p c. m (p @ [c]) \<noteq> None \<Longrightarrow> \<not> is_whiteout_name c \<Longrightarrow> m (whiteout_path p c) = None"
    and "\<And>p c n. m (p @ [c]) = Some n \<Longrightarrow> is_whiteout_name c \<Longrightarrow> \<not> is_dir n"
  shows "map_ok m"
  using assms unfolding map_ok_def by auto

lemma map_ok_root: "map_ok m \<Longrightarrow> \<exists>n. m [] = Some n \<and> is_dir n"
  and map_ok_parent: "map_ok m \<Longrightarrow> m (p @ [c]) \<noteq> None \<Longrightarrow> \<exists>n. m p = Some n \<and> is_dir n"
  and map_ok_whiteout: "map_ok m \<Longrightarrow> m (p @ [c]) \<noteq> None \<Longrightarrow> \<not> is_whiteout_name c \<Longrightarrow> m (whiteout_path p c) = None"
  and map_ok_marker: "map_ok m \<Longrightarrow> m (p @ [c]) = Some n \<Longrightarrow> is_whiteout_name c \<Longrightarrow> \<not> is_dir n"
  unfolding map_ok_def by (blast, blast, metis, metis option.distinct(1))

lemma map_ok_upd:
  assumes ok: "map_ok m" and parent: "m p = Some d" "is_dir d"
    and entry: "m (p @ [c]) = None \<or> is_dir n" "is_whiteout_name c \<Longrightarrow> \<not> is_dir n"
    and name: "\<not> is_whiteout_name c \<Longrightarrow> m (whiteout_path p c) = None"
    and marker: "\<And>c'. c = WHITEOUT_PREFIX @ c' \<Longrightarrow> \<not> is_whiteout_name c' \<Longrightarrow> m (p @ [c']) = None"
  shows "map_ok (m(p @ [c] \<mapsto> n))"
proof -
  let ?m = "m(p @ [c] \<mapsto> n)"
  obtain r where r: "m [] = Some r" "is_dir r" using map_ok_root [OF ok] by blast
  show ?thesis
  proof (rule map_okI [of _ r])
    fix q e
    assume e: "?m (q @ [e]) \<noteq> None"
    have "\<exists>n. m q = Some n \<and> is_dir n"
      using e parent map_ok_parent [OF ok, of q e] by (cases "q @ [e] = p @ [c]") auto
    then show "\<exists>n. ?m q = Some n \<and> is_dir n" using entry by auto
  next
    fix q e f
    assume "?m (q @ [e]) = Some f" "is_whiteout_name e"
    then show "\<not> is_dir f" using entry map_ok_marker [OF ok, of q e f] by (auto split: if_splits)
  next
    fix q e
    assume e: "?m (q @ [e]) \<noteq> None"
    assume "\<not> is_whiteout_name e"
    then show "?m (whiteout_path q e) = None"
      using e name marker map_ok_whiteout [OF ok, of q e]
      by (cases "q @ [e] = p @ [c]") (auto simp: whiteout_path_def)
  qed (use r in auto)
qed

lemma map_ok_delete:
  assumes ok: "map_ok m" and leaf: "m p = Some f" "\<not> is_dir f"
  shows "map_ok (m(p := None))"
proof -
  obtain r where r: "m [] = Some r" "is_dir r" using map_ok_root [OF ok] by blast
  show ?thesis
  proof (rule map_okI [of _ r])
    show "(m(p := None)) [] = Some r" using r leaf by auto
    fix q e
    assume e: "(m(p := None)) (q @ [e]) \<noteq> None"
    then show "\<exists>n. (m(p := None)) q = Some n \<and> is_dir n"
      using leaf map_ok_parent [OF ok, of q e] by (auto split: if_splits)
    assume "\<not> is_whiteout_name e"
    then show "(m(p := None)) (whiteout_path q e) = None"
      using e map_ok_whiteout [OF ok, of q e] by (auto split: if_splits)
  qed (use r map_ok_marker [OF ok] in \<open>auto split: if_splits\<close>)
qed

lemma map_ok_remove_tree:
  assumes ok: "map_ok m" and rel: "rel \<noteq> []"
  shows "map_ok (\<lambda>q. if prefix rel q then None else m q)"
proof -
  obtain r where r: "m [] = Some r" "is_dir r" using map_ok_root [OF ok] by blast
  show ?thesis
  proof (rule map_okI [of _ r])
    fix q e
    assume e: "(if prefix rel (q @ [e]) then None else m (q @ [e])) \<noteq> None"
    then show "\<exists>n. (if prefix rel q then None else m q) = Some n \<and> is_dir n"
      using map_ok_parent [OF ok, of q e] by (auto split: if_splits)
    assume "\<not> is_whiteout_name e"
    then show "(if prefix rel (whiteout_path q e) then None else m (whiteout_path q e)) = None"
      using e map_ok_whiteout [OF ok, of q e] by (auto split: if_splits)
  qed (use r rel map_ok_marker [OF ok] in \<open>auto split: if_splits\<close>)
qed

lemma u_create_Inr:
  "u_create p n u = Inr u' \<longleftrightarrow>
    map_of u p = None \<and> (\<exists>d. map_of u (butlast p) = Some d \<and> is_dir d) \<and> u' = (p, n) # u"
  by (auto simp: u_create_def split: option.splits if_splits)

lemma u_unlink_Inr:
  "u_unlink p u = Inr u' \<longleftrightarrow> (\<exists>f. map_of u p = Some f \<and> \<not> is_dir f) \<and> u' = AList.delete p u"
  by (auto simp: u_unlink_def split: option.splits if_splits)

lemma u_put_Inr: "u_put p n u = Inr u' \<longleftrightarrow> map_of u p \<noteq> None \<and> u' = AList.update p n u"
  by (auto simp: u_put_def)

lemma u_set_opaque_Inr:
  "u_set_opaque p u = Inr u' \<longleftrightarrow> (\<exists>m b. map_of u p = Some (DirNode m b) \<and> u' = AList.update p (DirNode m True) u)"
  by (auto simp: u_set_opaque_def split: option.splits node.splits)

lemma map_of_remove_tree:
  "map_of (filter (\<lambda>(q, _). \<not> prefix p q) u) = (\<lambda>q. if prefix p q then None else map_of u q)"
proof
  fix q
  show "map_of (filter (\<lambda>(q, _). \<not> prefix p q) u) q = (if prefix p q then None else map_of u q)"
    by (induction u) auto
qed

lemma os_call_Inr:
  "os_call core f st = (Inr r, st') \<longleftrightarrow>
    \<not> oc_fault core (ov_calls st) \<and>
    (\<exists>u. f (ov_upper st) = Inr u \<and> st' = st\<lparr>ov_upper := u, ov_calls := ov_calls st + 1\<rparr>)"
  by (auto simp: os_call_def split: sum.splits if_splits)

lemma os_call_Inl:
  "os_call core f st = (Inl e, st') \<Longrightarrow> st' = st\<lparr>ov_calls := ov_calls st + 1\<rparr>"
  by (auto simp: os_call_def split: sum.splits if_splits)

lemma record_preimage_upper [simp]: "ov_upper (snd (record_preimage core rel st)) = ov_upper st"
  by (auto simp: record_preimage_def io_read_def io_bind_def io_update_def os_call_def io_return_def io_fail_def Let_def
      split: sum.splits)

lemma record_preimage_upperD: "record_preimage core rel st = (r, st') \<Longrightarrow> ov_upper st' = ov_upper st"
  by (metis record_preimage_upper snd_conv)

lemma require_visible_simp:
  "visible core rel \<Longrightarrow> require_visible core rel st = (Inr (), st)"
  "\<not> visible core rel \<Longrightarrow> \<exists>e. require_visible core rel st = (Inl e, st)"
  by (auto simp: require_visible_def visible_def io_return_def io_fail_def)


subsection \<open>Copying up keeps the view\<close>

lemma resolve_component_cong:
  assumes "map_of u' (p @ [c]) = map_of u (p @ [c])"
    and "map_of u' (whiteout_path p c) = None \<longleftrightarrow> map_of u (whiteout_path p c) = None"
    and "is_opaque u' p = is_opaque u p"
  shows "resolve_component core u' (p @ [c]) = resolve_component core u (p @ [c])"
  using assms by (auto simp: resolve_component_def is_whiteouted_def simp del: not_None_eq)

lemma resolve_component_upper: "map_of u p = Some n \<Longrightarrow> resolve_component core u p = Some (n, True)"
  by (simp add: resolve_component_def)

lemma is_opaque_cong:
  "map_of u' (p @ [OPAQUE_NAME]) = map_of u (p @ [OPAQUE_NAME]) \<Longrightarrow>
   (\<And>m. map_of u' p = Some (DirNode m True) \<Longrightarrow> \<exists>m. map_of u p = Some (DirNode m True)) \<Longrightarrow>
   (\<And>m. map_of u p = Some (DirNode m True) \<Longrightarrow> \<exists>m. map_of u' p = Some (DirNode m True)) \<Longrightarrow>
   is_opaque u' p = is_opaque u p"
  by (auto simp: is_opaque_def split: option.splits node.splits bool.splits)

lemma view_put:
  assumes ok: "lowers_ok core" "upper_ok u" and v: "view core u (p0 @ [c0]) = Some (content_of e)"
    and e: "\<not> xattr_opaque e"
    and parent: "map_of u p0 = Some d" "is_dir d"
    and absent: "map_of u (p0 @ [c0]) = None"
    and u': "map_of u' = (map_of u)(p0 @ [c0] \<mapsto> e)"
  shows "upper_ok u'" "view core u' = view core u"
proof -
  have c0: "validate_name c0" and comp: "map_option (content_of \<circ> fst) (resolve_component core u (p0 @ [c0])) = Some (content_of e)"
    using v by (auto simp: view_snoc [OF ok] split: if_splits)
  have "map_of u (whiteout_path p0 c0) = None"
    using comp absent by (auto simp: resolve_component_def is_whiteouted_def split: if_splits)
  then show ok': "upper_ok u'"
    unfolding upper_ok_map u' using ok c0 parent absent by (intro map_ok_upd [where d = d]) (auto simp: upper_ok_map)
  show "view core u' = view core u"
  proof (rule view_same [OF ok ok'])
    fix p c
    assume c: "list_all validate_name (p @ [c])"
    have op: "is_opaque u' p = is_opaque u p"
      using absent e c0 by (intro is_opaque_cong) (auto simp: u' split: if_splits)
    show "map_option (content_of \<circ> fst) (resolve_component core u' (p @ [c])) =
      map_option (content_of \<circ> fst) (resolve_component core u (p @ [c]))"
    proof (cases "p @ [c] = p0 @ [c0]")
      case True
      then have "resolve_component core u' (p @ [c]) = Some (e, True)"
        using u' by (intro resolve_component_upper) simp
      then have "map_option (content_of \<circ> fst) (resolve_component core u' (p @ [c])) = Some (content_of e)" by simp
      then show ?thesis unfolding True comp .
    next
      case False
      then show ?thesis using c c0 op by (subst resolve_component_cong) (auto simp: u' whiteout_path_def)
    qed
  qed
qed

lemma resolve_lower:
  assumes "lowers_ok core" "resolve_component core u rel = Some (n, b)" "map_of u rel = None"
  shows "\<not> b" "\<not> xattr_opaque n" "content_of (copied core n) = content_of n" "is_dir (copied core n) = is_dir n"
proof -
  have find: "find_map (\<lambda>lower. ly_lookup lower rel) ls = Some n \<Longrightarrow> \<exists>lower\<in>set ls. ly_lookup lower rel = Some n" for ls
    by (induction ls) (auto split: option.splits)
  show "\<not> b" using assms(2,3) by (auto simp: resolve_component_def split: if_splits)
  obtain lower where "layer_ok lower" "ly_lookup lower rel = Some n"
    using assms find [of "oc_lowers core"]
    by (auto simp: resolve_component_def lowers_ok_def list_all_iff split: if_splits)
  then show "\<not> xattr_opaque n" "content_of (copied core n) = content_of n"
    using layer_ok_laws(4,5) by (blast, cases n) auto
  then show "is_dir (copied core n) = is_dir n" using content_of_Directory by metis
qed

text \<open>What a step that only copies up leaves behind: a well-formed upper directory, the same view,
  and changes only on the way to \<open>rel\<close>.\<close>

definition kept :: "OverlayCore \<Rightarrow> path \<Rightarrow> path \<Rightarrow> upper \<Rightarrow> upper \<Rightarrow> bool" where
  "kept core from rel u u' \<longleftrightarrow> upper_ok u' \<and> view core u' = view core u \<and>
    (\<forall>q. map_of u' q \<noteq> map_of u q \<longrightarrow> strict_prefix from q \<and> prefix q rel)"

lemma kept_refl: "upper_ok u \<Longrightarrow> kept core from rel u u"
  by (simp add: kept_def)

lemma kept_step:
  "kept core from (from @ [c]) u u1 \<Longrightarrow> kept core (from @ [c]) (from @ c # cs) u1 u2 \<Longrightarrow> kept core from (from @ c # cs) u u2"
  unfolding kept_def
  by (metis (no_types, opaque_lifting) append.assoc append_Cons append_Nil prefixI prefix_order.order_trans
      prefix_snocD prefix_order.less_trans)


lemma copy_parent_map:
  assumes "copy_parent core q n st = (r, st')" "copied core n = DirNode y False"
  shows "(\<exists>e. r = Inl e \<and> ov_upper st' = ov_upper st) \<or>
    (\<exists>x. map_of (ov_upper st') = (map_of (ov_upper st))(q \<mapsto> DirNode x False))"
proof -
  obtain r1 st1 where 1: "record_preimage core q st = (r1, st1)" by fastforce
  obtain r2 st2 where 2: "os_call core (u_create q (DirNode (oc_new_meta core (or S_IFDIR 0x1FF)) False)) st1 = (r2, st2)" by fastforce
  obtain r3 st3 where 3: "os_call core (u_put q (copied core n)) st2 = (r3, st3)" by fastforce
  show ?thesis
    using assms 1 2 3 record_preimage_upperD [OF 1]
    by (cases r1; cases r2; cases r3)
      (auto simp: copy_parent_def io_bind_def os_call_Inr u_create_Inr u_put_Inr update_conv' fun_upd_def dest!: os_call_Inl)
qed

lemma kept_put:
  assumes "lowers_ok core" "upper_ok u" "view core u (p @ [c]) = Some Directory"
    and "map_of u p = Some d" "is_dir d" "map_of u (p @ [c]) = None"
    and "map_of u' = (map_of u)(p @ [c] \<mapsto> DirNode x False)"
  shows "kept core p (p @ [c]) u u'"
  using view_put [of core u p c "DirNode x False", OF assms(1,2) _ _ assms(4-7)] assms(3,6,7)
  by (simp add: kept_def strict_prefix_def)

lemma copy_parent_kept:
  assumes ok: "lowers_ok core" "upper_ok (ov_upper st)"
    and at: "map_of (ov_upper st) p = Some d" "is_dir d" "map_of (ov_upper st) (p @ [c]) = None"
    and res: "resolve core (ov_upper st) (p @ [c]) = Some (n, b)" "is_dir n" and names: "list_all validate_name (p @ [c])"
    and run: "copy_parent core (p @ [c]) n st = (r, st')"
  shows "kept core p (p @ [c]) (ov_upper st) (ov_upper st')"
    and "r = Inr x \<Longrightarrow> \<exists>n. map_of (ov_upper st') (p @ [c]) = Some n \<and> is_dir n"
proof -
  have v: "view core (ov_upper st) (p @ [c]) = Some Directory" using res names by (simp add: view_def)
  have comp: "resolve_component core (ov_upper st) (p @ [c]) = Some (n, b)"
    using res by (simp add: resolve_snoc [OF ok] split: if_splits option.splits)
  have "\<exists>y. copied core n = DirNode y False"
    using resolve_lower(2) [OF ok(1) comp at(3)] res(2) by (cases n) auto
  then obtain y where "copied core n = DirNode y False" by blast
  note map = copy_parent_map [OF run this]
  show "kept core p (p @ [c]) (ov_upper st) (ov_upper st')"
    using map kept_refl [OF ok(2)] kept_put [OF ok v at] by metis
  show "r = Inr x \<Longrightarrow> \<exists>n. map_of (ov_upper st') (p @ [c]) = Some n \<and> is_dir n"
    using map by auto
qed

lemma ensure_parents_kept:
  assumes ok: "lowers_ok core"
  shows "upper_ok (ov_upper st) \<Longrightarrow> map_of (ov_upper st) current = Some d \<Longrightarrow> is_dir d \<Longrightarrow>
    list_all validate_name (current @ cs) \<Longrightarrow> ensure_parents core current cs st = (r, st') \<Longrightarrow>
    kept core current (current @ cs) (ov_upper st) (ov_upper st') \<and>
    (\<forall>x. r = Inr x \<longrightarrow> (\<exists>n. map_of (ov_upper st') (current @ cs) = Some n \<and> is_dir n))"
proof (induction cs arbitrary: current st d)
  case Nil
  then show ?case by (auto simp: io_return_def kept_refl)
next
  case (Cons c cs)
  let ?u = "ov_upper st" and ?q = "current @ [c]"
  have names: "list_all validate_name ?q" "list_all validate_name (?q @ cs)" using Cons.prems by auto
  show ?case
  proof (cases "map_of ?u ?q")
    case (Some n)
    show ?thesis
    proof (cases "is_dir n")
      case True
      then have "ensure_parents core ?q cs st = (r, st')" using Cons.prems(5) Some by (simp add: io_read_def)
      then show ?thesis
        using Cons.IH [OF Cons.prems(1) Some True names(2)] kept_step [OF kept_refl [OF Cons.prems(1)]] by simp
    next
      case False
      then show ?thesis using Cons.prems(1,5) Some by (auto simp: io_read_def io_fail_def kept_refl)
    qed
  next
    case None
    show ?thesis
    proof (cases "\<exists>n b. resolve core ?u ?q = Some (n, b) \<and> is_dir n")
      case True
      then obtain n b where n: "resolve core ?u ?q = Some (n, b)" "is_dir n" by blast
      obtain r1 st1 where run: "copy_parent core ?q n st = (r1, st1)" by fastforce
      note step = copy_parent_kept [OF ok Cons.prems(1,2,3) None n names(1) run]
      have ok1: "upper_ok (ov_upper st1)" using step(1) by (simp add: kept_def)
      have rest: "(case r1 of Inl e \<Rightarrow> (Inl e, st1) | Inr _ \<Rightarrow> ensure_parents core ?q cs st1) = (r, st')"
        using Cons.prems(5) None n run by (simp add: io_read_def io_bind_def split: sum.splits)
      show ?thesis
      proof (cases r1)
        case (Inl e)
        then show ?thesis using rest kept_step [OF step(1) kept_refl [OF ok1]] by auto
      next
        case (Inr x)
        then obtain n' where n': "map_of (ov_upper st1) ?q = Some n'" "is_dir n'" using step(2) by blast
        have "ensure_parents core ?q cs st1 = (r, st')" using rest Inr by simp
        then show ?thesis using Cons.IH [OF ok1 n' names(2)] kept_step [OF step(1)] by simp
      qed
    next
      case False
      then show ?thesis using Cons.prems(1,5) None
        by (auto simp: io_read_def io_fail_def kept_refl split: option.splits if_splits)
    qed
  qed
qed


lemma ensure_upper_parents_kept:
  assumes ok: "lowers_ok core" "upper_ok (ov_upper st)" "list_all validate_name rel"
    and run: "ensure_upper_parents core rel st = (r, st')"
  shows "kept core [] (butlast rel) (ov_upper st) (ov_upper st')"
    and "r = Inr x \<Longrightarrow> \<exists>n. map_of (ov_upper st') (butlast rel) = Some n \<and> is_dir n"
proof -
  obtain d where d: "map_of (ov_upper st) [] = Some d" "is_dir d"
    using map_ok_root ok(2) unfolding upper_ok_map by blast
  have names: "list_all validate_name ([] @ butlast rel)"
    using ok(3) by (auto simp: list_all_iff dest: in_set_butlastD)
  have "kept core [] (butlast rel) (ov_upper st) (ov_upper st') \<and>
    (\<forall>x. r = Inr x \<longrightarrow> (\<exists>n. map_of (ov_upper st') (butlast rel) = Some n \<and> is_dir n))"
  proof (cases "visible core rel")
    case True
    then show ?thesis using run ensure_parents_kept [OF ok(1,2) d names, of r st']
      by (simp add: ensure_upper_parents_def io_bind_def require_visible_simp)
  next
    case False
    then show ?thesis using run require_visible_simp(2) [OF False, of st] ok(2)
      by (auto simp: ensure_upper_parents_def io_bind_def kept_refl)
  qed
  then show "kept core [] (butlast rel) (ov_upper st) (ov_upper st')"
    and "r = Inr x \<Longrightarrow> \<exists>n. map_of (ov_upper st') (butlast rel) = Some n \<and> is_dir n" by auto
qed

lemma kept_frame: "kept core [] rel u u' \<Longrightarrow> \<not> prefix q rel \<Longrightarrow> map_of u' q = map_of u q"
  unfolding kept_def by blast

lemma not_prefix_butlast: "rel \<noteq> [] \<Longrightarrow> \<not> prefix (butlast rel @ c # cs) (butlast rel)"
  by (simp add: prefix_def)

lemma copy_up_kept:
  assumes ok: "lowers_ok core" "upper_ok (ov_upper st)" "list_all validate_name rel"
    and run: "copy_up core rel st = (r, st')"
  shows "upper_ok (ov_upper st') \<and> view core (ov_upper st') = view core (ov_upper st) \<and>
    (\<forall>x. r = Inr x \<longrightarrow> map_of (ov_upper st') rel \<noteq> None)"
proof -
  let ?u = "ov_upper st"
  obtain r1 st1 where rec: "record_preimage core rel st = (r1, st1)" by fastforce
  have u1: "ov_upper st1 = ?u" using record_preimage_upperD [OF rec] .
  show ?thesis
  proof (cases "visible core rel \<and> r1 = Inr () \<and> map_of ?u rel = None \<and> (\<exists>n. resolve core ?u rel = Some (n, False))")
    case True
    then obtain n where n: "visible core rel" "r1 = Inr ()" "map_of ?u rel = None" "resolve core ?u rel = Some (n, False)" by blast
    have "rel \<noteq> []" using n(3) ok(2) by (auto simp: upper_ok_def directory_at_def)
    then obtain p c where rel: "rel = p @ [c]" by (metis append_butlast_last_id)
    obtain r2 st2 where ens: "ensure_upper_parents core rel st1 = (r2, st2)" by fastforce
    have kept: "kept core [] p ?u (ov_upper st2)"
      and dir: "r2 = Inr x \<Longrightarrow> \<exists>n. map_of (ov_upper st2) p = Some n \<and> is_dir n" for x
      using ensure_upper_parents_kept [OF ok(1) _ ok(3) ens] u1 ok(2) rel by auto
    have comp: "resolve_component core ?u rel = Some (n, False)"
      using n(4) by (simp add: rel resolve_snoc [OF ok(1,2)] split: if_splits option.splits)
    obtain r3 st3 where put: "os_call core (u_create rel (copied core n)) st2 = (r3, st3)" by fastforce
    have run': "(r, st') = (case r2 of Inl e \<Rightarrow> (Inl e, st2) | Inr _ \<Rightarrow> (r3, st3))"
      using run rec n u1 ens put
      by (cases r2) (auto simp: copy_up_def io_bind_def io_read_def require_visible_simp)
    have ok2: "upper_ok (ov_upper st2)" "view core (ov_upper st2) = view core ?u"
      using kept by (simp_all add: kept_def)
    show ?thesis
    proof (cases "\<exists>x y. r2 = Inr x \<and> r3 = Inr y")
      case True
      then obtain d where d: "map_of (ov_upper st2) p = Some d" "is_dir d" using dir by blast
      have u3: "map_of (ov_upper st3) = (map_of (ov_upper st2))(p @ [c] \<mapsto> copied core n)" "map_of (ov_upper st2) (p @ [c]) = None"
        using True put rel by (auto simp: os_call_Inr u_create_Inr)
      have "view core (ov_upper st2) (p @ [c]) = Some (content_of (copied core n))"
        using n(4) ok(3) ok2 rel resolve_lower(3) [OF ok(1) comp n(3)] by (simp add: view_def)
      moreover have "\<not> xattr_opaque (copied core n)" using resolve_lower(2) [OF ok(1) comp n(3)] by (cases n) auto
      ultimately have "upper_ok (ov_upper st3)" "view core (ov_upper st3) = view core ?u"
        using view_put [OF ok(1) ok2(1) _ _ d u3(2,1)] ok2(2) by auto
      then show ?thesis using run' True u3(1) rel by auto
    next
      case False
      then show ?thesis using run' ok2 put by (cases r2; cases r3) (auto dest!: os_call_Inl)
    qed
  next
    case False
    show ?thesis
    proof (cases "visible core rel \<and> r1 = Inr ()")
      case True
      then have run': "copy_up core rel st = (if map_of ?u rel \<noteq> None then (Inr (), st1)
          else case resolve core ?u rel of None \<Rightarrow> (Inl ENOENT, st1) | Some (n, True) \<Rightarrow> (Inr (), st1) | _ \<Rightarrow> copy_up core rel st)"
        using rec u1 by (simp add: copy_up_def io_bind_def io_read_def io_return_def io_fail_def require_visible_simp split: option.splits)
      show ?thesis
        using run run' False True u1 ok(2) resolve_upper [OF ok(1,2), of rel]
        by (cases "map_of ?u rel"; cases "resolve core ?u rel") (auto split: bool.splits)
    next
      case False
      then have "\<exists>e st2. copy_up core rel st = (Inl e, st2) \<and> ov_upper st2 = ?u"
        using rec u1 require_visible_simp [of core rel st]
        by (cases "visible core rel"; cases r1) (auto simp: copy_up_def io_bind_def)
      then show ?thesis using run ok(2) by auto
    qed
  qed
qed

subsection \<open>Creating and removing change the view at one path\<close>

lemma view_upper:
  assumes ok: "lowers_ok core" "upper_ok u"
  shows "map_of u p = Some n \<Longrightarrow> list_all validate_name p \<Longrightarrow> visible core p \<Longrightarrow> view core u p = Some (content_of n)"
proof (induction p arbitrary: n rule: rev_induct)
  case Nil
  then have "content_of n = Directory" using ok(2) by (simp add: upper_ok_def directory_at_def)
  then show ?case using view_Nil [OF ok] by (simp del: content_of_Directory)
next
  case (snoc c p)
  obtain d where "map_of u p = Some d" "is_dir d"
    using map_ok_parent [of "map_of u" p c] ok(2) snoc.prems(1) by (auto simp: upper_ok_map)
  then have "view core u p = Some Directory"
    using snoc visible_snocD [OF snoc.prems(3)] by (auto simp flip: content_of_Directory)
  then show ?case using snoc.prems resolve_component_upper [OF snoc.prems(1)] by (simp add: view_snoc [OF ok])
qed

lemma view_outside_map:
  assumes ok: "lowers_ok core" "upper_ok u" "upper_ok u'" and names: "list_all validate_name (p0 @ [c0])"
    and frame: "\<And>q. \<not> prefix (p0 @ [c0]) q \<Longrightarrow> q \<noteq> whiteout_path p0 c0 \<Longrightarrow> map_of u' q = map_of u q"
    and p: "\<not> prefix (p0 @ [c0]) p"
  shows "view core u' p = view core u p"
proof (rule view_outside [OF ok _ p])
  fix q e
  assume out: "\<not> prefix (p0 @ [c0]) (q @ [e])" and valid: "list_all validate_name (q @ [e])"
  have q: "q \<noteq> whiteout_path p0 c0" using valid by (auto simp: whiteout_path_def)
  have "map_of u' (q @ [OPAQUE_NAME]) = map_of u (q @ [OPAQUE_NAME])" "map_of u' q = map_of u q"
    using out names q by (auto intro!: frame)
  then have "is_opaque u' q = is_opaque u q" by (simp add: is_opaque_def)
  moreover have "map_of u' (whiteout_path q e) = map_of u (whiteout_path q e)"
    using out names valid by (intro frame) (auto simp: whiteout_path_def)
  moreover have "map_of u' (q @ [e]) = map_of u (q @ [e])"
    using out valid by (intro frame) auto
  ultimately show "resolve_component core u' (q @ [e]) = resolve_component core u (q @ [e])"
    by (intro resolve_component_cong) simp_all
qed

lemma view_created:
  assumes ok: "lowers_ok core" "upper_ok u" "upper_ok u'" and names: "list_all validate_name (p @ [c])"
    and absent: "view core u (p @ [c]) = None" and vis: "visible core (p @ [c])" and n: "map_of u' (p @ [c]) = Some n"
    and frame: "\<And>q. \<not> prefix (p @ [c]) q \<Longrightarrow> q \<noteq> whiteout_path p c \<Longrightarrow> map_of u' q = map_of u q"
    and below: "\<And>e. is_dir n \<Longrightarrow> validate_name e \<Longrightarrow> resolve_component core u' ((p @ [c]) @ [e]) = None"
  shows "view core u' = (view core u)(p @ [c] \<mapsto> content_of n)"
proof -
  have at: "view core u' (p @ [c]) = Some (content_of n)" using view_upper [OF ok(1,3) n names vis] .
  show ?thesis
    using view_change [OF ok view_outside_map [OF ok names frame], of "p @ [c]"] below at
    by (simp add: absent view_snoc [OF ok(1,2), of "p @ [c]"] view_snoc [OF ok(1,3), of "p @ [c]"] del: append_assoc append.assoc)
qed

lemma clear_whiteout_map:
  assumes ok: "upper_ok (ov_upper st)" and run: "clear_whiteout core (p @ [c]) st = (r, st')"
  shows "upper_ok (ov_upper st')"
    and "r = Inr x \<Longrightarrow> map_of (ov_upper st') = (map_of (ov_upper st))(whiteout_path p c := None)"
proof -
  let ?w = "whiteout_path p c" and ?m = "map_of (ov_upper st)"
  have "upper_ok (ov_upper st') \<and> (r = Inr x \<longrightarrow> map_of (ov_upper st') = ?m(?w := None))"
  proof (cases "visible core (p @ [c])")
    case True
    obtain r1 st1 where call: "os_call core (u_unlink ?w) st = (r1, st1)" by fastforce
    have eff: "(r, st') = (case r1 of Inr _ \<Rightarrow> (Inr (), st1) | Inl e \<Rightarrow> if e = ENOENT then (Inr (), st1) else (Inl e, st1))"
      using run call True require_visible_simp(1) [OF True, of st]
      by (simp add: clear_whiteout_def io_bind_def io_try_def io_return_def io_fail_def split: sum.splits errno.splits)
    show ?thesis
    proof (cases r1)
      case (Inl e)
      then have "e = ENOENT \<Longrightarrow> ?m ?w = None" "ov_upper st1 = ov_upper st"
        using call by (auto simp: os_call_def u_unlink_def split: if_splits option.splits)
      then show ?thesis using eff ok Inl by (auto split: if_splits)
    next
      case (Inr y)
      then obtain f where "?m ?w = Some f" "\<not> is_dir f" "map_of (ov_upper st1) = ?m(?w := None)"
        using call by (auto simp: os_call_Inr u_unlink_Inr delete_conv')
      then show ?thesis using eff ok Inr map_ok_delete by (auto simp: upper_ok_map)
    qed
  next
    case False
    then show ?thesis using run ok require_visible_simp(2) [OF False, of st] by (auto simp: clear_whiteout_def io_bind_def)
  qed
  then show "upper_ok (ov_upper st')"
    and "r = Inr x \<Longrightarrow> map_of (ov_upper st') = (map_of (ov_upper st))(whiteout_path p c := None)" by auto
qed

lemma make_room_map:
  assumes ok: "lowers_ok core" "upper_ok (ov_upper st)" "list_all validate_name (p @ [c])"
    and run: "make_room core (p @ [c]) st = (r, st')"
  shows "upper_ok (ov_upper st')"
    and "r = Inr x \<Longrightarrow> \<exists>u. upper_ok u \<and> view core u = view core (ov_upper st) \<and>
      (\<exists>d. map_of u p = Some d \<and> is_dir d) \<and> map_of u (p @ [c]) = map_of (ov_upper st) (p @ [c]) \<and>
      map_of (ov_upper st') = (map_of u)(whiteout_path p c := None)"
proof -
  obtain r1 st1 where rec: "record_preimage core (p @ [c]) st = (r1, st1)" by fastforce
  have u1: "ov_upper st1 = ov_upper st" using record_preimage_upperD [OF rec] .
  obtain r2 st2 where ens: "ensure_upper_parents core (p @ [c]) st1 = (r2, st2)" by fastforce
  have kept: "kept core [] p (ov_upper st) (ov_upper st2)"
    and dir: "r2 = Inr y \<Longrightarrow> \<exists>n. map_of (ov_upper st2) p = Some n \<and> is_dir n" for y
    using ensure_upper_parents_kept [OF ok(1) _ ok(3) ens] u1 ok(2) by auto
  have ok2: "upper_ok (ov_upper st2)" using kept by (simp add: kept_def)
  obtain r3 st3 where clear: "clear_whiteout core (p @ [c]) st2 = (r3, st3)" by fastforce
  note cleared = clear_whiteout_map [OF ok2 clear]
  have run': "(r, st') = (case r1 of Inl e \<Rightarrow> (Inl e, st1) | Inr _ \<Rightarrow> case r2 of Inl e \<Rightarrow> (Inl e, st2) | Inr _ \<Rightarrow> (r3, st3))"
    using run rec ens clear by (cases r1; cases r2) (auto simp: make_room_def io_bind_def)
  show "upper_ok (ov_upper st')" using run' ok(2) u1 ok2 cleared(1) by (auto split: sum.splits)
  assume "r = Inr x"
  then have *: "r2 = Inr ()" "r3 = Inr x" "st' = st3" using run' by (auto split: sum.splits)
  moreover have "\<not> prefix (p @ [c]) p" by (simp add: prefix_def)
  ultimately show "\<exists>u. upper_ok u \<and> view core u = view core (ov_upper st) \<and>
      (\<exists>d. map_of u p = Some d \<and> is_dir d) \<and> map_of u (p @ [c]) = map_of (ov_upper st) (p @ [c]) \<and>
      map_of (ov_upper st') = (map_of u)(whiteout_path p c := None)"
    using ok2 kept dir cleared(2) kept_frame [OF kept] unfolding kept_def by blast
qed

lemma create_guard:
  assumes "lowers_ok core" "upper_ok (ov_upper st)" "list_all validate_name rel"
    and "io_bind (require_visible core rel) (\<lambda>_. io_read (\<lambda>st.
      if resolve core (ov_upper st) rel \<noteq> None then io_fail EEXIST else k)) st = (r, st')"
  shows "ov_upper st' = ov_upper st \<and> (\<exists>e. r = Inl e) \<or>
    rel \<noteq> [] \<and> visible core rel \<and> view core (ov_upper st) rel = None \<and> k st = (r, st')"
proof (cases "visible core rel \<and> resolve core (ov_upper st) rel = None")
  case True
  then have "rel \<noteq> []" using assms(1,2) by (auto simp: resolve_def upper_ok_def directory_at_def)
  then show ?thesis using True assms(4) by (simp add: io_bind_def io_read_def require_visible_simp view_def)
next
  case False
  then show ?thesis using assms(4) require_visible_simp(2) [of core rel st]
    by (cases "visible core rel") (auto simp: io_bind_def io_read_def io_fail_def require_visible_simp(1))
qed

lemma placed_entry:
  assumes ok: "lowers_ok core" "upper_ok (ov_upper st)" "list_all validate_name (p @ [c])"
    and room: "make_room core (p @ [c]) st = (Inr x, st1)"
    and put: "os_call core (u_create (p @ [c]) n) st1 = (Inr y, st2)"
  shows "\<exists>u. upper_ok u \<and> view core u = view core (ov_upper st) \<and> upper_ok (ov_upper st2) \<and>
    map_of u (p @ [c]) = None \<and> map_of (ov_upper st2) (p @ [c]) = Some n \<and>
    (\<forall>q. q \<noteq> p @ [c] \<longrightarrow> q \<noteq> whiteout_path p c \<longrightarrow> map_of (ov_upper st2) q = map_of u q)"
proof -
  note room' = make_room_map [OF ok room]
  obtain u d where u: "upper_ok u" "view core u = view core (ov_upper st)" "map_of u p = Some d" "is_dir d"
    "map_of (ov_upper st1) = (map_of u)(whiteout_path p c := None)" using room'(2) by blast
  have new: "map_of (ov_upper st1) (p @ [c]) = None" "map_of (ov_upper st2) = (map_of (ov_upper st1))(p @ [c] \<mapsto> n)"
    using put by (auto simp: os_call_Inr u_create_Inr)
  have "p \<noteq> whiteout_path p c" by (simp add: whiteout_path_def)
  then have "upper_ok (ov_upper st2)"
    using room'(1) new u(3,4,5) ok(3) unfolding upper_ok_map new(2) by (intro map_ok_upd [where d = d]) auto
  moreover have "map_of u (p @ [c]) = None" using new(1) u(5) ok(3) by simp
  ultimately show ?thesis using u(1,2,5) new(2) by auto
qed

lemma create_entry_view:
  assumes ok: "lowers_ok core" "upper_ok (ov_upper st)" "list_all validate_name rel" and n: "\<not> is_dir n"
    and run: "create_entry core rel n st = (r, st')"
  shows "upper_ok (ov_upper st') \<and> (\<forall>x. r = Inr x \<longrightarrow> view core (ov_upper st) rel = None \<and>
    view core (ov_upper st') = (view core (ov_upper st))(rel \<mapsto> content_of n))"
proof (cases "ov_upper st' = ov_upper st \<and> (\<exists>e. r = Inl e)")
  case False
  let ?k = "io_bind (make_room core rel) (\<lambda>_. os_call core (u_create rel n))"
  have guard: "rel \<noteq> []" "visible core rel" "view core (ov_upper st) rel = None" and k: "?k st = (r, st')"
    using create_guard [OF ok, of ?k r st'] run False unfolding create_entry_def by auto
  obtain p c where rel: "rel = p @ [c]" using guard(1) by (metis append_butlast_last_id)
  obtain r1 st1 where room: "make_room core rel st = (r1, st1)" by fastforce
  have ok1: "upper_ok (ov_upper st1)" using make_room_map(1) ok room rel by blast
  show ?thesis
  proof (cases r)
    case (Inl e)
    then show ?thesis using k room ok1 by (cases r1) (auto simp: io_bind_def dest!: os_call_Inl)
  next
    case (Inr x)
    then have "r1 = Inr ()" and put: "os_call core (u_create rel n) st1 = (Inr x, st')"
      using k room by (cases r1; simp add: io_bind_def)+
    then obtain u where u: "upper_ok u" "view core u = view core (ov_upper st)" "upper_ok (ov_upper st')"
      "map_of (ov_upper st') (p @ [c]) = Some n"
      "\<And>q. q \<noteq> p @ [c] \<Longrightarrow> q \<noteq> whiteout_path p c \<Longrightarrow> map_of (ov_upper st') q = map_of u q"
      using placed_entry [OF ok(1,2), of p c "()" st1 n x st'] ok(3) room rel by auto
    have "view core (ov_upper st') = (view core u)(p @ [c] \<mapsto> content_of n)"
      using guard ok(3) u n by (intro view_created [OF ok(1) u(1,3)]) (auto simp: rel)
    then show ?thesis using u(2,3) guard(3) rel by auto
  qed
qed (use ok in auto)

lemma map_ok_set_dir:
  assumes ok: "map_ok m" and dir: "m p = Some d" "is_dir d" "is_dir n"
  shows "map_ok (m(p \<mapsto> n))"
proof -
  obtain r where r: "m [] = Some r" "is_dir r" using map_ok_root [OF ok] by blast
  show ?thesis
  proof (rule map_okI [of _ "if p = [] then n else r"])
    fix q e
    assume e: "(m(p \<mapsto> n)) (q @ [e]) \<noteq> None"
    then have e': "m (q @ [e]) \<noteq> None" using dir by (auto split: if_splits)
    show "\<exists>n'. (m(p \<mapsto> n)) q = Some n' \<and> is_dir n'" using map_ok_parent [OF ok e'] dir by auto
    assume "\<not> is_whiteout_name e"
    then show "(m(p \<mapsto> n)) (whiteout_path q e) = None" using map_ok_whiteout [OF ok e'] dir by auto
  qed (use r dir map_ok_marker [OF ok, of _ _ d] map_ok_marker [OF ok] in \<open>auto split: if_splits\<close>)
qed

lemma mark_opaque_map:
  assumes ok: "upper_ok (ov_upper st)" and dir: "map_of (ov_upper st) rel = Some (DirNode m b)"
    and run: "mark_opaque core rel st = (r, st')"
  shows "upper_ok (ov_upper st') \<and> (\<exists>b'. map_of (ov_upper st') rel = Some (DirNode m b')) \<and>
    (\<forall>q. q \<noteq> rel \<longrightarrow> q \<noteq> rel @ [OPAQUE_NAME] \<longrightarrow> map_of (ov_upper st') q = map_of (ov_upper st) q) \<and>
    (\<forall>x. r = Inr x \<longrightarrow> is_opaque (ov_upper st') rel)"
proof -
  let ?f = "FileNode (oc_new_meta core (or S_IFREG 0x180)) []" and ?o = "rel @ [OPAQUE_NAME]"
  obtain r1 st1 where 1: "(if map_of (ov_upper st) ?o \<noteq> None then io_return () else os_call core (u_create ?o ?f)) st = (r1, st1)"
    by fastforce
  obtain r2 st2 where 2: "(if oc_xattrs core then os_call core (u_set_opaque rel) else io_return ()) st1 = (r2, st2)" by fastforce
  have run': "(r, st') = (case r1 of Inl e \<Rightarrow> (Inl e, st1) | Inr _ \<Rightarrow> (r2, st2))"
    using run 1 2 by (cases r1) (auto simp: mark_opaque_def io_bind_def io_read_def)
  have one: "ov_upper st1 = ov_upper st \<and> (r1 = Inr () \<longrightarrow> map_of (ov_upper st) ?o \<noteq> None) \<or>
      map_of (ov_upper st) ?o = None \<and> map_of (ov_upper st1) = (map_of (ov_upper st))(?o \<mapsto> ?f)"
    using 1 by (cases r1) (auto simp: os_call_Inr u_create_Inr io_return_def dest!: os_call_Inl split: if_splits)
  have ok1: "upper_ok (ov_upper st1)"
  proof (cases "ov_upper st1 = ov_upper st")
    case False
    then show ?thesis using one ok dir
      by (auto simp: upper_ok_map intro!: map_ok_upd [where d = "DirNode m b"])
        (auto simp: OPAQUE_NAME_def WHITEOUT_PREFIX_def is_whiteout_name_def starts_with_def)
  qed (use ok in simp)
  have dir1: "map_of (ov_upper st1) rel = Some (DirNode m b)" using one dir by auto
  have two: "ov_upper st2 = ov_upper st1 \<or> map_of (ov_upper st2) = (map_of (ov_upper st1))(rel \<mapsto> DirNode m True)"
    using 2 dir1 by (cases r2) (auto simp: os_call_Inr u_set_opaque_Inr update_conv' io_return_def fun_upd_def dest!: os_call_Inl split: if_splits)
  have ok2: "upper_ok (ov_upper st2)"
    using two ok1 dir1 map_ok_set_dir [of "map_of (ov_upper st1)" rel "DirNode m b" "DirNode m True"] by (auto simp: upper_ok_map)
  have dir2: "\<exists>b'. map_of (ov_upper st2) rel = Some (DirNode m b')" using two dir1 by auto
  have frame: "map_of (ov_upper st1) q = map_of (ov_upper st) q \<and> map_of (ov_upper st2) q = map_of (ov_upper st) q"
    if "q \<noteq> rel" "q \<noteq> ?o" for q using one two that by auto
  have opaque: "r1 = Inr () \<Longrightarrow> is_opaque (ov_upper st2) rel" using one two by (auto simp: is_opaque_def)
  show ?thesis using run' ok1 ok2 dir1 dir2 frame opaque by (cases r1) auto
qed

lemma resolve_component_fresh:
  assumes "lowers_ok core" "visible core rel" "map_of u (rel @ [e]) = None" "is_opaque u rel \<or> \<not> exists_in_lower core rel"
  shows "resolve_component core u (rel @ [e]) = None"
proof -
  have "find_map (\<lambda>lower. ly_lookup lower (rel @ [e])) ls = None"
    if "\<And>lower. lower \<in> set ls \<Longrightarrow> layer_ok lower \<and> ly_lookup lower rel = None" for ls
    using that by (induction ls) (auto simp: layer_ok_laws(3))
  then show ?thesis
    using assms by (auto simp: resolve_component_def exists_in_lower_def lowers_ok_def list_all_iff list_ex_iff)
qed

lemma finished_dir:
  assumes ok: "upper_ok (ov_upper st)" and dir: "map_of (ov_upper st) rel = Some (DirNode m0 False)"
    and run: "io_bind (os_call core (u_put rel (DirNode m False))) (\<lambda>_.
      if exists_in_lower core rel then mark_opaque core rel else io_return ()) st = (r, st')"
  shows "upper_ok (ov_upper st') \<and> (\<forall>x. r = Inr x \<longrightarrow> (\<exists>b. map_of (ov_upper st') rel = Some (DirNode m b)) \<and>
    (\<forall>q. q \<noteq> rel \<longrightarrow> q \<noteq> rel @ [OPAQUE_NAME] \<longrightarrow> map_of (ov_upper st') q = map_of (ov_upper st) q) \<and>
    (is_opaque (ov_upper st') rel \<or> \<not> exists_in_lower core rel))"
proof -
  obtain r1 st1 where chmod: "os_call core (u_put rel (DirNode m False)) st = (r1, st1)" by fastforce
  show ?thesis
  proof (cases r1)
    case (Inl e)
    then show ?thesis using chmod run ok by (auto simp: io_bind_def dest!: os_call_Inl)
  next
    case (Inr x)
    then have at: "map_of (ov_upper st1) = (map_of (ov_upper st))(rel \<mapsto> DirNode m False)"
      using chmod by (auto simp: os_call_Inr u_put_Inr update_conv')
    have ok1: "upper_ok (ov_upper st1)"
      using ok dir at map_ok_set_dir [of "map_of (ov_upper st)" rel "DirNode m0 False" "DirNode m False"] by (simp add: upper_ok_map)
    have "(if exists_in_lower core rel then mark_opaque core rel else io_return ()) st1 = (r, st')"
      using run chmod Inr by (simp add: io_bind_def)
    then show ?thesis
      using ok1 at mark_opaque_map [OF ok1, of rel m False core r st'] by (auto simp: io_return_def split: if_splits)
  qed
qed

lemma create_dir_view:
  assumes ok: "lowers_ok core" "upper_ok (ov_upper st)" "list_all validate_name rel"
    and run: "create_dir core rel mode st = (r, st')"
  shows "upper_ok (ov_upper st') \<and> (\<forall>x. r = Inr x \<longrightarrow> view core (ov_upper st) rel = None \<and>
    view core (ov_upper st') = (view core (ov_upper st))(rel \<mapsto> Directory))"
proof (cases "ov_upper st' = ov_upper st \<and> (\<exists>e. r = Inl e)")
  case False
  let ?fresh = "oc_new_meta core (or S_IFDIR 0x1FF)"
  let ?m = "?fresh\<lparr>md_mode := or S_IFDIR (and mode 0xFFF)\<rparr>"
  let ?rest = "io_bind (os_call core (u_put rel (DirNode ?m False))) (\<lambda>_.
    if exists_in_lower core rel then mark_opaque core rel else io_return ())"
  let ?k = "io_bind (make_room core rel) (\<lambda>_. io_bind (os_call core (u_create rel (DirNode ?fresh False))) (\<lambda>_. ?rest))"
  have guard: "rel \<noteq> []" "visible core rel" "view core (ov_upper st) rel = None" and k: "?k st = (r, st')"
    using create_guard [OF ok, of ?k r st'] run False unfolding create_dir_def by auto
  obtain p c where rel: "rel = p @ [c]" using guard(1) by (metis append_butlast_last_id)
  obtain r1 st1 where room: "make_room core rel st = (r1, st1)" by fastforce
  have ok1: "upper_ok (ov_upper st1)" using make_room_map(1) ok room rel by blast
  obtain r2 st2 where make: "os_call core (u_create rel (DirNode ?fresh False)) st1 = (r2, st2)" by fastforce
  show ?thesis
  proof (cases "r1 = Inr () \<and> r2 = Inr ()")
    case True
    then obtain u where u: "upper_ok u" "view core u = view core (ov_upper st)" "upper_ok (ov_upper st2)" "map_of u rel = None"
      "map_of (ov_upper st2) rel = Some (DirNode ?fresh False)"
      "\<And>q. q \<noteq> rel \<Longrightarrow> q \<noteq> whiteout_path p c \<Longrightarrow> map_of (ov_upper st2) q = map_of u q"
      using placed_entry [OF ok(1,2), of p c "()" st1 "DirNode ?fresh False" "()" st2] ok(3) room make rel by auto
    have "?rest st2 = (r, st')" using k room make True by (simp add: io_bind_def)
    note fin = finished_dir [OF u(3,5) this]
    show ?thesis
    proof (cases r)
      case (Inr x)
      then obtain b where b: "map_of (ov_upper st') rel = Some (DirNode ?m b)"
        and frame: "\<And>q. q \<noteq> rel \<Longrightarrow> q \<noteq> rel @ [OPAQUE_NAME] \<Longrightarrow> q \<noteq> whiteout_path p c \<Longrightarrow> map_of (ov_upper st') q = map_of u q"
        and opaque: "is_opaque (ov_upper st') rel \<or> \<not> exists_in_lower core rel"
        using fin u(6) by force
      have below: "resolve_component core (ov_upper st') (rel @ [e]) = None" if "validate_name e" for e
      proof (rule resolve_component_fresh [OF ok(1) guard(2) _ opaque])
        have "map_of u (rel @ [e]) = None" using u(1,4) map_ok_child by (auto simp: upper_ok_map)
        then show "map_of (ov_upper st') (rel @ [e]) = None" using frame [of "rel @ [e]"] that by (cases "e = OPAQUE_NAME") auto
      qed
      have "\<not> prefix (p @ [c]) q \<Longrightarrow> q \<noteq> whiteout_path p c \<Longrightarrow> map_of (ov_upper st') q = map_of u q" for q
        using frame [of q] rel by (auto simp: prefix_def)
      then have "view core (ov_upper st') = (view core u)(p @ [c] \<mapsto> content_of (DirNode ?m b))"
        using guard ok(3) u(2) b below fin by (intro view_created [OF ok(1) u(1)]) (auto simp: rel)
      then show ?thesis using u(2) guard(3) fin rel by auto
    qed (use fin in simp)
  next
    case False
    then show ?thesis using k room make ok1 by (cases r1; cases r2) (auto simp: io_bind_def dest!: os_call_Inl)
  qed
qed (use ok in auto)

subsection \<open>Listing\<close>

lemma upper_entries_iff: "n \<in> set (upper_entries u rel) \<longleftrightarrow> map_of u (rel @ [n]) \<noteq> None"
proof -
  have "n \<in> set (upper_entries u rel) \<longleftrightarrow> (\<exists>p \<in> fst ` set u. p \<noteq> [] \<and> butlast p = rel \<and> last p = n)"
    by (force simp: upper_entries_def image_iff)
  also have "\<dots> \<longleftrightarrow> rel @ [n] \<in> fst ` set u"
    by (metis append_butlast_last_id butlast_snoc last_snoc snoc_eq_iff_butlast)
  finally show ?thesis by (simp add: map_of_eq_None_iff)
qed

lemma lower_entries_iff:
  assumes "layer_ok lower" "validate_name n"
  shows "n \<in> set (case ly_entries lower rel of None \<Rightarrow> [] | Some names \<Rightarrow> names) \<longleftrightarrow> ly_lookup lower (rel @ [n]) \<noteq> None"
  using layer_ok_laws(1) [OF assms(1) _ assms(2), of rel] layer_ok_laws(2) [OF assms(1), of rel n]
  by (cases "ly_entries lower rel") auto

lemma find_map_None: "find_map f xs = None \<longleftrightarrow> (\<forall>x\<in>set xs. f x = None)"
  by (induction xs) (auto split: option.splits)

lemma resolve_component_iff:
  assumes "lowers_ok core" "upper_ok u" "validate_name n"
  shows "resolve_component core u (rel @ [n]) \<noteq> None \<longleftrightarrow> \<not> is_whiteouted u rel n \<and>
    (map_of u (rel @ [n]) \<noteq> None \<or> \<not> is_opaque u rel \<and> (\<exists>lower\<in>set (oc_lowers core). ly_lookup lower (rel @ [n]) \<noteq> None))"
proof (cases "map_of u (rel @ [n])")
  case None
  then show ?thesis
    using find_map_None [of "\<lambda>lower. ly_lookup lower (rel @ [n])" "oc_lowers core"]
    by (cases "find_map (\<lambda>lower. ly_lookup lower (rel @ [n])) (oc_lowers core)") (auto simp: resolve_component_def)
next
  case (Some e)
  then have "\<not> is_whiteouted u rel n"
    using map_ok_whiteout [of "map_of u" rel n] assms by (simp add: upper_ok_map is_whiteouted_def)
  then show ?thesis using Some resolve_component_upper [OF Some] by simp
qed

lemma list_names_view:
  assumes ok: "lowers_ok core" "upper_ok u" "list_all validate_name rel" and run: "list_names core u rel = Inr names"
  shows "name \<in> set names \<longleftrightarrow> view core u (rel @ [name]) \<noteq> None"
proof -
  have rel: "visible core rel" "view core u rel = Some Directory"
    using run ok by (auto simp: list_names_def view_def visible_def split: if_splits option.splits)
  have vis: "visible core (rel @ [name]) \<longleftrightarrow> \<not> is_excluded core (rel @ [name])" if "validate_name name"
    using rel(1) that by (simp add: visible_def validate_rel_def validate_name_def)
  obtain n b where at: "validate_rel rel" "\<not> is_excluded core rel" "resolve core u rel = Some (n, b)" "is_dir n"
    using run by (auto simp: list_names_def split: if_splits option.splits)
  define lower_names where "lower_names = (if is_opaque u rel then []
    else concat (map (\<lambda>lower. case ly_entries lower rel of None \<Rightarrow> [] | Some names \<Rightarrow> names) (oc_lowers core)))"
  define keep where "keep name \<longleftrightarrow> \<not> is_whiteouted u rel name \<and>
    (case child rel name of None \<Rightarrow> False | Some c \<Rightarrow> \<not> is_excluded core c)" for name
  have "names = remdups (sort (filter keep (filter (\<lambda>n. \<not> is_whiteout_name n) (lower_names @ upper_entries u rel))))"
    using run at unfolding list_names_def lower_names_def keep_def Let_def by (simp del: filter_filter filter_append)
  then have "name \<in> set names \<longleftrightarrow> (name \<in> set lower_names \<or> name \<in> set (upper_entries u rel)) \<and> \<not> is_whiteout_name name \<and> keep name"
    by auto
  also have "\<dots> \<longleftrightarrow> validate_name name \<and> visible core (rel @ [name]) \<and> resolve_component core u (rel @ [name]) \<noteq> None"
  proof (cases "validate_name name")
    case True
    have "name \<in> set lower_names \<longleftrightarrow> \<not> is_opaque u rel \<and> (\<exists>lower\<in>set (oc_lowers core). ly_lookup lower (rel @ [name]) \<noteq> None)"
      using ok(1) lower_entries_iff [OF _ True, of _ rel] by (auto simp: lowers_ok_def list_all_iff lower_names_def)
    then show ?thesis
      using True rel(1) vis resolve_component_iff [OF ok(1,2) True, of rel]
      by (simp add: upper_entries_iff child_def visible_def keep_def) blast
  qed (simp add: child_def keep_def)
  also have "\<dots> \<longleftrightarrow> view core u (rel @ [name]) \<noteq> None"
    using rel(2) by (auto simp: view_snoc [OF ok(1,2)])
  finally show ?thesis .
qed

lemma list_names_sorted: "list_names core u rel = Inr names \<Longrightarrow> sorted names \<and> distinct names"
  by (auto simp: list_names_def Let_def sorted_remdups split: if_splits option.splits)


subsection \<open>Removing\<close>

lemma record_tree_upper: "ov_upper (snd (record_tree core depth source destination st)) = ov_upper st"
proof -
  have rec: "io_keeps (\<lambda>st. ov_upper st = u) (record_preimage core destination)" for u destination
    by (simp add: io_keeps_def)
  have "io_keeps (\<lambda>st. ov_upper st = u) (record_tree core depth source destination)" for u
  proof (induction depth arbitrary: source destination)
    case (Suc depth)
    have "io_keeps (\<lambda>st. ov_upper st = u) (io_fold (\<lambda>name _. record_tree core depth (source @ [name]) (destination @ [name])) names ())" for names
      using Suc.IH by (intro io_keeps_fold) auto
    then show ?case using rec by (auto intro!: io_keeps_bind io_keeps_read split: option.split sum.split prod.split)
  qed simp
  then show ?thesis by (simp add: io_keeps_def)
qed

lemma create_whiteout_view:
  assumes ok: "lowers_ok core" "upper_ok (ov_upper st)" "list_all validate_name (p @ [c])"
    and gone: "map_of (ov_upper st) (p @ [c]) = None"
    and run: "create_whiteout core (p @ [c]) st = (r, st')"
  shows "upper_ok (ov_upper st')"
    and "\<not> prefix (p @ [c]) q \<Longrightarrow> view core (ov_upper st') q = view core (ov_upper st) q"
    and "r = Inr x \<Longrightarrow> resolve_component core (ov_upper st') (p @ [c]) = None"
proof -
  let ?w = "whiteout_path p c" and ?f = "FileNode (oc_new_meta core (or S_IFREG 0x180)) []"
  obtain r1 st1 where ens: "ensure_upper_parents core (p @ [c]) st = (r1, st1)" by fastforce
  have kept: "kept core [] p (ov_upper st) (ov_upper st1)"
    and dir: "r1 = Inr y \<Longrightarrow> \<exists>n. map_of (ov_upper st1) p = Some n \<and> is_dir n" for y
    using ensure_upper_parents_kept [OF ok ens] by auto
  have ok1: "upper_ok (ov_upper st1)" and v1: "view core (ov_upper st1) = view core (ov_upper st)"
    using kept by (simp_all add: kept_def)
  have gone1: "map_of (ov_upper st1) (p @ [c]) = None"
    using kept_frame [OF kept, of "p @ [c]"] gone by (simp add: prefix_def)
  obtain r2 st2 where mark: "(if map_of (ov_upper st1) ?w \<noteq> None then io_return () else os_call core (u_create ?w ?f)) st1 = (r2, st2)"
    by fastforce
  have run': "(r, st') = (case r1 of Inl e \<Rightarrow> (Inl e, st1) | Inr _ \<Rightarrow> (r2, st2))"
    using run ens mark unfolding create_whiteout_def io_bind_def io_read_def butlast_snoc last_snoc by (cases r1) auto
  have two: "ov_upper st2 = ov_upper st1 \<and> (r2 = Inr () \<longrightarrow> map_of (ov_upper st1) ?w \<noteq> None) \<or>
      map_of (ov_upper st1) ?w = None \<and> map_of (ov_upper st2) = (map_of (ov_upper st1))(?w \<mapsto> ?f)"
    using mark by (cases r2) (auto simp: os_call_Inr u_create_Inr io_return_def dest!: os_call_Inl split: if_splits)
  have ok2: "upper_ok (ov_upper st2)" if r1: "r1 = Inr ()"
  proof (cases "ov_upper st2 = ov_upper st1")
    case False
    obtain d where "map_of (ov_upper st1) p = Some d" "is_dir d" using dir r1 by blast
    then show ?thesis using two False ok1 gone1
      by (auto simp: upper_ok_map whiteout_path_def intro!: map_ok_upd [where d = d])
  qed (use ok1 in simp)
  show "upper_ok (ov_upper st')" using run' ok1 ok2 by (auto split: sum.splits)
  show "view core (ov_upper st') q = view core (ov_upper st) q" if "\<not> prefix (p @ [c]) q"
    using run' v1 two view_outside_map [OF ok(1) ok1 ok2 ok(3) _ that] by (cases r1) auto
  show "resolve_component core (ov_upper st') (p @ [c]) = None" if "r = Inr x"
    using that run' two gone1 ok(3) by (cases r1) (auto simp: resolve_component_def is_whiteouted_def)
qed

lemma removable_below:
  assumes ok: "lowers_ok core" "upper_ok u" "list_all validate_name rel"
    and "resolve core u rel = Some (n, b)" "removable core u rel directory n = Inr x"
  shows "view core u (rel @ [c]) = None"
proof (cases "is_dir n")
  case True
  then have "list_names core u rel = Inr []" using assms(5) by (auto simp: removable_def split: if_splits sum.splits)
  then show ?thesis using list_names_view [OF ok, of "[]" c] by simp
next
  case False
  then have "view core u rel \<noteq> Some Directory" using assms(4) by (simp add: view_def)
  then show ?thesis by (simp add: view_snoc [OF ok(1,2)])
qed

lemma remove_guard:
  assumes "remove core rel directory st = (r, st')"
  shows "(\<exists>e. r = Inl e) \<and> ov_upper st' = ov_upper st \<or>
    (\<exists>n is_upper. visible core rel \<and> resolve core (ov_upper st) rel = Some (n, is_upper) \<and>
      removable core (ov_upper st) rel directory n = Inr () \<and> remove_resolved core rel directory is_upper st = (r, st'))"
proof (cases "visible core rel")
  case True
  note run = assms [unfolded remove_def io_bind_def io_read_def require_visible_simp(1) [OF True]]
  show ?thesis
  proof (cases "resolve core (ov_upper st) rel")
    case (Some item)
    obtain n b where item: "item = (n, b)" by fastforce
    show ?thesis
    proof (cases "removable core (ov_upper st) rel directory n")
      case (Inl e)
      then have "(r, st') = (Inl e, st)" using run Some item by (simp add: io_fail_def)
      then show ?thesis by simp
    qed (use run Some item True in auto)
  qed (use run in \<open>auto simp: io_fail_def\<close>)
next
  case False
  then show ?thesis using assms require_visible_simp(2) [OF False, of st] by (auto simp: remove_def io_bind_def)
qed

lemma remove_upper_map:
  assumes ok: "upper_ok (ov_upper st)" "p @ [c] \<noteq> []"
    and up: "if is_upper then map_of (ov_upper st) (p @ [c]) = Some n else map_of (ov_upper st) (p @ [c]) = None"
    and dir: "is_dir n \<longleftrightarrow> directory"
    and run: "(if \<not> is_upper then io_return () else os_call core (if directory then u_remove_tree (p @ [c]) else u_unlink (p @ [c]))) st = (r, st')"
  shows "upper_ok (ov_upper st') \<and> (\<forall>q. \<not> prefix (p @ [c]) q \<longrightarrow> map_of (ov_upper st') q = map_of (ov_upper st) q) \<and>
    (\<forall>x. r = Inr x \<longrightarrow> map_of (ov_upper st') (p @ [c]) = None)"
proof (cases "is_upper \<and> (\<exists>x. r = Inr x)")
  case False
  then have "ov_upper st' = ov_upper st" "r = Inr x \<Longrightarrow> \<not> is_upper" for x
    using run by (cases r; auto simp: io_return_def dest!: os_call_Inl split: if_splits)+
  then show ?thesis using ok up by auto
next
  case True
  then obtain x where x: "is_upper" "r = Inr x" by blast
  show ?thesis
  proof (cases directory)
    case True
    then have "map_of (ov_upper st') = (\<lambda>q. if prefix (p @ [c]) q then None else map_of (ov_upper st) q)"
      using run x by (auto simp: os_call_Inr u_remove_tree_def map_of_remove_tree)
    then show ?thesis using map_ok_remove_tree [of "map_of (ov_upper st)" "p @ [c]"] ok by (simp add: upper_ok_map)
  next
    case False
    then have "map_of (ov_upper st') = (map_of (ov_upper st))(p @ [c] := None)"
      using run x by (auto simp: os_call_Inr u_unlink_Inr delete_conv')
    then show ?thesis using map_ok_delete [of "map_of (ov_upper st)" "p @ [c]" n] ok up x dir False by (auto simp: upper_ok_map)
  qed
qed

lemma remove_view:
  assumes ok: "lowers_ok core" "upper_ok (ov_upper st)" "list_all validate_name rel" and rel: "rel \<noteq> []"
    and run: "remove core rel directory st = (r, st')"
  shows "upper_ok (ov_upper st') \<and> (\<forall>x. r = Inr x \<longrightarrow> view core (ov_upper st) rel \<noteq> None \<and>
    view core (ov_upper st') = (view core (ov_upper st))(rel := None))"
proof (cases "(\<exists>e. r = Inl e) \<and> ov_upper st' = ov_upper st")
  case False
  let ?u = "ov_upper st"
  obtain p c where pc: "rel = p @ [c]" using rel by (metis append_butlast_last_id)
  obtain n b where at: "visible core rel" "resolve core ?u rel = Some (n, b)" "removable core ?u rel directory n = Inr ()"
    and run': "remove_resolved core rel directory b st = (r, st')" using remove_guard [OF run] False by auto
  have dir: "is_dir n \<longleftrightarrow> directory" using at(3) by (auto simp: removable_def split: if_splits)
  have here: "view core ?u rel \<noteq> None" using at(2) ok(3) by (simp add: view_def)
  obtain r1 st1 where tree: "record_tree core 1 rel rel st = (r1, st1)" by fastforce
  have u1: "ov_upper st1 = ?u" using record_tree_upper [of core 1 rel rel st] tree by simp
  let ?del = "if \<not> b then io_return () else os_call core (if directory then u_remove_tree rel else u_unlink rel)"
  obtain r2 st2 where del: "?del st1 = (r2, st2)" by fastforce
  have two: "upper_ok (ov_upper st2)" "\<And>q. \<not> prefix rel q \<Longrightarrow> map_of (ov_upper st2) q = map_of ?u q"
    "r2 = Inr () \<Longrightarrow> map_of (ov_upper st2) rel = None"
    using remove_upper_map [of st1 p c b n directory core r2 st2] ok(2) u1 dir del pc resolve_upper [OF ok(1,2) at(2)] by auto
  let ?fin = "if exists_in_lower core rel then create_whiteout core rel else io_return ()"
  obtain r3 st3 where fin: "?fin st2 = (r3, st3)" by fastforce
  have run'': "(r, st') = (case r1 of Inl e \<Rightarrow> (Inl e, st1) | Inr _ \<Rightarrow> case r2 of Inl e \<Rightarrow> (Inl e, st2) | Inr _ \<Rightarrow> (r3, st3))"
    using run' tree del fin unfolding remove_resolved_def io_bind_def by (cases r1; cases r2) auto
  show ?thesis
  proof (cases "r1 = Inr () \<and> r2 = Inr ()")
    case True
    have out2: "view core (ov_upper st2) q = view core ?u q" if "\<not> prefix rel q" for q
      using view_outside_map [OF ok(1,2) two(1), of p c q] ok(3) two(2) that pc by auto
    have three: "upper_ok (ov_upper st3) \<and> (\<forall>q. \<not> prefix rel q \<longrightarrow> view core (ov_upper st3) q = view core ?u q) \<and>
      (r3 = Inr () \<longrightarrow> resolve_component core (ov_upper st3) rel = None)"
    proof (cases "exists_in_lower core rel")
      case lower: True
      then show ?thesis
        using fin two(3) True out2 create_whiteout_view [OF ok(1) two(1), of p c r3 st3] ok(3) pc by auto
    next
      case False
      then show ?thesis
        using fin two(1,3) True out2 at(1) find_map_None [of "\<lambda>lower. ly_lookup lower rel" "oc_lowers core"]
        by (auto simp: io_return_def resolve_component_def exists_in_lower_def list_ex_iff)
    qed
    show ?thesis
    proof (cases r3)
      case (Inr x)
      then have gone: "view core (ov_upper st3) rel = None" using three by (simp add: pc view_snoc [OF ok(1)])
      then have "view core (ov_upper st3) (rel @ [e]) = None" for e using three by (simp add: view_snoc [OF ok(1)])
      then have "view core (ov_upper st3) = (view core ?u)(rel := None)"
        using view_change [OF ok(1,2), of "ov_upper st3" rel] three removable_below [OF ok at(2,3)] gone by simp
      then show ?thesis using run'' True three here Inr by auto
    qed (use run'' True three in auto)
  next
    case False
    then show ?thesis using run'' u1 ok(2) two(1) by (cases r1; cases r2) auto
  qed
qed (use ok in auto)

end
