(* ===== verification/OverlayTree.thy ===== *)
theory OverlayTree
  imports OverlayView
begin

section \<open>The overlay as one tree\<close>

text \<open>
  The operations that the mounted file system issues, as one type, and the single mutable tree they
  are to be understood on. When no call of the kernel fails, every operation of
  \<open>persisting-overlay-core/src/core.rs\<close> modelled here answers what the tree answers, errors included, and
  leaves a view that is the tree after the operation.
\<close>

subsection \<open>Operations\<close>

datatype overlay_op =
    CreateFile path u32
  | CreateDir path u32
  | CreateSymlink path string
  | CreateNode path u32 u32
  | Remove path bool
  | CopyUp path

fun op_path :: "overlay_op \<Rightarrow> path" where
  "op_path (CreateFile rel _) = rel"
| "op_path (CreateDir rel _) = rel"
| "op_path (CreateSymlink rel _) = rel"
| "op_path (CreateNode rel _ _) = rel"
| "op_path (Remove rel _) = rel"
| "op_path (CopyUp rel) = rel"

fun overlay_exec :: "OverlayCore \<Rightarrow> overlay_op \<Rightarrow> unit overlay_io" where
  "overlay_exec core (CreateFile rel mode) = create_file core rel mode"
| "overlay_exec core (CreateDir rel mode) = create_dir core rel mode"
| "overlay_exec core (CreateSymlink rel target) = create_symlink core rel target"
| "overlay_exec core (CreateNode rel mode rdev) = create_node core rel mode rdev"
| "overlay_exec core (Remove rel directory) = remove core rel directory"
| "overlay_exec core (CopyUp rel) = copy_up core rel"

subsection \<open>A single tree\<close>

fun walk :: "tree \<Rightarrow> path \<Rightarrow> path \<Rightarrow> errno + unit" where
  "walk t current [] = Inr ()"
| "walk t current (c # cs) =
    (case t (current @ [c]) of
       None \<Rightarrow> Inl ENOENT
     | Some x \<Rightarrow> if x = Directory then walk t (current @ [c]) cs else Inl ENOTDIR)"

definition tree_create :: "path \<Rightarrow> content \<Rightarrow> tree \<Rightarrow> (errno + unit) \<times> tree" where
  "tree_create rel x t =
    (if t rel \<noteq> None then (Inl EEXIST, t)
     else case walk t [] (butlast rel) of
       Inl e \<Rightarrow> (Inl e, t)
     | Inr _ \<Rightarrow> (Inr (), t(rel \<mapsto> x)))"

definition tree_remove :: "path \<Rightarrow> bool \<Rightarrow> tree \<Rightarrow> (errno + unit) \<times> tree" where
  "tree_remove rel directory t =
    (case t rel of
       None \<Rightarrow> (Inl ENOENT, t)
     | Some x \<Rightarrow>
        if directory \<and> x \<noteq> Directory then (Inl ENOTDIR, t)
        else if \<not> directory \<and> x = Directory then (Inl EISDIR, t)
        else if \<exists>c. t (rel @ [c]) \<noteq> None then (Inl ENOTEMPTY, t)
        else (Inr (), t(rel := None)))"

fun tree_op :: "overlay_op \<Rightarrow> tree \<Rightarrow> (errno + unit) \<times> tree" where
  "tree_op (CreateFile rel _) t = tree_create rel (FileContent []) t"
| "tree_op (CreateDir rel _) t = tree_create rel Directory t"
| "tree_op (CreateSymlink rel target) t = tree_create rel (Symlink target) t"
| "tree_op (CreateNode rel _ rdev) t = tree_create rel (Device (ucast rdev)) t"
| "tree_op (Remove rel directory) t = tree_remove rel directory t"
| "tree_op (CopyUp rel) t = (if t rel = None then Inl ENOENT else Inr (), t)"

definition tree_exec :: "OverlayCore \<Rightarrow> overlay_op \<Rightarrow> tree \<Rightarrow> (errno + unit) \<times> tree" where
  "tree_exec core op t =
    (if is_excluded core (op_path op) then (Inl ENOENT, t) else tree_op op t)"

definition op_ok :: "overlay_op \<Rightarrow> bool" where
  "op_ok op \<longleftrightarrow> op_path op \<noteq> [] \<and> list_all validate_name (op_path op)"

definition quiet :: "OverlayCore \<Rightarrow> bool" where
  "quiet core \<longleftrightarrow> (\<forall>i. \<not> oc_fault core i) \<and>
    (oc_journaling core \<longrightarrow> oc_lowers core \<noteq> [] \<and>
      (\<forall>rel. validate_rel rel \<longrightarrow> (\<exists>state. fingerprint_at core (last (oc_lowers core)) rel = Inr state)))"

lemma names_validate_rel: "list_all validate_name rel \<Longrightarrow> validate_rel rel"
  by (auto simp: validate_rel_def validate_name_def list_all_iff)

lemma os_call_quiet: "quiet core \<Longrightarrow> f (ov_upper st) = Inr u \<Longrightarrow> \<exists>st'. os_call core f st = (Inr (), st')"
  by (simp add: os_call_def quiet_def)

lemma record_preimage_quiet:
  assumes "quiet core" "validate_rel rel"
  shows "\<exists>st'. record_preimage core rel st = (Inr (), st') \<and> ov_upper st' = ov_upper st"
proof -
  obtain r st' where run: "record_preimage core rel st = (r, st')" by fastforce
  moreover have "r = Inr ()"
    using assms run unfolding quiet_def record_preimage_def
    by (auto simp: io_read_def io_bind_def io_update_def os_call_def io_return_def split: if_splits)
  ultimately show ?thesis using record_preimage_upperD by auto
qed

lemma copy_parent_quiet:
  assumes "quiet core" "validate_rel q" "map_of (ov_upper st) q = None" "map_of (ov_upper st) (butlast q) = Some d" "is_dir d"
  shows "\<exists>st'. copy_parent core q n st = (Inr (), st')"
proof -
  obtain st1 where 1: "record_preimage core q st = (Inr (), st1)" "ov_upper st1 = ov_upper st"
    using record_preimage_quiet [OF assms(1,2)] by blast
  obtain st2 where 2: "os_call core (u_create q (DirNode (oc_new_meta core (or S_IFDIR 0x1FF)) False)) st1 = (Inr (), st2)"
    using os_call_quiet [OF assms(1)] assms(3-5) 1(2) u_create_Inr by metis
  then have "map_of (ov_upper st2) q \<noteq> None" by (auto simp: os_call_Inr u_create_Inr)
  then obtain st3 where "os_call core (u_put q (copied core n)) st2 = (Inr (), st3)"
    using os_call_quiet [OF assms(1)] u_put_Inr by metis
  then show ?thesis using 1 2 by (simp add: copy_parent_def io_bind_def)
qed

lemma ensure_parents_quiet:
  assumes quiet: "quiet core" and ok: "lowers_ok core"
  shows "upper_ok (ov_upper st) \<Longrightarrow> map_of (ov_upper st) current = Some d \<Longrightarrow> is_dir d \<Longrightarrow>
    list_all validate_name (current @ cs) \<Longrightarrow> visible core (current @ cs) \<Longrightarrow>
    fst (ensure_parents core current cs st) = walk (view core (ov_upper st)) current cs"
proof (induction cs arbitrary: current st d)
  case Nil
  then show ?case by (simp add: io_return_def)
next
  case (Cons c cs)
  let ?u = "ov_upper st" and ?q = "current @ [c]"
  have names: "list_all validate_name ?q" "list_all validate_name (?q @ cs)" using Cons.prems by auto
  have vis: "visible core ?q" "visible core (?q @ cs)"
    using Cons.prems(5) visible_prefixD [OF Cons.prems(5), of ?q] by simp_all
  show ?case
  proof (cases "map_of ?u ?q")
    case (Some n)
    then show ?thesis
      using view_upper [OF ok Cons.prems(1) Some names(1) vis(1)] Cons.IH [OF Cons.prems(1) Some _ names(2) vis(2)]
      by (auto simp: io_read_def io_fail_def)
  next
    case None
    show ?thesis
    proof (cases "resolve core ?u ?q")
      case res: None
      then show ?thesis using None names(1) by (simp add: io_read_def io_fail_def view_def)
    next
      case (Some item)
      obtain n b where n: "resolve core ?u ?q = Some (n, b)" using Some by fastforce
      have v: "view core ?u ?q = Some (content_of n)" using n names(1) by (simp add: view_def)
      show ?thesis
      proof (cases "is_dir n")
        case True
        obtain st1 where run: "copy_parent core ?q n st = (Inr (), st1)"
          using copy_parent_quiet [OF quiet names_validate_rel [OF names(1)] None, of d n] Cons.prems(2,3) by auto
        note step = copy_parent_kept [OF ok Cons.prems(1,2,3) None n True names(1) run]
        obtain d' where d': "map_of (ov_upper st1) ?q = Some d'" "is_dir d'" using step(2) by blast
        have "upper_ok (ov_upper st1)" "view core (ov_upper st1) = view core ?u" using step(1) by (auto simp: kept_def)
        then have "fst (ensure_parents core ?q cs st1) = walk (view core ?u) ?q cs"
          using Cons.IH [OF _ d' names(2) vis(2)] by simp
        then show ?thesis using None n True v run by (simp add: io_read_def io_bind_def)
      next
        case False
        then show ?thesis using None n v by (simp add: io_read_def io_fail_def)
      qed
    qed
  qed
qed

lemma upper_ok_prefix_dirs:
  assumes "map_ok m"
  shows "m p = Some d \<Longrightarrow> is_dir d \<Longrightarrow> prefix q p \<Longrightarrow> \<exists>n. m q = Some n \<and> is_dir n"
proof (induction p arbitrary: d rule: rev_induct)
  case (snoc c p)
  obtain d' where "m p = Some d'" "is_dir d'" using map_ok_parent [OF assms, of p c] snoc.prems by auto
  then show ?case using snoc by (auto simp: prefix_snoc)
qed auto

lemma clear_whiteout_quiet:
  assumes "quiet core" "visible core (p @ [c])" "upper_ok (ov_upper st)" "map_of (ov_upper st) p = Some d" "is_dir d"
  shows "fst (clear_whiteout core (p @ [c]) st) = Inr ()"
proof -
  let ?u = "ov_upper st" and ?w = "whiteout_path p c"
  have ok: "map_ok (map_of ?u)" using assms(3) by (simp add: upper_ok_map)
  have missing: "u_missing ?u ?w = ENOENT"
    using upper_ok_prefix_dirs [OF ok assms(4,5)]
    by (fastforce simp: u_missing_def whiteout_path_def list_ex_iff in_set_prefixes)
  have leaf: "map_of ?u ?w = Some n \<Longrightarrow> \<not> is_dir n" for n
    using map_ok_marker [OF ok, of p "WHITEOUT_PREFIX @ c"] by (simp add: whiteout_path_def)
  have "os_call core (u_unlink ?w) st = (Inl ENOENT, st\<lparr>ov_calls := ov_calls st + 1\<rparr>) \<or> (\<exists>st'. os_call core (u_unlink ?w) st = (Inr (), st'))"
    using assms(1) missing leaf by (auto simp: os_call_def quiet_def u_unlink_def split: option.splits)
  then show ?thesis
    using require_visible_simp(1) [OF assms(2), of st] by (auto simp: clear_whiteout_def io_bind_def io_try_def io_return_def)
qed

lemma ensure_upper_parents_quiet:
  assumes "quiet core" "lowers_ok core" "upper_ok (ov_upper st)" "list_all validate_name rel" "visible core rel"
  shows "fst (ensure_upper_parents core rel st) = walk (view core (ov_upper st)) [] (butlast rel)"
proof -
  obtain d where d: "map_of (ov_upper st) [] = Some d" "is_dir d"
    using map_ok_root assms(3) unfolding upper_ok_map by blast
  have "list_all validate_name ([] @ butlast rel)" using assms(4) by (auto simp: list_all_iff dest: in_set_butlastD)
  moreover have "visible core ([] @ butlast rel)" using visible_prefixD [OF assms(5) prefixeq_butlast] by simp
  ultimately show ?thesis
    using ensure_parents_quiet [OF assms(1-3) d] assms(5)
    by (simp add: ensure_upper_parents_def io_bind_def require_visible_simp(1))
qed

lemma make_room_quiet:
  assumes q: "quiet core" and ok: "lowers_ok core" "upper_ok (ov_upper st)" "list_all validate_name (p @ [c])"
    and vis: "visible core (p @ [c])" and run: "make_room core (p @ [c]) st = (r, st')"
  shows "r = walk (view core (ov_upper st)) [] p" "r = Inl e \<Longrightarrow> view core (ov_upper st') = view core (ov_upper st)"
proof -
  obtain st1 where rec: "record_preimage core (p @ [c]) st = (Inr (), st1)" and u1: "ov_upper st1 = ov_upper st"
    using record_preimage_quiet [OF q names_validate_rel [OF ok(3)]] by blast
  obtain r2 st2 where ens: "ensure_upper_parents core (p @ [c]) st1 = (r2, st2)" by fastforce
  have r2: "r2 = walk (view core (ov_upper st)) [] p"
    using ensure_upper_parents_quiet [OF q ok(1) _ ok(3) vis, of st1] ens u1 ok(2) by simp
  have kept: "upper_ok (ov_upper st2)" "view core (ov_upper st2) = view core (ov_upper st)"
    and dir: "r2 = Inr y \<Longrightarrow> \<exists>n. map_of (ov_upper st2) p = Some n \<and> is_dir n" for y
    using ensure_upper_parents_kept [OF ok(1) _ ok(3) ens] u1 ok(2) by (auto simp: kept_def)
  have clear: "fst (clear_whiteout core (p @ [c]) st2) = Inr ()" if "r2 = Inr ()"
    using clear_whiteout_quiet [OF q vis kept(1)] dir that by blast
  have run': "(r, st') = (case r2 of Inl e \<Rightarrow> (Inl e, st2) | Inr _ \<Rightarrow> clear_whiteout core (p @ [c]) st2)"
    using run rec ens by (simp add: make_room_def io_bind_def split: sum.splits)
  have "r = r2 \<and> (\<forall>e. r2 = Inl e \<longrightarrow> st' = st2)" using run' clear by (cases r2) (simp_all add: prod_eq_iff)
  then show "r = walk (view core (ov_upper st)) [] p" "r = Inl e \<Longrightarrow> view core (ov_upper st') = view core (ov_upper st)"
    using r2 kept(2) by simp_all
qed

lemma create_guard_quiet:
  assumes "lowers_ok core" "upper_ok (ov_upper st)" "list_all validate_name rel" "visible core rel"
  shows "io_bind (require_visible core rel) (\<lambda>_. io_read (\<lambda>st.
      if resolve core (ov_upper st) rel \<noteq> None then io_fail EEXIST else k)) st =
    (if view core (ov_upper st) rel \<noteq> None then (Inl EEXIST, st) else k st)"
  using assms by (simp add: io_bind_def io_read_def io_fail_def require_visible_simp(1) view_def)

text \<open>A creation whose own step succeeds once there is room answers as the tree does.\<close>

lemma create_refines:
  assumes q: "quiet core" and ok: "lowers_ok core" "upper_ok (ov_upper st)" "list_all validate_name rel" "rel \<noteq> []"
    and vis: "visible core rel"
    and create: "create = io_bind (require_visible core rel) (\<lambda>_. io_read (\<lambda>st.
      if resolve core (ov_upper st) rel \<noteq> None then io_fail EEXIST else io_bind (make_room core rel) (\<lambda>_. place)))"
    and success: "\<And>x st'. create st = (Inr x, st') \<Longrightarrow> view core (ov_upper st') = (view core (ov_upper st))(rel \<mapsto> y)"
    and place: "\<And>st1 d. upper_ok (ov_upper st1) \<Longrightarrow> map_of (ov_upper st1) rel = None \<Longrightarrow>
      map_of (ov_upper st1) (butlast rel) = Some d \<Longrightarrow> is_dir d \<Longrightarrow> fst (place st1) = Inr ()"
  shows "map_prod id (view core \<circ> ov_upper) (create st) = tree_create rel y (view core (ov_upper st))"
proof (cases "view core (ov_upper st) rel = None")
  case True
  obtain p c where rel: "rel = p @ [c]" using ok(4) by (metis append_butlast_last_id)
  obtain r1 st1 where room: "make_room core rel st = (r1, st1)" by fastforce
  note roomq = make_room_quiet [OF q ok(1,2) ok(3) [unfolded rel] vis [unfolded rel] room [unfolded rel]]
  note roomm = make_room_map [OF ok(1,2) ok(3) [unfolded rel] room [unfolded rel]]
  have eq: "create st = (case r1 of Inl e \<Rightarrow> (Inl e, st1) | Inr _ \<Rightarrow> place st1)"
    unfolding create create_guard_quiet [OF ok(1-3) vis] using True room by (simp add: io_bind_def split: sum.splits)
  show ?thesis
  proof (cases r1)
    case (Inl e)
    then have "walk (view core (ov_upper st)) [] (butlast rel) = Inl e" using roomq(1) rel by simp
    then show ?thesis using eq roomq(2) True Inl by (simp add: tree_create_def)
  next
    case (Inr x)
    obtain u d where u: "upper_ok u" "view core u = view core (ov_upper st)" "map_of u p = Some d" "is_dir d"
      "map_of (ov_upper st1) = (map_of u)(whiteout_path p c := None)" using roomm(2) [OF Inr] by blast
    have "map_of u rel = None"
    proof (rule ccontr)
      assume "map_of u rel \<noteq> None"
      then obtain n where "map_of u rel = Some n" by blast
      then show False using view_upper [OF ok(1) u(1) _ ok(3) vis] u(2) True by simp
    qed
    then have "fst (place st1) = Inr ()"
      using place [OF roomm(1)] u(3,4,5) rel by (auto simp: whiteout_path_def)
    then have run: "create st = (Inr (), snd (place st1))" using eq Inr by (simp add: prod_eq_iff)
    have "walk (view core (ov_upper st)) [] (butlast rel) = Inr ()" using roomq(1) Inr rel by simp
    then show ?thesis using run success [OF run] True by (simp add: tree_create_def)
  qed
next
  case False
  then show ?thesis unfolding create create_guard_quiet [OF ok(1-3) vis] by (simp add: tree_create_def)
qed

lemma create_entry_refines:
  assumes "quiet core" "lowers_ok core" "upper_ok (ov_upper st)" "list_all validate_name rel" "rel \<noteq> []" "visible core rel" "\<not> is_dir n"
  shows "map_prod id (view core \<circ> ov_upper) (create_entry core rel n st) = tree_create rel (content_of n) (view core (ov_upper st))"
proof (rule create_refines [OF assms(1-6) create_entry_def])
  show "view core (ov_upper st') = (view core (ov_upper st))(rel \<mapsto> content_of n)"
    if "create_entry core rel n st = (Inr x, st')" for x st'
    using create_entry_view [OF assms(2-4,7) that] by blast
  show "fst (os_call core (u_create rel n) st1) = Inr ()"
    if "map_of (ov_upper st1) rel = None" "map_of (ov_upper st1) (butlast rel) = Some d" "is_dir d" for st1 d
    using that os_call_quiet [OF assms(1)] u_create_Inr by (metis fst_conv)
qed

lemma mark_opaque_quiet:
  assumes "quiet core" "map_of (ov_upper st) rel = Some (DirNode m b)"
  shows "fst (mark_opaque core rel st) = Inr ()"
proof -
  let ?o = "rel @ [OPAQUE_NAME]" and ?f = "FileNode (oc_new_meta core (or S_IFREG 0x180)) []"
  obtain st1 where 1: "(if map_of (ov_upper st) ?o \<noteq> None then io_return () else os_call core (u_create ?o ?f)) st = (Inr (), st1)"
    using os_call_quiet [OF assms(1), of "u_create ?o ?f" st] assms(2)
    by (cases "map_of (ov_upper st) ?o") (auto simp: io_return_def u_create_def)
  then have "map_of (ov_upper st1) rel = Some (DirNode m b)"
    using assms(2) by (auto simp: io_return_def os_call_Inr u_create_Inr split: if_splits)
  then obtain st2 where "os_call core (u_set_opaque rel) st1 = (Inr (), st2)"
    using os_call_quiet [OF assms(1), of "u_set_opaque rel" st1] by (auto simp: u_set_opaque_def)
  then show ?thesis using 1 by (simp add: mark_opaque_def io_bind_def io_read_def io_return_def)
qed

lemma create_dir_refines:
  assumes "quiet core" "lowers_ok core" "upper_ok (ov_upper st)" "list_all validate_name rel" "rel \<noteq> []" "visible core rel"
  shows "map_prod id (view core \<circ> ov_upper) (create_dir core rel mode st) = tree_create rel Directory (view core (ov_upper st))"
proof (rule create_refines [OF assms create_dir_def])
  show "view core (ov_upper st') = (view core (ov_upper st))(rel \<mapsto> Directory)"
    if "create_dir core rel mode st = (Inr x, st')" for x st'
    using create_dir_view [OF assms(2-4) that] by blast
  let ?fresh = "oc_new_meta core (or S_IFDIR 0x1FF)"
  let ?m = "?fresh\<lparr>md_mode := or S_IFDIR (and mode 0xFFF)\<rparr>"
  show "fst (io_bind (os_call core (u_create rel (DirNode ?fresh False))) (\<lambda>_.
      io_bind (os_call core (u_put rel (DirNode ?m False))) (\<lambda>_.
      if exists_in_lower core rel then mark_opaque core rel else io_return ())) st1) = Inr ()"
    if new: "map_of (ov_upper st1) rel = None" "map_of (ov_upper st1) (butlast rel) = Some d" "is_dir d" for st1 d
  proof -
    obtain st2 where 2: "os_call core (u_create rel (DirNode ?fresh False)) st1 = (Inr (), st2)"
      using new os_call_quiet [OF assms(1), of "u_create rel (DirNode ?fresh False)" st1] by (auto simp: u_create_def)
    then have "map_of (ov_upper st2) rel \<noteq> None" by (auto simp: os_call_Inr u_create_Inr)
    then obtain st3 where 3: "os_call core (u_put rel (DirNode ?m False)) st2 = (Inr (), st3)"
      using os_call_quiet [OF assms(1), of "u_put rel (DirNode ?m False)" st2] by (auto simp: u_put_def)
    then have "map_of (ov_upper st3) rel = Some (DirNode ?m False)" by (auto simp: os_call_Inr u_put_Inr update_conv')
    then show ?thesis using 2 3 mark_opaque_quiet [OF assms(1), of st3 rel ?m False] by (simp add: io_bind_def io_return_def)
  qed
qed

lemma view_prefix_dir:
  assumes "lowers_ok core" "upper_ok u"
  shows "view core u p \<noteq> None \<Longrightarrow> strict_prefix q p \<Longrightarrow> view core u q = Some Directory"
proof (induction p rule: rev_induct)
  case (snoc c p)
  then show ?case by (auto simp: view_snoc [OF assms] strict_prefix_def prefix_snoc split: if_splits)
qed simp

lemma walk_view:
  assumes "\<And>q. strict_prefix current q \<Longrightarrow> prefix q (current @ cs) \<Longrightarrow> t q = Some Directory"
  shows "walk t current cs = Inr ()"
  using assms
proof (induction cs arbitrary: current)
  case (Cons c cs)
  have "t (current @ [c]) = Some Directory" using Cons.prems by (simp add: strict_prefix_def)
  moreover have "walk t (current @ [c]) cs = Inr ()"
  proof (rule Cons.IH)
    fix q
    assume "strict_prefix (current @ [c]) q" "prefix q ((current @ [c]) @ cs)"
    then show "t q = Some Directory" using Cons.prems [of q] by (auto simp: strict_prefix_def prefix_def)
  qed
  ultimately show ?case by simp
qed simp

lemma create_whiteout_quiet:
  assumes q: "quiet core" and ok: "lowers_ok core" "upper_ok (ov_upper st)" "list_all validate_name (p @ [c])" "visible core (p @ [c])"
    and walk: "walk (view core (ov_upper st)) [] p = Inr ()"
  shows "fst (create_whiteout core (p @ [c]) st) = Inr ()"
proof -
  let ?w = "whiteout_path p c" and ?f = "FileNode (oc_new_meta core (or S_IFREG 0x180)) []"
  obtain st1 where ens: "ensure_upper_parents core (p @ [c]) st = (Inr (), st1)"
    using ensure_upper_parents_quiet [OF q ok] walk by (metis butlast_snoc prod.collapse)
  obtain d where d: "map_of (ov_upper st1) p = Some d" "is_dir d"
    using ensure_upper_parents_kept(2) [OF ok(1-3) ens] by auto
  have "\<exists>st2. (if map_of (ov_upper st1) ?w \<noteq> None then io_return () else os_call core (u_create ?w ?f)) st1 = (Inr (), st2)"
    using os_call_quiet [OF q, of "u_create ?w ?f" st1] d
    by (cases "map_of (ov_upper st1) ?w") (auto simp: io_return_def u_create_def whiteout_path_def)
  then show ?thesis
    using ens unfolding create_whiteout_def io_bind_def io_read_def butlast_snoc last_snoc by (auto simp: io_return_def)
qed

lemma record_tree_quiet:
  assumes "quiet core" "validate_rel rel" "resolve core (ov_upper st) rel = Some (n, b)"
    and "is_dir n \<Longrightarrow> list_names core (ov_upper st) rel = Inr []"
  shows "\<exists>st'. record_tree core 1 rel rel st = (Inr (), st') \<and> ov_upper st' = ov_upper st"
proof -
  obtain st1 where "record_preimage core rel st = (Inr (), st1)" "ov_upper st1 = ov_upper st"
    using record_preimage_quiet [OF assms(1,2)] by blast
  then show ?thesis using assms(3,4) by (auto simp: io_bind_def io_read_def io_return_def)
qed

lemma remove_resolved_quiet:
  assumes q: "quiet core" and ok: "lowers_ok core" "upper_ok (ov_upper st)" "list_all validate_name rel" "rel \<noteq> []"
    and at: "visible core rel" "resolve core (ov_upper st) rel = Some (n, b)" "removable core (ov_upper st) rel directory n = Inr ()"
  shows "fst (remove_resolved core rel directory b st) = Inr ()"
proof -
  let ?u = "ov_upper st"
  obtain p c where pc: "rel = p @ [c]" using ok(4) by (metis append_butlast_last_id)
  have dir: "is_dir n \<longleftrightarrow> directory" and empty: "is_dir n \<Longrightarrow> list_names core ?u rel = Inr []"
    using at(3) by (auto simp: removable_def split: if_splits sum.splits)
  obtain st1 where 1: "record_tree core 1 rel rel st = (Inr (), st1)" "ov_upper st1 = ?u"
    using record_tree_quiet [OF q names_validate_rel [OF ok(3)] at(2) empty] by blast
  have up: "if b then map_of ?u rel = Some n else map_of ?u rel = None" using resolve_upper [OF ok(1,2) at(2)] .
  let ?del = "if \<not> b then io_return () else os_call core (if directory then u_remove_tree rel else u_unlink rel)"
  have "\<exists>st2. ?del st1 = (Inr (), st2)"
    using os_call_quiet [OF q, of "if directory then u_remove_tree rel else u_unlink rel" st1] up dir 1(2)
    by (auto simp: io_return_def u_remove_tree_def u_unlink_def split: if_splits)
  then obtain st2 where 2: "?del st1 = (Inr (), st2)" by blast
  have two: "upper_ok (ov_upper st2)" "\<And>q. \<not> prefix rel q \<Longrightarrow> map_of (ov_upper st2) q = map_of ?u q"
    using remove_upper_map [of st1 p c b n directory core "Inr ()" st2] ok(2) 1(2) dir 2 pc up by auto
  have "view core ?u rel \<noteq> None" using at(2) ok(3) by (simp add: view_def)
  then have "view core (ov_upper st2) s = Some Directory" if "prefix s p" for s
    using view_outside_map [OF ok(1,2) two(1), of p c s] view_prefix_dir [OF ok(1,2), of rel s] ok(3) two(2) that pc
    by (auto simp: strict_prefix_def prefix_def)
  then have "walk (view core (ov_upper st2)) [] p = Inr ()" by (intro walk_view) auto
  then have "fst (create_whiteout core rel st2) = Inr ()"
    using create_whiteout_quiet [OF q ok(1) two(1)] ok(3) at(1) pc by simp
  then show ?thesis using 1 2 by (auto simp: remove_resolved_def io_bind_def io_return_def simp del: record_tree.simps One_nat_def)
qed

lemma removable_tree:
  assumes ok: "lowers_ok core" "upper_ok u" "list_all validate_name rel" and vis: "visible core rel"
    and at: "resolve core u rel = Some (n, b)"
  shows "removable core u rel directory n = fst (tree_remove rel directory (view core u))"
proof -
  have v: "view core u rel = Some (content_of n)" using at ok(3) by (simp add: view_def)
  have none: "view core u (rel @ [c]) = None" if "\<not> is_dir n" for c
    using v that by (simp add: view_snoc [OF ok(1,2)])
  show ?thesis
  proof (cases "is_dir n")
    case True
    then obtain names where names: "list_names core u rel = Inr names"
      using vis at by (auto simp: list_names_def visible_def Let_def)
    have "names \<noteq> [] \<longleftrightarrow> (\<exists>c. view core u (rel @ [c]) \<noteq> None)"
      using list_names_view [OF ok names] by (metis list.set_intros(1) list.exhaust empty_iff list.set(1))
    then show ?thesis using True names v by (auto simp: removable_def tree_remove_def)
  next
    case False
    then show ?thesis using v none by (simp add: removable_def tree_remove_def)
  qed
qed

lemma remove_refines:
  assumes q: "quiet core" and ok: "lowers_ok core" "upper_ok (ov_upper st)" "list_all validate_name rel" "rel \<noteq> []" and vis: "visible core rel"
  shows "map_prod id (view core \<circ> ov_upper) (remove core rel directory st) = tree_remove rel directory (view core (ov_upper st))"
proof (cases "resolve core (ov_upper st) rel")
  case None
  then show ?thesis using vis
    by (simp add: remove_def io_bind_def io_read_def io_fail_def require_visible_simp(1) tree_remove_def view_def)
next
  case (Some item)
  obtain n b where at: "resolve core (ov_upper st) rel = Some (n, b)" using Some by fastforce
  have v: "view core (ov_upper st) rel = Some (content_of n)" using at ok(3) by (simp add: view_def)
  note tree = removable_tree [OF ok(1-3) vis at, of directory]
  have run: "remove core rel directory st = (case removable core (ov_upper st) rel directory n of Inl e \<Rightarrow> (Inl e, st)
      | Inr _ \<Rightarrow> remove_resolved core rel directory b st)"
    using vis at by (simp add: remove_def io_bind_def [of "require_visible core rel"] io_read_def io_fail_def require_visible_simp(1) split: sum.splits)
  show ?thesis
  proof (cases "removable core (ov_upper st) rel directory n")
    case (Inl e)
    then show ?thesis using run tree v by (auto simp: tree_remove_def split: if_splits)
  next
    case (Inr x)
    then have "remove core rel directory st = (Inr (), snd (remove_resolved core rel directory b st))"
      using run remove_resolved_quiet [OF q ok vis at, of directory] by (simp add: prod_eq_iff)
    then show ?thesis using remove_view [OF ok(1-4)] Inr tree v by (auto simp: tree_remove_def split: if_splits)
  qed
qed

lemma copy_up_quiet:
  assumes q: "quiet core" and ok: "lowers_ok core" "upper_ok (ov_upper st)" "list_all validate_name rel" "rel \<noteq> []" and vis: "visible core rel"
  shows "fst (copy_up core rel st) = (if view core (ov_upper st) rel = None then Inl ENOENT else Inr ())"
proof -
  let ?u = "ov_upper st"
  obtain p c where pc: "rel = p @ [c]" using ok(4) by (metis append_butlast_last_id)
  obtain st1 where 1: "record_preimage core rel st = (Inr (), st1)" "ov_upper st1 = ?u"
    using record_preimage_quiet [OF q names_validate_rel [OF ok(3)]] by blast
  have run: "copy_up core rel st = (if map_of ?u rel \<noteq> None then (Inr (), st1)
      else case resolve core ?u rel of None \<Rightarrow> (Inl ENOENT, st1) | Some (n, b) \<Rightarrow>
        if b then (Inr (), st1) else io_bind (ensure_upper_parents core rel) (\<lambda>_. os_call core (u_create rel (copied core n))) st1)"
    using 1 vis by (simp add: copy_up_def io_bind_def [of "require_visible core rel"] io_bind_def [of "record_preimage core rel"]
        io_read_def io_return_def io_fail_def require_visible_simp(1) split: option.splits)
  show ?thesis
  proof (cases "map_of ?u rel")
    case (Some n)
    then show ?thesis using run view_upper [OF ok(1,2) Some ok(3) vis] by simp
  next
    case gone: None
    show ?thesis
    proof (cases "resolve core ?u rel")
      case None
      then show ?thesis using run gone by (simp add: view_def)
    next
      case (Some item)
      obtain n where at: "resolve core ?u rel = Some (n, False)"
        using Some resolve_upper [OF ok(1,2), of rel] gone by (cases item) (auto split: if_splits)
      have v: "view core ?u rel \<noteq> None" using at ok(3) by (simp add: view_def)
      have "walk (view core ?u) [] p = Inr ()"
        using view_prefix_dir [OF ok(1,2) v] pc by (intro walk_view) (auto simp: strict_prefix_def prefix_def)
      then obtain st2 where ens: "ensure_upper_parents core rel st1 = (Inr (), st2)"
        using ensure_upper_parents_quiet [OF q ok(1) _ ok(3) vis, of st1] ok(2) 1(2) pc by (metis butlast_snoc prod.collapse)
      have kept: "kept core [] p ?u (ov_upper st2)" and dir: "\<exists>d. map_of (ov_upper st2) p = Some d \<and> is_dir d"
        using ensure_upper_parents_kept [OF ok(1) _ ok(3) ens] ok(2) 1(2) pc by auto
      have "map_of (ov_upper st2) rel = None" using kept_frame [OF kept, of rel] gone pc by (simp add: prefix_def)
      then have "fst (os_call core (u_create rel (copied core n)) st2) = Inr ()"
        using os_call_quiet [OF q, of "u_create rel (copied core n)" st2] dir pc by (auto simp: u_create_def)
      then show ?thesis using run gone at ens v by (simp add: io_bind_def)
    qed
  qed
qed

lemma overlay_exec_hidden:
  assumes "op_ok op" "\<not> visible core (op_path op)"
  shows "overlay_exec core op st = (Inl ENOENT, st)"
proof -
  have "require_visible core (op_path op) st = (Inl ENOENT, st)"
    using assms names_validate_rel by (auto simp: op_ok_def visible_def require_visible_def io_fail_def)
  then show ?thesis
    by (cases op) (simp_all add: create_file_def create_symlink_def create_node_def create_entry_def create_dir_def
      remove_def copy_up_def io_bind_def)
qed

lemma overlay_exec_ok:
  assumes "lowers_ok core" "upper_ok (ov_upper st)" "op_ok op" "overlay_exec core op st = (r, st')"
  shows "upper_ok (ov_upper st')"
proof -
  have op: "list_all validate_name (op_path op)" "op_path op \<noteq> []" using assms(3) by (auto simp: op_ok_def)
  have entry: "upper_ok (ov_upper st')" if "create_entry core (op_path op) n st = (r, st')" "\<not> is_dir n" for n
    using create_entry_view [OF assms(1,2) op(1)] that by blast
  show ?thesis
    using assms(4) op entry create_dir_view [OF assms(1,2) op(1)] remove_view [OF assms(1,2) op] copy_up_kept [OF assms(1,2) op(1)]
    by (cases op) (auto simp: create_file_def create_symlink_def create_node_def)
qed

lemma overlay_exec_refines:
  assumes "quiet core" "lowers_ok core" "upper_ok (ov_upper st)" "op_ok op"
  shows "map_prod id (view core \<circ> ov_upper) (overlay_exec core op st) = tree_exec core op (view core (ov_upper st))"
proof (cases "visible core (op_path op)")
  case True
  then have vis: "\<not> is_excluded core (op_path op)" by (simp add: visible_def)
  have op: "list_all validate_name (op_path op)" "op_path op \<noteq> []" using assms(4) by (auto simp: op_ok_def)
  note entry = create_entry_refines [OF assms(1-3)] and copy = copy_up_quiet [OF assms(1-3)] copy_up_kept [OF assms(2,3)]
  show ?thesis
  proof (cases op)
    case (CopyUp rel)
    obtain r st' where run: "copy_up core rel st = (r, st')" by fastforce
    show ?thesis using CopyUp copy(1) [of rel] copy(2) [of rel, OF _ run] run op True vis by (auto simp: tree_exec_def)
  next
    case (CreateFile rel mode)
    then show ?thesis using entry [of rel] op True vis by (simp add: create_file_def tree_exec_def)
  next
    case (CreateSymlink rel target)
    then show ?thesis using entry [of rel] op True vis by (simp add: create_symlink_def tree_exec_def)
  next
    case (CreateNode rel mode rdev)
    then show ?thesis using entry [of rel] op True vis by (simp add: create_node_def tree_exec_def)
  next
    case (CreateDir rel mode)
    then show ?thesis using create_dir_refines [OF assms(1-3), of rel] op True vis by (simp add: tree_exec_def)
  next
    case (Remove rel directory)
    then show ?thesis using remove_refines [OF assms(1-3), of rel] op True vis by (simp add: tree_exec_def)
  qed
next
  case False
  then have "is_excluded core (op_path op)" using assms(4) names_validate_rel by (auto simp: op_ok_def visible_def)
  then show ?thesis using overlay_exec_hidden [OF assms(4) False] by (simp add: tree_exec_def)
qed

interpretation overlay_tree: op_refinement
  "\<lambda>st. quiet core \<and> lowers_ok core \<and> upper_ok (ov_upper st)" "view core \<circ> ov_upper" op_ok "overlay_exec core" "tree_exec core"
  for core
proof unfold_locales
  show "quiet core \<and> lowers_ok core \<and> upper_ok (ov_upper (snd (overlay_exec core op st)))"
    if "op_ok op" "quiet core \<and> lowers_ok core \<and> upper_ok (ov_upper st)" for op st
    using that overlay_exec_ok [of core st op] by (metis prod.collapse)
  show "map_prod id (view core \<circ> ov_upper) (overlay_exec core op st) = tree_exec core op ((view core \<circ> ov_upper) st)"
    if "op_ok op" "quiet core \<and> lowers_ok core \<and> upper_ok (ov_upper st)" for op st
    using that overlay_exec_refines by simp
qed

subsection \<open>A layer given by the list of its entries\<close>

definition alist_layer :: "(path \<times> node) list \<Rightarrow> layer" where
  "alist_layer xs =
    \<lparr>ly_stat = (\<lambda>p. case map_of xs p of None \<Rightarrow> Inl (u_missing xs p) | Some n \<Rightarrow> Inr n),
     ly_entries = (\<lambda>p. if directory_at xs p then Some (upper_entries xs p) else None)\<rparr>"

definition plain_node :: "node \<Rightarrow> bool" where
  "plain_node n \<longleftrightarrow> \<not> xattr_opaque n \<and> (case n of OtherNode _ rdev \<Rightarrow> ucast (ucast rdev :: u32) = rdev | _ \<Rightarrow> True)"

lemma alist_lookup: "ly_lookup (alist_layer xs) p = map_of xs p"
  by (simp add: ly_lookup_def alist_layer_def split: option.splits)

lemma layer_ok_alist:
  assumes dirs: "list_all (\<lambda>(p, _). p = [] \<or> directory_at xs (butlast p)) xs" and plain: "list_all (plain_node \<circ> snd) xs"
  shows "layer_ok (alist_layer xs)"
proof -
  have parent: "map_of xs (p @ [c]) \<noteq> None \<Longrightarrow> directory_at xs p" for p c
    using dirs list_all_map_of [of "\<lambda>p c. directory_at xs p" xs] by blast
  have none: "map_of xs (p @ [c]) = None" if "\<not> directory_at xs p" for p c
    using parent [of p c] that by (cases "map_of xs (p @ [c])") simp_all
  have plain': "plain_node n" if "map_of xs p = Some n" for p n
    using plain map_of_SomeD [OF that] by (auto simp: list_all_iff)
  show ?thesis
    unfolding layer_ok_def alist_lookup
  proof (intro conjI allI impI)
    show "\<not> xattr_opaque n" if "map_of xs p = Some n" for p n using plain' [OF that] by (simp add: plain_node_def)
    show "ucast (ucast rdev :: u32) = rdev" if "map_of xs p = Some (OtherNode m rdev)" for p m rdev
      using plain' [OF that] by (simp add: plain_node_def)
  qed (use none in \<open>auto simp: alist_layer_def upper_entries_iff directory_at_iff split: if_splits\<close>)
qed

definition demo_meta :: Metadata where
  "demo_meta = \<lparr>md_mode = 0x81A4, md_uid = 1000, md_gid = 1000, md_mtime = (0, 0)\<rparr>"

definition demo_lower :: "(path \<times> node) list" where
  "demo_lower = [([], DirNode demo_meta False), ([''etc''], DirNode demo_meta False),
    ([''etc'', ''hosts''], FileNode demo_meta ''localhost''), ([''motd''], FileNode demo_meta ''hello'')]"

definition demo_core :: OverlayCore where
  "demo_core = \<lparr>oc_lowers = [alist_layer demo_lower], oc_excluded = [[''secret'']], oc_journaling = False, oc_digest = id,
    oc_new_meta = (\<lambda>mode. demo_meta\<lparr>md_mode := mode\<rparr>), oc_chown = True, oc_utimes = True, oc_xattrs = False,
    oc_upper_dir = [''up''], oc_work = None, oc_fault = (\<lambda>_. False)\<rparr>"

definition demo_overlay :: overlay where
  "demo_overlay = projr (overlay_new demo_core)"

lemma demo_layer_ok: "layer_ok (alist_layer demo_lower)"
  by (rule layer_ok_alist) code_simp+

lemma demo_core_ok: "lowers_ok demo_core" "quiet demo_core" "upper_ok (ov_upper demo_overlay)"
proof -
  show "lowers_ok demo_core" using demo_layer_ok by (simp add: lowers_ok_def demo_core_def)
  show "quiet demo_core" by (simp add: quiet_def demo_core_def)
  show "upper_ok (ov_upper demo_overlay)" by code_simp
qed

definition demo_ops :: "overlay_op list" where
  "demo_ops = [Remove [''motd''] False, CreateDir [''motd''] 0x1ED, CreateFile [''motd'', ''today''] 0x1A4,
    Remove [''etc''] True, CreateFile [''etc'', ''hosts''] 0x1A4, CreateFile [''nowhere'', ''x''] 0x1A4,
    CopyUp [''etc'', ''hosts''], CreateFile [''secret''] 0x1A4]"



text \<open>
  C27: A directory listing is exactly the set of names that can be looked up in that directory, in
  byte order and without duplicates, whatever whiteouts, opaque markers and excluded paths
  there are.
\<close>

theorem list_names_complete:
  assumes "lowers_ok core" "upper_ok u" "list_all validate_name rel" "list_names core u rel = Inr names"
  shows "set names = {name. validate_name name \<and> resolve core u (rel @ [name]) \<noteq> None} \<and> sorted names \<and> distinct names"
proof -
  have "view core u (rel @ [name]) \<noteq> None \<longleftrightarrow> validate_name name \<and> resolve core u (rel @ [name]) \<noteq> None" for name
    using assms(3) by (simp add: view_def)
  then show ?thesis using list_names_view [OF assms] list_names_sorted [OF assms(4)] by blast
qed

theorem list_names_complete_witness:
  "list_names demo_core (ov_upper (snd (run_ops (overlay_exec demo_core) demo_ops demo_overlay))) [] = Inr [''etc'', ''motd''] \<and>
   set [''etc'', ''motd''] = {name. validate_name name \<and>
     resolve demo_core (ov_upper (snd (run_ops (overlay_exec demo_core) demo_ops demo_overlay))) ([] @ [name]) \<noteq> None}"
proof -
  let ?u = "ov_upper (snd (run_ops (overlay_exec demo_core) demo_ops demo_overlay))"
  have "list_names demo_core ?u [] = Inr [''etc'', ''motd'']" "upper_ok ?u" by code_simp+
  with list_names_complete [OF demo_core_ok(1), of ?u "[]"] show ?thesis by auto
qed

end
