(* ===== verification/OverlayPlan.thy ===== *)
theory OverlayPlan
  imports OverlayTree
begin

section \<open>Which changes of an overlay are applied together\<close>

text \<open>
  The first half of \<open>persisting-pvisor/src/runtime/overlay.rs\<close>: the changes that the upper directory
  holds, the user's selection, and the plan, which closes the selection under what must be applied
  with it. Names are UTF-8, so the printed path of a change and its path are the same; a path is the
  list of its components. The \<open>globset\<close> crate is a parameter, as are the inode numbers and link counts
  that the file system reports. A set of paths is a list without repetitions, in any
  order: the order decides only which of several errors is reported. The groups of hard links, which
  the code takes from a hash map, come in the order of their first path.
\<close>

subsection \<open>Changes\<close>

datatype ChangeKind = Added | Modified | Deleted | TypeChanged | Opaque

datatype ChangeEntryType = TypeFile | TypeDirectory | TypeSymlink | TypeOther

record ChangeEntry =
  ch_path :: path
  ch_kind :: ChangeKind
  ch_old_type :: "ChangeEntryType option"
  ch_new_type :: "ChangeEntryType option"
  ch_size_bytes :: "nat option"
  ch_mode :: "u32 option"

datatype overlay_error =
    InvalidConfig
  | ApplyError
  | InvalidState
  | OverlayIo errno
  | Persist
  | Finalize

fun metadata_type :: "node \<Rightarrow> ChangeEntryType" where
  "metadata_type (FileNode _ _) = TypeFile"
| "metadata_type (DirNode _ _) = TypeDirectory"
| "metadata_type (LinkNode _ _) = TypeSymlink"
| "metadata_type (OtherNode _ _) = TypeOther"

definition lower_metadata :: "layer list \<Rightarrow> path \<Rightarrow> node option" where
  "lower_metadata lowers rel = find_map (\<lambda>lower. ly_lookup lower rel) lowers"

definition whiteout_target :: "string \<Rightarrow> string option" where
  "whiteout_target name =
    (case strip_prefix name WHITEOUT_PREFIX of
       None \<Rightarrow> None
     | Some stripped \<Rightarrow> if stripped = [] then None else Some stripped)"

text \<open>\<open>walk_upper\<close> does not enter directories with the name of a whiteout.\<close>

definition walk_upper :: "upper \<Rightarrow> (path \<times> node) list" where
  "walk_upper u = filter (\<lambda>(p, _). p \<noteq> [] \<and> list_all (\<lambda>c. \<not> is_whiteout_name c) (butlast p)) u"

definition change_of :: "layer list \<Rightarrow> path \<times> node \<Rightarrow> ChangeEntry list" where
  "change_of lowers = (\<lambda>(rel, n).
     if is_whiteout_name (last rel) then
       (if last rel = OPAQUE_NAME then
          [\<lparr>ch_path = butlast rel, ch_kind = Opaque, ch_old_type = Some TypeDirectory,
            ch_new_type = Some TypeDirectory, ch_size_bytes = None, ch_mode = None\<rparr>]
        else case whiteout_target (last rel) of
          None \<Rightarrow> []
        | Some victim \<Rightarrow>
            [\<lparr>ch_path = butlast rel @ [victim], ch_kind = Deleted,
              ch_old_type = map_option metadata_type (lower_metadata lowers (butlast rel @ [victim])),
              ch_new_type = None, ch_size_bytes = None, ch_mode = None\<rparr>])
     else
       let old_type = map_option metadata_type (lower_metadata lowers rel) in
       [\<lparr>ch_path = rel,
         ch_kind = (case old_type of
            None \<Rightarrow> Added
          | Some t \<Rightarrow> if t \<noteq> metadata_type n then TypeChanged else Modified),
         ch_old_type = old_type, ch_new_type = Some (metadata_type n),
         ch_size_bytes = (case n of FileNode _ content \<Rightarrow> Some (length content) | _ \<Rightarrow> None),
         ch_mode = Some (and (md_mode (node_meta n)) 0xFFF)\<rparr>])"

fun kind_rank :: "ChangeKind \<Rightarrow> nat" where
  "kind_rank Added = 0"
| "kind_rank Modified = 1"
| "kind_rank Deleted = 2"
| "kind_rank TypeChanged = 3"
| "kind_rank Opaque = 4"

text \<open>Two stable sorts: by path, then by kind.\<close>

definition overlay_changes :: "layer list \<Rightarrow> upper \<Rightarrow> ChangeEntry list" where
  "overlay_changes lowers u =
    (if \<not> directory_at u [] then []
     else sort_key (path_bytes \<circ> ch_path) (sort_key (kind_rank \<circ> ch_kind) (concat (map (change_of lowers) (walk_upper u)))))"

subsection \<open>Selections\<close>

record ApplySelection =
  sl_paths :: "string list"
  sl_includes :: "string list"
  sl_excludes :: "string list"

definition is_all :: "ApplySelection \<Rightarrow> bool" where
  "is_all s \<longleftrightarrow> sl_paths s = [] \<and> sl_includes s = [] \<and> sl_excludes s = []"

text \<open>The \<open>globset\<close> crate: which patterns it accepts and what they match.\<close>

record globs =
  gl_valid :: "string \<Rightarrow> bool"
  gl_match :: "string \<Rightarrow> path \<Rightarrow> bool"

text \<open>\<open>Path::components\<close> of a path that is not absolute.\<close>

fun split_slash :: "string \<Rightarrow> string \<Rightarrow> string list" where
  "split_slash acc [] = [acc]"
| "split_slash acc (c # s) = (if c = CHR ''/'' then acc # split_slash [] s else split_slash (acc @ [c]) s)"

definition normalize_selection_path :: "string \<Rightarrow> overlay_error + path" where
  "normalize_selection_path p =
    (let components = filter (\<lambda>c. c \<noteq> [] \<and> c \<noteq> ''.'') (split_slash [] p) in
     if starts_with p ''/'' \<or> ''..'' \<in> set components then Inl InvalidConfig else Inr components)"

record CompiledApplySelection =
  cs_paths :: "path list"
  cs_includes :: "path \<Rightarrow> bool"
  cs_excludes :: "path \<Rightarrow> bool"
  cs_has_positive :: bool

definition compile_globs :: "globs \<Rightarrow> string list \<Rightarrow> overlay_error + (path \<Rightarrow> bool)" where
  "compile_globs gl patterns =
    (if list_all (gl_valid gl) patterns then Inr (\<lambda>p. list_ex (\<lambda>pattern. gl_match gl pattern p) patterns)
     else Inl InvalidConfig)"

definition compile_selection :: "globs \<Rightarrow> ApplySelection \<Rightarrow> overlay_error + CompiledApplySelection" where
  "compile_selection gl s =
    rbind (collect_results normalize_selection_path (sl_paths s)) (\<lambda>paths.
    rbind (compile_globs gl (sl_includes s)) (\<lambda>includes.
    rbind (compile_globs gl (sl_excludes s)) (\<lambda>excludes.
      Inr \<lparr>cs_paths = paths, cs_includes = includes, cs_excludes = excludes,
           cs_has_positive = (paths \<noteq> [] \<or> sl_includes s \<noteq> [])\<rparr>)))"

definition requested :: "CompiledApplySelection \<Rightarrow> path \<Rightarrow> bool" where
  "requested cs p \<longleftrightarrow> \<not> cs_has_positive cs \<or> list_ex (\<lambda>selected. prefix selected p) (cs_paths cs) \<or> cs_includes cs p"

text \<open>The path itself or one of its ancestors, the root included.\<close>

definition excluded :: "CompiledApplySelection \<Rightarrow> path \<Rightarrow> bool" where
  "excluded cs p = list_ex (cs_excludes cs) (prefixes p)"

definition at_or_below :: "path \<Rightarrow> path \<Rightarrow> bool" where
  "at_or_below p root = prefix root p"

subsection \<open>The plan\<close>

text \<open>Paths join the selection unless one of them is excluded.\<close>

fun select_all :: "(path \<Rightarrow> bool) \<Rightarrow> path list \<Rightarrow> path list \<Rightarrow> overlay_error + path list" where
  "select_all excl [] sel = Inr sel"
| "select_all excl (p # ps) sel = (if excl p then Inl ApplyError else select_all excl ps (List.insert p sel))"

text \<open>\<open>for x in xs\<close> with \<open>?\<close>.\<close>

fun try_fold :: "('a \<Rightarrow> 's \<Rightarrow> 'e + 's) \<Rightarrow> 'a list \<Rightarrow> 's \<Rightarrow> 'e + 's" where
  "try_fold f [] s = Inr s"
| "try_fold f (x # xs) s = rbind (f x s) (try_fold f xs)"

definition close_opaque :: "(path \<Rightarrow> bool) \<Rightarrow> ChangeEntry list \<Rightarrow> path \<Rightarrow> path list \<Rightarrow> overlay_error + path list" where
  "close_opaque excl changes opaque sel =
    (if list_ex (\<lambda>p. p \<noteq> opaque \<and> at_or_below p opaque) sel \<and> opaque \<notin> set sel then Inl ApplyError
     else if opaque \<in> set sel then
       select_all excl (filter (\<lambda>p. at_or_below p opaque) (map ch_path changes)) sel
     else Inr sel)"

definition close_group :: "(path \<Rightarrow> bool) \<Rightarrow> path list \<Rightarrow> path list \<Rightarrow> overlay_error + path list" where
  "close_group excl members sel = (if list_ex (\<lambda>p. p \<in> set sel) members then select_all excl members sel else Inr sel)"

text \<open>\<open>Path::parent\<close>, repeatedly.\<close>

definition ancestors :: "path \<Rightarrow> path list" where
  "ancestors p = rev (butlast (prefixes p))"

definition is_directory_change :: "ChangeEntry list \<Rightarrow> path \<Rightarrow> bool" where
  "is_directory_change changes p = list_ex (\<lambda>c. ch_path c = p \<and> ch_new_type c = Some TypeDirectory) changes"

definition close_ancestors :: "(path \<Rightarrow> bool) \<Rightarrow> ChangeEntry list \<Rightarrow> path \<Rightarrow> path list \<Rightarrow> overlay_error + path list" where
  "close_ancestors excl changes p sel = select_all excl (filter (is_directory_change changes) (ancestors p)) sel"

definition plan_round ::
  "(path \<Rightarrow> bool) \<Rightarrow> ChangeEntry list \<Rightarrow> path list list \<Rightarrow> path list \<Rightarrow> overlay_error + path list"
where
  "plan_round excl changes groups sel =
    rbind (try_fold (close_opaque excl changes) (map ch_path (filter (\<lambda>c. ch_kind c = Opaque) changes)) sel) (\<lambda>s1.
    rbind (try_fold (close_group excl) groups s1) (\<lambda>s2.
      try_fold (close_ancestors excl changes) s2 s2))"

text \<open>\<open>MetadataExt\<close>: device and inode number, and number of links.\<close>

record inodes =
  in_dev_ino :: "path \<Rightarrow> u64 \<times> u64"
  in_nlink :: "path \<Rightarrow> u64"

definition upper_hard_link_groups :: "inodes \<Rightarrow> upper \<Rightarrow> path list list" where
  "upper_hard_link_groups ino u =
    (if \<not> directory_at u [] then []
     else
       let linked = map fst (filter (\<lambda>(rel, n). \<not> is_whiteout_name (last rel) \<and> metadata_type n = TypeFile \<and>
              1 < in_nlink ino rel) (walk_upper u)) in
       filter (\<lambda>paths. 1 < length paths)
         (map (\<lambda>inode. filter (\<lambda>rel. in_dev_ino ino rel = inode) linked) (remdups (map (in_dev_ino ino) linked))))"

text \<open>The \<open>loop\<close> ends when a round adds nothing.\<close>

partial_function (option) plan_loop ::
  "(path \<Rightarrow> bool) \<Rightarrow> ChangeEntry list \<Rightarrow> path list list \<Rightarrow> path list \<Rightarrow> (overlay_error + path list) option"
where
  "plan_loop excl changes groups sel =
    (case plan_round excl changes groups sel of
       Inl e \<Rightarrow> Some (Inl e)
     | Inr sel' \<Rightarrow> if length sel' = length sel then Some (Inr sel') else plan_loop excl changes groups sel')"

declare plan_loop.simps [code]

definition initial_selection :: "CompiledApplySelection \<Rightarrow> ChangeEntry list \<Rightarrow> path list" where
  "initial_selection cs changes = remdups (filter (\<lambda>p. requested cs p \<and> \<not> excluded cs p) (map ch_path changes))"

record ApplyPlan =
  pl_selected :: "ChangeEntry list"
  pl_selected_paths :: "path list"

definition plan_overlay_apply ::
  "globs \<Rightarrow> inodes \<Rightarrow> layer list \<Rightarrow> upper \<Rightarrow> ApplySelection \<Rightarrow> (overlay_error + ApplyPlan) option"
where
  "plan_overlay_apply gl ino lowers u selection =
    (let changes = overlay_changes lowers u in
     case compile_selection gl selection of
       Inl e \<Rightarrow> Some (Inl e)
     | Inr cs \<Rightarrow>
        (let sel = initial_selection cs changes in
         if \<not> is_all selection \<and> sel = [] then Some (Inl ApplyError)
         else case plan_loop (excluded cs) changes (upper_hard_link_groups ino u) sel of
           None \<Rightarrow> None
         | Some (Inl e) \<Rightarrow> Some (Inl e)
         | Some (Inr closed) \<Rightarrow>
             Some (Inr \<lparr>pl_selected = filter (\<lambda>c. ch_path c \<in> set closed) changes, pl_selected_paths = closed\<rparr>)))"

subsection \<open>Rounds only add what must be added\<close>

text \<open>What a closed selection contains with its members.\<close>

definition plan_closed :: "ChangeEntry list \<Rightarrow> path list list \<Rightarrow> path set \<Rightarrow> bool" where
  "plan_closed changes groups S \<longleftrightarrow>
    (\<forall>c d. c \<in> set changes \<longrightarrow> d \<in> set changes \<longrightarrow> ch_kind c = Opaque \<longrightarrow> ch_path c \<in> S \<longrightarrow>
       at_or_below (ch_path d) (ch_path c) \<longrightarrow> ch_path d \<in> S) \<and>
    (\<forall>g p q. g \<in> set groups \<longrightarrow> p \<in> set g \<longrightarrow> q \<in> set g \<longrightarrow> p \<in> S \<longrightarrow> q \<in> S) \<and>
    (\<forall>p q. p \<in> S \<longrightarrow> strict_prefix q p \<longrightarrow> is_directory_change changes q \<longrightarrow> q \<in> S)"

lemma in_ancestors: "q \<in> set (ancestors p) \<longleftrightarrow> strict_prefix q p"
proof (cases p rule: rev_cases)
  case (snoc ps x)
  then have "set (ancestors p) = set (prefixes ps)" by (simp add: ancestors_def prefixes_snoc)
  then show ?thesis using snoc by (auto simp: strict_prefix_def dest: prefix_length_le)
qed (simp add: ancestors_def)

text \<open>The paths that a round may add.\<close>

definition plan_universe :: "ChangeEntry list \<Rightarrow> path list list \<Rightarrow> path set" where
  "plan_universe changes groups = ch_path ` set changes \<union> \<Union> (set ` set groups)"

definition grows ::
  "(path \<Rightarrow> bool) \<Rightarrow> ChangeEntry list \<Rightarrow> path list list \<Rightarrow> path list \<Rightarrow> path list \<Rightarrow> bool"
where
  "grows excl changes groups sel sel' \<longleftrightarrow>
    set sel \<subseteq> set sel' \<and> set sel' \<subseteq> set sel \<union> plan_universe changes groups \<and> (distinct sel \<longrightarrow> distinct sel') \<and>
    (\<forall>p. p \<in> set sel' \<longrightarrow> p \<notin> set sel \<longrightarrow> \<not> excl p) \<and>
    (\<forall>T. plan_closed changes groups T \<longrightarrow> set sel \<subseteq> T \<longrightarrow> set sel' \<subseteq> T)"

lemma grows_refl: "grows excl changes groups sel sel"
  by (simp add: grows_def)

lemma grows_trans:
  assumes "grows excl changes groups a b" "grows excl changes groups b c"
  shows "grows excl changes groups a c"
proof -
  have 1: "set a \<subseteq> set b" "set b \<subseteq> set a \<union> plan_universe changes groups" "distinct a \<Longrightarrow> distinct b"
    "\<And>p. p \<in> set b \<Longrightarrow> p \<notin> set a \<Longrightarrow> \<not> excl p" "\<And>T. plan_closed changes groups T \<Longrightarrow> set a \<subseteq> T \<Longrightarrow> set b \<subseteq> T"
    using assms(1) by (simp_all add: grows_def)
  have 2: "set b \<subseteq> set c" "set c \<subseteq> set b \<union> plan_universe changes groups" "distinct b \<Longrightarrow> distinct c"
    "\<And>p. p \<in> set c \<Longrightarrow> p \<notin> set b \<Longrightarrow> \<not> excl p" "\<And>T. plan_closed changes groups T \<Longrightarrow> set b \<subseteq> T \<Longrightarrow> set c \<subseteq> T"
    using assms(2) by (simp_all add: grows_def)
  have "set a \<subseteq> set c" "set c \<subseteq> set a \<union> plan_universe changes groups" using 1 2 by blast+
  moreover have "distinct a \<longrightarrow> distinct c" using 1(3) 2(3) by blast
  moreover have "\<forall>p. p \<in> set c \<longrightarrow> p \<notin> set a \<longrightarrow> \<not> excl p" using 1(4) 2(4) by metis
  moreover have "\<forall>T. plan_closed changes groups T \<longrightarrow> set a \<subseteq> T \<longrightarrow> set c \<subseteq> T" using 1(5) 2(5) by metis
  ultimately show ?thesis by (simp add: grows_def)
qed

lemma select_all_Inr:
  "select_all excl ps sel = Inr sel' \<Longrightarrow>
    set sel' = set sel \<union> set ps \<and> (\<forall>p \<in> set ps. \<not> excl p) \<and> (distinct sel \<longrightarrow> distinct sel')"
  by (induction ps arbitrary: sel) (auto split: if_splits)

lemma select_all_grows:
  assumes "select_all excl ps sel = Inr sel'" and "set ps \<subseteq> plan_universe changes groups"
    and "\<And>T. plan_closed changes groups T \<Longrightarrow> set sel \<subseteq> T \<Longrightarrow> set ps \<subseteq> T"
  shows "grows excl changes groups sel sel'"
proof -
  note s = select_all_Inr [OF assms(1)]
  have "\<forall>T. plan_closed changes groups T \<longrightarrow> set sel \<subseteq> T \<longrightarrow> set sel' \<subseteq> T"
    using s assms(3) by simp
  then show ?thesis using s assms(2) unfolding grows_def by auto
qed

lemma close_opaque_grows:
  assumes "close_opaque excl changes (ch_path c) sel = Inr sel'" and c: "c \<in> set changes" "ch_kind c = Opaque"
  shows "grows excl changes groups sel sel'"
proof (cases "ch_path c \<in> set sel")
  case True
  then have s: "select_all excl (filter (\<lambda>p. at_or_below p (ch_path c)) (map ch_path changes)) sel = Inr sel'"
    using assms(1) by (simp add: close_opaque_def)
  show ?thesis
  proof (rule select_all_grows [OF s])
    show "set (filter (\<lambda>p. at_or_below p (ch_path c)) (map ch_path changes)) \<subseteq> T"
      if "plan_closed changes groups T" "set sel \<subseteq> T" for T
      using that True c unfolding plan_closed_def by auto
  qed (auto simp: plan_universe_def)
next
  case False
  then show ?thesis using assms(1) by (auto simp: close_opaque_def grows_refl split: if_splits)
qed

lemma close_group_grows:
  assumes "close_group excl g sel = Inr sel'" "g \<in> set groups"
  shows "grows excl changes groups sel sel'"
proof (cases "list_ex (\<lambda>p. p \<in> set sel) g")
  case True
  then have s: "select_all excl g sel = Inr sel'" using assms(1) by (simp add: close_group_def)
  show ?thesis
  proof (rule select_all_grows [OF s])
    show "set g \<subseteq> T" if "plan_closed changes groups T" "set sel \<subseteq> T" for T
    proof
      fix q assume "q \<in> set g"
      obtain p where "p \<in> set g" "p \<in> set sel" using True by (auto simp: list_ex_iff)
      with that \<open>q \<in> set g\<close> assms(2) show "q \<in> T" unfolding plan_closed_def by blast
    qed
  qed (use assms(2) in \<open>auto simp: plan_universe_def\<close>)
next
  case False
  then show ?thesis using assms(1) by (simp add: close_group_def grows_refl)
qed

lemma close_ancestors_grows:
  assumes "close_ancestors excl changes p sel = Inr sel'" "p \<in> set sel"
  shows "grows excl changes groups sel sel'"
proof (rule select_all_grows)
  show "select_all excl (filter (is_directory_change changes) (ancestors p)) sel = Inr sel'"
    using assms(1) by (simp add: close_ancestors_def)
  show "set (filter (is_directory_change changes) (ancestors p)) \<subseteq> T"
    if "plan_closed changes groups T" "set sel \<subseteq> T" for T
    using that assms(2) unfolding plan_closed_def by (auto simp: in_ancestors)
qed (auto simp: plan_universe_def is_directory_change_def list_ex_iff)

text \<open>What holds of a selection that a step leaves as it is.\<close>

lemma close_opaque_settled:
  assumes "close_opaque excl changes p a = Inr b" "set a = S" "set b = S"
  shows "q \<in> S \<Longrightarrow> at_or_below q p \<Longrightarrow> p \<in> S"
    and "p \<in> S \<Longrightarrow> d \<in> set changes \<Longrightarrow> at_or_below (ch_path d) p \<Longrightarrow> ch_path d \<in> S"
  using assms by (auto simp: close_opaque_def list_ex_iff dest!: select_all_Inr split: if_splits)

lemma close_group_settled:
  assumes "close_group excl g a = Inr b" "set a = S" "set b = S" "p \<in> S" "p \<in> set g" "q \<in> set g"
  shows "q \<in> S"
  using assms by (auto simp: close_group_def list_ex_iff dest!: select_all_Inr split: if_splits)

lemma close_ancestors_settled:
  assumes "close_ancestors excl changes p a = Inr b" "set a = S" "set b = S" "strict_prefix q p" "is_directory_change changes q"
  shows "q \<in> S"
  using assms by (auto simp: close_ancestors_def in_ancestors dest!: select_all_Inr)

text \<open>A loop of steps that grow grows; when it adds nothing, no step in it does.\<close>

lemma try_fold_grows:
  assumes "try_fold f xs sel = Inr sel'"
    and "\<And>x a b. x \<in> set xs \<Longrightarrow> set sel \<subseteq> set a \<Longrightarrow> f x a = Inr b \<Longrightarrow> grows excl changes groups a b"
  shows "grows excl changes groups sel sel' \<and>
    (set sel' = set sel \<longrightarrow> (\<forall>x \<in> set xs. \<exists>a b. f x a = Inr b \<and> set a = set sel \<and> set b = set sel))"
  using assms
proof (induction xs arbitrary: sel)
  case (Cons x xs)
  then obtain s1 where s1: "f x sel = Inr s1" "try_fold f xs s1 = Inr sel'" by (auto elim: rbind_InrE)
  have g1: "grows excl changes groups sel s1" by (rule Cons.prems(2) [OF _ _ s1(1)]) simp_all
  then have sub: "set sel \<subseteq> set s1" by (simp add: grows_def)
  have ih: "grows excl changes groups s1 sel' \<and>
      (set sel' = set s1 \<longrightarrow> (\<forall>x \<in> set xs. \<exists>a b. f x a = Inr b \<and> set a = set s1 \<and> set b = set s1))"
  proof (rule Cons.IH [OF s1(2)])
    fix y a b assume "y \<in> set xs" "set s1 \<subseteq> set a" "f y a = Inr b"
    then show "grows excl changes groups a b" using sub Cons.prems(2) [of y a b] by auto
  qed
  have same: "set s1 = set sel" if "set sel' = set sel"
    using that g1 ih by (auto simp: grows_def)
  have "\<exists>a b. f y a = Inr b \<and> set a = set sel \<and> set b = set sel" if "set sel' = set sel" "y \<in> set (x # xs)" for y
  proof (cases "y = x")
    case True
    then show ?thesis using s1(1) same [OF that(1)] by blast
  next
    case False
    then show ?thesis using ih same [OF that(1)] that by auto
  qed
  then show ?case using grows_trans [OF g1] ih by blast
qed (simp add: grows_refl)

definition opaque_paths :: "ChangeEntry list \<Rightarrow> path list" where
  "opaque_paths changes = map ch_path (filter (\<lambda>c. ch_kind c = Opaque) changes)"

lemma plan_round_phases:
  assumes "plan_round excl changes groups sel = Inr sel'"
  obtains s1 s2 where "try_fold (close_opaque excl changes) (opaque_paths changes) sel = Inr s1"
    "try_fold (close_group excl) groups s1 = Inr s2" "try_fold (close_ancestors excl changes) s2 s2 = Inr sel'"
  using assms by (auto simp: plan_round_def opaque_paths_def elim!: rbind_InrE)

lemma plan_round_grows:
  assumes "plan_round excl changes groups sel = Inr sel'"
  shows "grows excl changes groups sel sel'"
    and "set sel' = set sel \<Longrightarrow> plan_closed changes groups (set sel)"
    and "set sel' = set sel \<Longrightarrow> c \<in> set changes \<Longrightarrow> ch_kind c = Opaque \<Longrightarrow> q \<in> set sel \<Longrightarrow>
      at_or_below q (ch_path c) \<Longrightarrow> ch_path c \<in> set sel"
proof -
  obtain s1 s2 where p: "try_fold (close_opaque excl changes) (opaque_paths changes) sel = Inr s1"
      "try_fold (close_group excl) groups s1 = Inr s2" "try_fold (close_ancestors excl changes) s2 s2 = Inr sel'"
    using assms by (rule plan_round_phases)
  have g1: "grows excl changes groups sel s1 \<and> (set s1 = set sel \<longrightarrow>
      (\<forall>x \<in> set (opaque_paths changes). \<exists>a b. close_opaque excl changes x a = Inr b \<and> set a = set sel \<and> set b = set sel))"
    by (rule try_fold_grows [OF p(1)]) (auto simp: opaque_paths_def intro: close_opaque_grows)
  have g2: "grows excl changes groups s1 s2 \<and> (set s2 = set s1 \<longrightarrow>
      (\<forall>x \<in> set groups. \<exists>a b. close_group excl x a = Inr b \<and> set a = set s1 \<and> set b = set s1))"
    by (rule try_fold_grows [OF p(2)]) (auto intro: close_group_grows)
  have g3: "grows excl changes groups s2 sel' \<and> (set sel' = set s2 \<longrightarrow>
      (\<forall>x \<in> set s2. \<exists>a b. close_ancestors excl changes x a = Inr b \<and> set a = set s2 \<and> set b = set s2))"
    by (rule try_fold_grows [OF p(3)]) (auto intro: close_ancestors_grows)
  show "grows excl changes groups sel sel'"
    by (rule grows_trans [OF conjunct1 [OF g1] grows_trans [OF conjunct1 [OF g2] conjunct1 [OF g3]]])
  assume "set sel' = set sel"
  then have same: "set s1 = set sel" "set s2 = set s1" "set sel' = set s2"
    using g1 g2 g3 by (auto simp: grows_def)
  have opaque: "\<exists>a b. close_opaque excl changes (ch_path c) a = Inr b \<and> set a = set sel \<and> set b = set sel"
    if "c \<in> set changes" "ch_kind c = Opaque" for c
    using g1 same that by (simp add: opaque_paths_def)
  show "plan_closed changes groups (set sel)"
    unfolding plan_closed_def
  proof (intro conjI allI impI)
    fix c d assume "c \<in> set changes" "d \<in> set changes" "ch_kind c = Opaque" "ch_path c \<in> set sel"
      "at_or_below (ch_path d) (ch_path c)"
    then show "ch_path d \<in> set sel" using opaque close_opaque_settled(2) by metis
  next
    fix g p q assume "g \<in> set groups" "p \<in> set g" "q \<in> set g" "p \<in> set sel"
    then show "q \<in> set sel" using g2 same close_group_settled by metis
  next
    fix p q assume "p \<in> set sel" "strict_prefix q p" "is_directory_change changes q"
    then show "q \<in> set sel" using g3 same close_ancestors_settled by metis
  qed
  show "ch_path c \<in> set sel" if "c \<in> set changes" "ch_kind c = Opaque" "q \<in> set sel" "at_or_below q (ch_path c)"
    using opaque [OF that(1,2)] close_opaque_settled(1) that(3,4) by metis
qed

subsection \<open>The loop ends, with the least closed selection\<close>

lemma finite_plan_universe: "finite (plan_universe changes groups)"
  by (simp add: plan_universe_def)

text \<open>Every round but the last adds a path of the changes or of a group.\<close>

lemma plan_loop_result:
  assumes "distinct sel"
  shows "\<exists>r. plan_loop excl changes groups sel = Some r \<and>
    (\<forall>sel'. r = Inr sel' \<longrightarrow> grows excl changes groups sel sel' \<and> plan_closed changes groups (set sel') \<and>
      (\<forall>c p. c \<in> set changes \<longrightarrow> ch_kind c = Opaque \<longrightarrow> p \<in> set sel' \<longrightarrow> at_or_below p (ch_path c) \<longrightarrow> ch_path c \<in> set sel'))"
  using assms
proof (induction "card (plan_universe changes groups - set sel)" arbitrary: sel rule: less_induct)
  case less
  show ?case
  proof (cases "plan_round excl changes groups sel")
    case (Inl e)
    then show ?thesis by (simp add: plan_loop.simps)
  next
    case (Inr s)
    note g = plan_round_grows [OF Inr]
    have sub: "set sel \<subseteq> set s" "set s \<subseteq> set sel \<union> plan_universe changes groups" "distinct s"
      using g(1) less.prems by (simp_all add: grows_def)
    show ?thesis
    proof (cases "length s = length sel")
      case True
      then have "set s = set sel"
        using sub less.prems by (metis card_subset_eq distinct_card finite_set)
      then show ?thesis using g Inr True by (simp add: plan_loop.simps)
    next
      case False
      then have "set sel \<noteq> set s" using sub(3) less.prems by (metis distinct_card)
      then obtain x where "x \<in> set s" "x \<notin> set sel" using sub(1) by blast
      then have "plan_universe changes groups - set s \<subset> plan_universe changes groups - set sel" using sub(1,2) by blast
      then have "card (plan_universe changes groups - set s) < card (plan_universe changes groups - set sel)"
        by (intro psubset_card_mono) (simp_all add: finite_plan_universe)
      from less.hyps [OF this sub(3)] show ?thesis
        using grows_trans [OF g(1)] Inr False by (auto simp: plan_loop.simps [of excl changes groups sel])
    qed
  qed
qed

lemma distinct_initial_selection: "distinct (initial_selection cs changes)"
  by (simp add: initial_selection_def)

lemma hard_links_are_changes:
  assumes "g \<in> set (upper_hard_link_groups ino u)" "p \<in> set g"
  shows "p \<in> ch_path ` set (overlay_changes lowers u)"
proof -
  have d: "directory_at u []" using assms by (auto simp: upper_hard_link_groups_def split: if_splits)
  from assms obtain n where n: "(p, n) \<in> set (walk_upper u)" "\<not> is_whiteout_name (last p)"
    by (auto simp: upper_hard_link_groups_def Let_def split: if_splits)
  then obtain c where "c \<in> set (change_of lowers (p, n))" "ch_path c = p" by (simp add: change_of_def Let_def)
  then show ?thesis using n(1) d by (force simp: overlay_changes_def)
qed

lemma plan_universe_changes:
  "plan_universe (overlay_changes lowers u) (upper_hard_link_groups ino u) = ch_path ` set (overlay_changes lowers u)"
  using hard_links_are_changes by (auto simp: plan_universe_def)

lemma plan_overlay_apply_Inr:
  assumes "plan_overlay_apply gl ino lowers u selection = Some (Inr plan)"
  obtains cs where "compile_selection gl selection = Inr cs"
    and "plan_loop (excluded cs) (overlay_changes lowers u) (upper_hard_link_groups ino u)
      (initial_selection cs (overlay_changes lowers u)) = Some (Inr (pl_selected_paths plan))"
    and "pl_selected plan = filter (\<lambda>c. ch_path c \<in> set (pl_selected_paths plan)) (overlay_changes lowers u)"
  using assms by (auto simp: plan_overlay_apply_def Let_def split: sum.splits if_splits option.splits)

subsection \<open>A selection of everything\<close>

lemma select_all_settled: "set ps \<subseteq> set sel \<Longrightarrow> (\<forall>p. \<not> excl p) \<Longrightarrow> select_all excl ps sel = Inr sel"
  by (induction ps) (auto simp: List.insert_def)

lemma try_fold_settled: "(\<And>x. x \<in> set xs \<Longrightarrow> f x s = Inr s) \<Longrightarrow> try_fold f xs s = Inr s"
  by (induction xs) simp_all

lemma plan_loop_settled:
  assumes "\<forall>p. \<not> excl p" "set sel = plan_universe changes groups"
  shows "plan_loop excl changes groups sel = Some (Inr sel)"
proof -
  have "try_fold (close_opaque excl changes) (map ch_path (filter (\<lambda>c. ch_kind c = Opaque) changes)) sel = Inr sel"
    using assms by (intro try_fold_settled) (auto simp: close_opaque_def plan_universe_def intro!: select_all_settled)
  moreover have "try_fold (close_group excl) groups sel = Inr sel"
    using assms by (intro try_fold_settled) (auto simp: close_group_def plan_universe_def intro!: select_all_settled)
  moreover have "try_fold (close_ancestors excl changes) sel sel = Inr sel"
    using assms by (intro try_fold_settled)
      (auto simp: close_ancestors_def plan_universe_def is_directory_change_def list_ex_iff intro!: select_all_settled)
  ultimately have "plan_round excl changes groups sel = Inr sel" by (simp add: plan_round_def)
  then show ?thesis by (simp add: plan_loop.simps)
qed

subsection \<open>A small overlay\<close>

text \<open>
  A directory \<open>d\<close> that is opaque, with a file \<open>d/y\<close> that is a hard link of \<open>x\<close>, and another \<open>d/z\<close>.
\<close>

definition plan_lower :: "layer list" where
  "plan_lower = [alist_layer [([], DirNode demo_meta False), ([''d''], DirNode demo_meta False),
     ([''d'', ''old''], FileNode demo_meta ''old''), ([''x''], FileNode demo_meta ''x'')]]"

definition plan_upper :: upper where
  "plan_upper = [([], DirNode demo_meta False), ([''d''], DirNode demo_meta False),
     ([''d'', OPAQUE_NAME], FileNode demo_meta []), ([''d'', ''y''], FileNode demo_meta ''new''),
     ([''d'', ''z''], FileNode demo_meta ''z''), ([''x''], FileNode demo_meta ''new'')]"

definition plan_inodes :: inodes where
  "plan_inodes = \<lparr>in_dev_ino = (\<lambda>p. if p = [''x''] \<or> p = [''d'', ''y''] then (1, 7) else (1, of_nat (length (path_bytes p)))),
     in_nlink = (\<lambda>p. if p = [''x''] \<or> p = [''d'', ''y''] then 2 else 1)\<rparr>"

definition plan_globs :: globs where
  "plan_globs = \<lparr>gl_valid = (\<lambda>_. True), gl_match = (\<lambda>pattern p. path_bytes p = pattern)\<rparr>"

definition select_paths :: "string list \<Rightarrow> ApplySelection" where
  "select_paths ps = \<lparr>sl_paths = ps, sl_includes = [], sl_excludes = []\<rparr>"

lemma map_sum_InrE: "map_sum f g r = Inr y \<Longrightarrow> (\<And>x. r = Inr x \<Longrightarrow> g x = y \<Longrightarrow> P) \<Longrightarrow> P"
  by (cases r) simp_all

lemma plan_of_x:
  "map_option (map_sum id pl_selected_paths) (plan_overlay_apply plan_globs plan_inodes plan_lower plan_upper (select_paths [''x''])) =
    Some (Inr [[''d'', ''z''], [''d''], [''d'', ''y''], [''x'']])"
  by code_simp

subsection \<open>Properties\<close>

text \<open>C33: The loop of \<open>plan_overlay_apply\<close> ends on every overlay, whatever the patterns match and whichever
  paths share an inode: the plan, or the error, is always returned.\<close>

theorem plan_terminates: "plan_overlay_apply gl ino lowers u selection \<noteq> None"
proof (cases "compile_selection gl selection")
  case (Inr cs)
  have "plan_loop (excluded cs) (overlay_changes lowers u) (upper_hard_link_groups ino u)
      (initial_selection cs (overlay_changes lowers u)) \<noteq> None"
    using plan_loop_result [OF distinct_initial_selection] by (metis option.distinct(1))
  then show ?thesis using Inr by (auto simp: plan_overlay_apply_def Let_def split: option.split sum.split)
qed (simp add: plan_overlay_apply_def)

text \<open>C34: A plan is the least selection that contains the changes that were asked for and is closed: with
  an opaque directory it has every change at or below it, with a file every hard link to it, with a path
  every ancestor that is a changed directory. It has no excluded path, only paths of changes, and no path
  below an opaque directory without that directory; its changes are those of its paths.\<close>

theorem plan_least_closed:
  assumes "plan_overlay_apply gl ino lowers u selection = Some (Inr plan)" "compile_selection gl selection = Inr cs"
  defines "changes \<equiv> overlay_changes lowers u" and "groups \<equiv> upper_hard_link_groups ino u"
    and "S \<equiv> set (pl_selected_paths plan)"
  shows "set (initial_selection cs changes) \<subseteq> S \<and> plan_closed changes groups S \<and>
    (\<forall>T. plan_closed changes groups T \<longrightarrow> set (initial_selection cs changes) \<subseteq> T \<longrightarrow> S \<subseteq> T) \<and>
    (\<forall>p. p \<in> S \<longrightarrow> \<not> excluded cs p) \<and> S \<subseteq> ch_path ` set changes \<and>
    (\<forall>c p. c \<in> set changes \<longrightarrow> ch_kind c = Opaque \<longrightarrow> p \<in> S \<longrightarrow> at_or_below p (ch_path c) \<longrightarrow> ch_path c \<in> S) \<and>
    pl_selected plan = filter (\<lambda>c. ch_path c \<in> S) changes"
proof -
  let ?sel = "initial_selection cs changes"
  have loop: "plan_loop (excluded cs) changes groups ?sel = Some (Inr (pl_selected_paths plan))"
    and sel: "pl_selected plan = filter (\<lambda>c. ch_path c \<in> S) changes"
    using plan_overlay_apply_Inr [OF assms(1)] assms(2) unfolding changes_def groups_def S_def by auto
  have r: "grows (excluded cs) changes groups ?sel (pl_selected_paths plan)" "plan_closed changes groups S"
    "\<forall>c p. c \<in> set changes \<longrightarrow> ch_kind c = Opaque \<longrightarrow> p \<in> S \<longrightarrow> at_or_below p (ch_path c) \<longrightarrow> ch_path c \<in> S"
    using plan_loop_result [OF distinct_initial_selection, of "excluded cs" changes groups cs changes] loop
    unfolding S_def by auto
  have "?sel = remdups (filter (\<lambda>p. requested cs p \<and> \<not> excluded cs p) (map ch_path changes))"
    by (simp add: initial_selection_def)
  then have i: "\<forall>p \<in> set ?sel. \<not> excluded cs p" "set ?sel \<subseteq> ch_path ` set changes" by auto
  have g: "set ?sel \<subseteq> S" "S \<subseteq> set ?sel \<union> ch_path ` set changes" "\<forall>p. p \<in> S \<longrightarrow> p \<notin> set ?sel \<longrightarrow> \<not> excluded cs p"
    "\<forall>T. plan_closed changes groups T \<longrightarrow> set ?sel \<subseteq> T \<longrightarrow> S \<subseteq> T"
    using r(1) plan_universe_changes [of lowers u ino] unfolding grows_def S_def changes_def groups_def by simp_all
  have "\<forall>p. p \<in> S \<longrightarrow> \<not> excluded cs p" using g(3) i(1) by metis
  moreover have "S \<subseteq> ch_path ` set changes" using g(2) i(2) by blast
  ultimately show ?thesis using g(1,4) r(2,3) sel by simp
qed

theorem plan_least_closed_witness:
  "\<exists>plan cs. plan_overlay_apply plan_globs plan_inodes plan_lower plan_upper (select_paths [''x'']) = Some (Inr plan) \<and>
    compile_selection plan_globs (select_paths [''x'']) = Inr cs \<and>
    set (pl_selected_paths plan) = {[''x''], [''d'', ''y''], [''d''], [''d'', ''z'']} \<and>
    plan_closed (overlay_changes plan_lower plan_upper) (upper_hard_link_groups plan_inodes plan_upper) (set (pl_selected_paths plan))"
proof -
  obtain plan where plan: "plan_overlay_apply plan_globs plan_inodes plan_lower plan_upper (select_paths [''x'']) = Some (Inr plan)"
      "pl_selected_paths plan = [[''d'', ''z''], [''d''], [''d'', ''y''], [''x'']]"
    using plan_of_x by (auto elim: map_sum_InrE)
  obtain cs where cs: "compile_selection plan_globs (select_paths [''x'']) = Inr cs"
    using plan(1) by (rule plan_overlay_apply_Inr)
  show ?thesis using plan_least_closed [OF plan(1) cs] plan cs by (intro exI [of _ plan] exI [of _ cs]) auto
qed

text \<open>Without a filter the plan always succeeds, and it is every change of the overlay.\<close>

theorem plan_of_everything:
  assumes "is_all selection"
  shows "\<exists>paths. plan_overlay_apply gl ino lowers u selection =
      Some (Inr \<lparr>pl_selected = overlay_changes lowers u, pl_selected_paths = paths\<rparr>) \<and>
    set paths = ch_path ` set (overlay_changes lowers u)"
proof -
  let ?changes = "overlay_changes lowers u"
  obtain cs where cs: "compile_selection gl selection = Inr cs" "\<not> cs_has_positive cs" "\<forall>p. \<not> excluded cs p"
    using assms by (auto simp: is_all_def compile_selection_def compile_globs_def excluded_def list_ex_iff)
  then have i: "set (initial_selection cs ?changes) = ch_path ` set ?changes"
    by (simp add: initial_selection_def requested_def)
  then have "plan_loop (excluded cs) ?changes (upper_hard_link_groups ino u) (initial_selection cs ?changes) =
      Some (Inr (initial_selection cs ?changes))"
    using cs(3) by (intro plan_loop_settled) (simp_all add: plan_universe_changes)
  then show ?thesis using assms cs(1) i by (simp add: plan_overlay_apply_def Let_def)
qed

theorem plan_of_everything_witness:
  "is_all (select_paths []) \<and> map ch_path (overlay_changes plan_lower plan_upper) =
      [[''d''], [''d''], [''d'', ''y''], [''d'', ''z''], [''x'']] \<and>
    (\<exists>paths. plan_overlay_apply plan_globs plan_inodes plan_lower plan_upper (select_paths []) =
      Some (Inr \<lparr>pl_selected = overlay_changes plan_lower plan_upper, pl_selected_paths = paths\<rparr>))"
proof (intro conjI)
  show a: "is_all (select_paths [])" by code_simp
  show "map ch_path (overlay_changes plan_lower plan_upper) = [[''d''], [''d''], [''d'', ''y''], [''d'', ''z''], [''x'']]"
    by code_simp
  show "\<exists>paths. plan_overlay_apply plan_globs plan_inodes plan_lower plan_upper (select_paths []) =
      Some (Inr \<lparr>pl_selected = overlay_changes plan_lower plan_upper, pl_selected_paths = paths\<rparr>)"
    using plan_of_everything [OF a] by blast
qed

text \<open>A path below an opaque directory is refused when the directory was not selected, since applying it would
  delete the directory's other entries. But when the path joins the selection as a hard link of a selected
  file, the directory joins it in the same round as an ancestor, and with it everything below: selecting
  \<open>x\<close> also replaces \<open>d\<close>.\<close>

theorem hard_link_selects_opaque:
  "plan_overlay_apply plan_globs plan_inodes plan_lower plan_upper (select_paths [''d/y'']) = Some (Inl ApplyError) \<and>
   (case plan_overlay_apply plan_globs plan_inodes plan_lower plan_upper (select_paths [''x'']) of
      Some (Inr plan) \<Rightarrow> set (pl_selected_paths plan) = {[''x''], [''d'', ''y''], [''d''], [''d'', ''z'']} \<and>
        (\<exists>c \<in> set (pl_selected plan). ch_path c = [''d''] \<and> ch_kind c = Opaque)
    | _ \<Rightarrow> False)"
  by code_simp

end
