(* ===== verification/OverlayJournal.thy ===== *)
theory OverlayJournal
  imports OverlayTree
begin

section \<open>The journal of the overlay\<close>

text \<open>
  What the journal of first states promises to the code that applies an overlay to its target:
  every path that the upper directory changes has an entry, made before the change and never
  replaced, with the fingerprint of the target. These facts hold with any calls failing. The last
  part shows what failing calls and the journal itself do to a reader of the overlay.
\<close>

subsection \<open>Path bytes are one path\<close>

lemma path_bytes_Cons: "path_bytes (c # cs) = c @ (if cs = [] then [] else CHR ''/'' # path_bytes cs)"
  by (cases cs) auto

lemma path_bytes_inj:
  "validate_rel p \<Longrightarrow> validate_rel q \<Longrightarrow> path_bytes p = path_bytes q \<Longrightarrow> p = q"
proof (induction p arbitrary: q)
  case Nil
  then show ?case by (cases q) (auto simp: path_bytes_Cons validate_rel_def)
next
  case (Cons c cs)
  then obtain d ds where q: "q = d # ds" by (cases q) (auto simp: path_bytes_Cons validate_rel_def)
  let ?r = "\<lambda>cs. if cs = [] then [] else CHR ''/'' # path_bytes cs"
  have eq: "c @ ?r cs = d @ ?r ds" using Cons.prems(3) by (simp add: q path_bytes_Cons)
  have slash: "CHR ''/'' \<notin> set c" "CHR ''/'' \<notin> set d" using Cons.prems by (auto simp: validate_rel_def q)
  have take: "takeWhile (\<lambda>x. x \<noteq> CHR ''/'') (c @ ?r cs) = c" if "CHR ''/'' \<notin> set c" for c cs
    using that by (auto simp: takeWhile_append takeWhile_eq_all_conv)
  have "c = d" using arg_cong [OF eq, of "takeWhile (\<lambda>x. x \<noteq> CHR ''/'')"] take [OF slash(1)] take [OF slash(2)] by simp
  moreover have "cs = ds"
  proof -
    have "?r cs = ?r ds" using eq \<open>c = d\<close> by simp
    then have "cs = [] \<longleftrightarrow> ds = []" "path_bytes cs = path_bytes ds" by (auto split: if_splits)
    then show ?thesis using Cons.IH [of ds] Cons.prems by (auto simp: validate_rel_def q)
  qed
  ultimately show ?case using q by simp
qed

subsection \<open>What only the journal says\<close>

locale journal_invariant =
  fixes core :: OverlayCore and P :: "overlay \<Rightarrow> bool"
  assumes upper_irrelevant: "P (st\<lparr>ov_upper := u, ov_calls := n\<rparr>) = P st" "P (st\<lparr>ov_calls := n\<rparr>) = P st"
    and recording: "io_keeps P (record_preimage core rel)"
begin

lemma os_call_keeps: "io_keeps P (os_call core f)"
  using upper_irrelevant by (auto simp: io_keeps_def os_call_def split: sum.splits)

lemma visible_keeps: "io_keeps P (require_visible core rel)"
  by (simp add: require_visible_def)

lemmas basic = os_call_keeps visible_keeps recording

lemma ensure_parents_keeps: "io_keeps P (ensure_parents core current cs)"
proof (induction cs arbitrary: current)
  case (Cons c cs)
  have "io_keeps P (copy_parent core q n)" for q n
    unfolding copy_parent_def by (intro io_keeps_bind basic)
  then show ?case using Cons.IH
    by (auto intro!: io_keeps_read io_keeps_bind split: option.split prod.split)
qed simp

lemma ensure_upper_parents_keeps: "io_keeps P (ensure_upper_parents core rel)"
  unfolding ensure_upper_parents_def by (intro io_keeps_bind basic ensure_parents_keeps)

lemma create_whiteout_keeps: "io_keeps P (create_whiteout core rel)"
  unfolding create_whiteout_def using ensure_upper_parents_keeps os_call_keeps
  by (auto intro!: io_keeps_bind io_keeps_read)

lemma make_room_keeps: "io_keeps P (make_room core rel)"
  unfolding make_room_def clear_whiteout_def using ensure_upper_parents_keeps basic
  by (auto intro!: io_keeps_bind io_keeps_try split: sum.split errno.split)

lemma mark_opaque_keeps: "io_keeps P (mark_opaque core rel)"
  unfolding mark_opaque_def using os_call_keeps by (auto intro!: io_keeps_bind io_keeps_read)

lemma create_entry_keeps: "io_keeps P (create_entry core rel n)"
  unfolding create_entry_def using make_room_keeps basic by (auto intro!: io_keeps_bind io_keeps_read)

lemma create_dir_keeps: "io_keeps P (create_dir core rel mode)"
  unfolding create_dir_def using make_room_keeps mark_opaque_keeps basic by (auto intro!: io_keeps_bind io_keeps_read)

lemma record_tree_keeps: "io_keeps P (record_tree core depth source destination)"
proof (induction depth arbitrary: source destination)
  case (Suc depth)
  then show ?case using recording
    by (auto intro!: io_keeps_bind io_keeps_read io_keeps_fold split: option.split sum.split prod.split)
qed simp

lemma remove_keeps: "io_keeps P (remove core rel directory)"
  unfolding remove_def remove_resolved_def using record_tree_keeps create_whiteout_keeps basic
  by (auto intro!: io_keeps_bind io_keeps_read split: option.split sum.split prod.split simp del: record_tree.simps One_nat_def)

lemma copy_up_keeps: "io_keeps P (copy_up core rel)"
  unfolding copy_up_def using ensure_upper_parents_keeps basic
  by (auto intro!: io_keeps_bind io_keeps_read split: option.split prod.split)

lemma exec_keeps: "io_keeps P (overlay_exec core x)"
  using create_entry_keeps create_dir_keeps remove_keeps copy_up_keeps
  by (cases x) (simp_all add: create_file_def create_symlink_def create_node_def)

lemma run_keeps: "P st \<Longrightarrow> P (snd (run_ops (overlay_exec core) xs st))"
proof (induction xs arbitrary: st)
  case (Cons x xs)
  then show ?case using exec_keeps [of x] by (simp add: io_keeps_def split_beta)
qed simp

end

definition journal_sound :: "OverlayCore \<Rightarrow> overlay \<Rightarrow> bool" where
  "journal_sound core st \<longleftrightarrow> list_all (\<lambda>(key, rel, state). key = journal_key core rel \<and> validate_rel rel \<and>
    fingerprint_at core (last (oc_lowers core)) rel = Inr state) (ov_journal st)"

lemma record_preimage_cases:
  "(\<exists>e n. record_preimage core rel st = (Inl e, st\<lparr>ov_calls := n\<rparr>)) \<or>
   record_preimage core rel st = (Inr (), st) \<and> (oc_journaling core \<longrightarrow> map_of (ov_journal st) (journal_key core rel) \<noteq> None) \<or>
   (\<exists>state n. record_preimage core rel st = (Inr (), st\<lparr>ov_calls := n, ov_journal := (journal_key core rel, rel, state) # ov_journal st\<rparr>) \<and>
     validate_rel rel \<and> map_of (ov_journal st) (journal_key core rel) = None \<and>
     fingerprint_at core (last (oc_lowers core)) rel = Inr state)"
proof -
  consider "\<not> oc_journaling core" | "oc_journaling core" "\<not> validate_rel rel \<or> map_of (ov_journal st) (journal_key core rel) \<noteq> None \<or> oc_lowers core = []"
    | e where "oc_journaling core" "validate_rel rel" "map_of (ov_journal st) (journal_key core rel) = None" "oc_lowers core \<noteq> []"
        "fingerprint_at core (last (oc_lowers core)) rel = Inl e"
    | state where "oc_journaling core" "validate_rel rel" "map_of (ov_journal st) (journal_key core rel) = None" "oc_lowers core \<noteq> []"
        "fingerprint_at core (last (oc_lowers core)) rel = Inr state"
    by (cases "fingerprint_at core (last (oc_lowers core)) rel") blast+
  then show ?thesis
  proof cases
    case 1
    then show ?thesis by (simp add: record_preimage_def io_return_def)
  next
    case 2
    then have "record_preimage core rel st = (Inl EINVAL, st) \<or>
        record_preimage core rel st = (Inr (), st) \<and> map_of (ov_journal st) (journal_key core rel) \<noteq> None"
      by (auto simp: record_preimage_def io_read_def io_return_def io_fail_def)
    moreover have "st = st\<lparr>ov_calls := ov_calls st\<rparr>" by simp
    ultimately show ?thesis by metis
  next
    case (3 e)
    then have "record_preimage core rel st = (Inl e, st\<lparr>ov_calls := ov_calls st\<rparr>)"
      by (simp add: record_preimage_def io_read_def io_fail_def)
    then show ?thesis by blast
  next
    case (4 state)
    then show ?thesis
      by (auto simp: record_preimage_def io_read_def io_bind_def os_call_def io_update_def)
  qed
qed

interpretation sound_journal: journal_invariant core "journal_sound core" for core
proof unfold_locales
  show "io_keeps (journal_sound core) (record_preimage core rel)" for rel
    unfolding io_keeps_def
  proof (intro allI impI)
    fix st assume "journal_sound core st"
    then show "journal_sound core (snd (record_preimage core rel st))"
      using record_preimage_cases [of core rel st] by (auto simp: journal_sound_def)
  qed
qed (simp_all add: journal_sound_def)

interpretation first_touch: journal_invariant core "\<lambda>st :: overlay. map_of (ov_journal st) key = Some entry" for core key entry
proof unfold_locales
  show "io_keeps (\<lambda>st :: overlay. map_of (ov_journal st) key = Some entry) (record_preimage core rel)" for rel
    unfolding io_keeps_def
  proof (intro allI impI)
    fix st :: overlay
    assume "map_of (ov_journal st) key = Some entry"
    then show "map_of (ov_journal (snd (record_preimage core rel st))) key = Some entry"
      using record_preimage_cases [of core rel st] by auto
  qed
qed simp_all


subsection \<open>Every change is journaled\<close>

text \<open>The path that an entry of the upper directory is about: a whiteout is about the name it hides.\<close>

definition subject :: "path \<Rightarrow> path option" where
  "subject q =
    (if q = [] then None
     else if list_all validate_name q then Some q
     else case strip_prefix (last q) WHITEOUT_PREFIX of
       None \<Rightarrow> None
     | Some name \<Rightarrow> if list_all validate_name (butlast q @ [name]) then Some (butlast q @ [name]) else None)"

definition recorded :: "OverlayCore \<Rightarrow> overlay \<Rightarrow> path \<Rightarrow> bool" where
  "recorded core st rel \<longleftrightarrow> map_of (ov_journal st) (journal_key core rel) \<noteq> None"

definition covered :: "OverlayCore \<Rightarrow> path set \<Rightarrow> overlay \<Rightarrow> bool" where
  "covered core A st \<longleftrightarrow> (\<forall>q s. map_of (ov_upper st) q \<noteq> None \<longrightarrow> subject q = Some s \<longrightarrow> recorded core st s) \<and>
    (\<forall>s\<in>A. recorded core st s)"

lemma subject_names: "list_all validate_name q \<Longrightarrow> q \<noteq> [] \<Longrightarrow> subject q = Some q"
  by (simp add: subject_def)

lemma subject_whiteout: "list_all validate_name (p @ [c]) \<Longrightarrow> subject (whiteout_path p c) = Some (p @ [c])"
  by (simp add: subject_def whiteout_path_def strip_prefix_def starts_with_def)

lemma subject_opaque: "subject (p @ [OPAQUE_NAME]) = None"
  by (simp add: subject_def strip_prefix_def starts_with_def WHITEOUT_PREFIX_def OPAQUE_NAME_def validate_name_def is_whiteout_name_def)

lemma covered_mono: "covered core A st \<Longrightarrow> B \<subseteq> A \<Longrightarrow> covered core B st"
  by (auto simp: covered_def)

lemma covered_record:
  assumes "oc_journaling core"
  shows "io_triple (covered core A) (record_preimage core rel) (\<lambda>_. covered core (insert rel A)) (covered core {})"
  unfolding io_triple_def
proof (intro allI impI)
  fix st
  assume "covered core A st"
  then show "case record_preimage core rel st of (Inl _, st') \<Rightarrow> covered core {} st' | (Inr x, st') \<Rightarrow> covered core (insert rel A) st'"
    using record_preimage_cases [of core rel st] assms by (fastforce simp: covered_def recorded_def)
qed

lemma covered_call:
  assumes "\<And>u u' q s. f u = Inr u' \<Longrightarrow> map_of u' q \<noteq> None \<Longrightarrow> map_of u q = None \<Longrightarrow> subject q = Some s \<Longrightarrow> s \<in> A"
  shows "io_keeps (covered core A) (os_call core f)"
  unfolding io_keeps_def
proof (intro allI impI)
  fix st
  assume J: "covered core A st"
  obtain r st' where run: "os_call core f st = (r, st')" by fastforce
  show "covered core A (snd (os_call core f st))"
  proof (cases r)
    case (Inl e)
    then show ?thesis using run J os_call_Inl [of core f st e st'] by (auto simp: covered_def recorded_def)
  next
    case (Inr x)
    then obtain u where u: "f (ov_upper st) = Inr u" "st' = st\<lparr>ov_upper := u, ov_calls := ov_calls st + 1\<rparr>"
      using run by (auto simp: os_call_Inr)
    have "recorded core st' s" if "map_of u q \<noteq> None" "subject q = Some s" for q s
    proof (cases "map_of (ov_upper st) q")
      case None
      then show ?thesis using assms [OF u(1) that(1) None that(2)] J by (auto simp: covered_def recorded_def u(2))
    next
      case (Some n)
      then show ?thesis using J that(2) by (auto simp: covered_def recorded_def u(2))
    qed
    then show ?thesis using run Inr J by (auto simp: covered_def recorded_def u(2))
  qed
qed

text \<open>Triples over the paths known to be recorded; a failure still leaves a covered upper directory.\<close>

abbreviation covers :: "OverlayCore \<Rightarrow> path set \<Rightarrow> 'a overlay_io \<Rightarrow> path set \<Rightarrow> bool" where
  "covers core A m B \<equiv> io_triple (covered core A) m (\<lambda>_. covered core B) (covered core {})"

lemma covers_keeps: "io_keeps (covered core A) m \<Longrightarrow> covers core A m A"
  by (rule io_triple_keeps) (auto intro: covered_mono)

lemma covers_weaken: "covers core A m B \<Longrightarrow> B' \<subseteq> B \<Longrightarrow> covers core A m B'"
  by (erule io_triple_weaken) (auto intro: covered_mono)

lemma covers_basic [simp]: "covers core A (io_fail e) B" "covers core A (io_return x) A"
  by (auto simp: io_triple_def io_fail_def io_return_def intro: covered_mono)

lemma covered_create: "subject q = None \<or> subject q = Some s \<and> s \<in> A \<Longrightarrow> io_keeps (covered core A) (os_call core (u_create q n))"
  by (rule covered_call) (auto simp: u_create_Inr split: if_splits)

lemma covered_no_new:
  "io_keeps (covered core A) (os_call core (u_put q n))" "io_keeps (covered core A) (os_call core (u_unlink q))"
  "io_keeps (covered core A) (os_call core (u_remove_tree q))" "io_keeps (covered core A) (os_call core (u_set_opaque q))"
  by (rule covered_call; auto simp: u_put_Inr u_unlink_Inr u_set_opaque_Inr u_remove_tree_def update_conv' delete_conv'
      map_of_remove_tree split: if_splits)+

lemma covers_visible: "covers core A (require_visible core rel) A"
  by (rule covers_keeps) (simp add: require_visible_def)

lemma copy_parent_covers:
  assumes "oc_journaling core" "list_all validate_name q" "q \<noteq> []"
  shows "covers core A (copy_parent core q n) A"
proof -
  have "covers core (insert q A) (os_call core (u_create q (DirNode (oc_new_meta core (or S_IFDIR 0x1FF)) False))) (insert q A)"
    using assms(2,3) by (intro covers_keeps covered_create) (auto simp: subject_names)
  then show ?thesis
    unfolding copy_parent_def
    by (rule io_triple_bind [OF covered_record [OF assms(1)] io_triple_bind])
      (auto intro: covers_weaken [OF covers_keeps [OF covered_no_new(1)]])
qed

lemma ensure_parents_covers:
  assumes "oc_journaling core"
  shows "list_all validate_name (current @ cs) \<Longrightarrow> covers core A (ensure_parents core current cs) A"
proof (induction cs arbitrary: current)
  case (Cons c cs)
  have "covers core A (copy_parent core (current @ [c]) n) A" for n
    using Cons.prems copy_parent_covers [OF assms] by simp
  then have "covers core A (io_bind (copy_parent core (current @ [c]) n) (\<lambda>_. ensure_parents core (current @ [c]) cs)) A" for n
    using Cons by (intro io_triple_bind) auto
  then show ?case using Cons
    by (auto intro!: io_triple_read split: option.split prod.split)
qed simp

lemma ensure_upper_parents_covers:
  assumes "oc_journaling core" "list_all validate_name rel"
  shows "covers core A (ensure_upper_parents core rel) A"
proof -
  have "list_all validate_name ([] @ butlast rel)" using assms(2) by (auto simp: list_all_iff dest: in_set_butlastD)
  then show ?thesis unfolding ensure_upper_parents_def
    by (intro io_triple_bind [OF covers_visible] ensure_parents_covers [OF assms(1)])
qed

lemma clear_whiteout_covers: "covers core A (clear_whiteout core rel) A"
  unfolding clear_whiteout_def
  by (rule io_triple_bind [OF covers_visible] covers_keeps)+
    (auto intro!: io_keeps_try covered_no_new split: sum.split errno.split)

lemma make_room_covers:
  assumes "oc_journaling core" "list_all validate_name rel"
  shows "covers core A (make_room core rel) (insert rel A)"
  unfolding make_room_def
  by (intro io_triple_bind [OF covered_record [OF assms(1)]] io_triple_bind [OF ensure_upper_parents_covers [OF assms]] clear_whiteout_covers)

lemma create_whiteout_covers:
  assumes "oc_journaling core" "list_all validate_name (p @ [c])" "p @ [c] \<in> A"
  shows "covers core A (create_whiteout core (p @ [c])) A"
proof -
  have "io_keeps (covered core A) (os_call core (u_create (whiteout_path p c) n))" for n
    using assms(2,3) by (intro covered_create) (auto simp: subject_whiteout)
  then have "covers core A (io_read (\<lambda>st.
      if map_of (ov_upper st) (whiteout_path p c) \<noteq> None then io_return () else os_call core (u_create (whiteout_path p c) n))) A" for n
    by (intro covers_keeps io_keeps_read) auto
  then show ?thesis unfolding create_whiteout_def butlast_snoc last_snoc
    by (intro io_triple_bind [OF ensure_upper_parents_covers [OF assms(1,2)]]) simp
qed

lemma mark_opaque_covers: "covers core A (mark_opaque core rel) A"
  unfolding mark_opaque_def
  by (intro covers_keeps io_keeps_bind) (auto intro!: io_keeps_read covered_create covered_no_new simp: subject_opaque)

lemma create_entry_covers:
  assumes "oc_journaling core" "list_all validate_name rel" "rel \<noteq> []"
  shows "covers core {} (create_entry core rel n) {}"
proof -
  have "covers core {rel} (os_call core (u_create rel n)) {}"
    using assms(2,3) by (intro covers_weaken [OF covers_keeps [OF covered_create]]) (auto simp: subject_names)
  then have "covers core {} (io_bind (make_room core rel) (\<lambda>_. os_call core (u_create rel n))) {}"
    by (intro io_triple_bind [OF make_room_covers [OF assms(1,2)]]) simp
  then show ?thesis unfolding create_entry_def
    by (intro io_triple_bind [OF covers_visible] io_triple_read) auto
qed

lemma create_dir_covers:
  assumes "oc_journaling core" "list_all validate_name rel" "rel \<noteq> []"
  shows "covers core {} (create_dir core rel mode) {}"
proof -
  have make: "covers core {rel} (os_call core (u_create rel n)) {}" for n
    using assms(2,3) by (intro covers_weaken [OF covers_keeps [OF covered_create]]) (auto simp: subject_names)
  have fin: "covers core {} (if exists_in_lower core rel then mark_opaque core rel else io_return ()) {}"
    using mark_opaque_covers by simp
  have "covers core {} (io_bind (make_room core rel) (\<lambda>_. io_bind (os_call core (u_create rel n)) (\<lambda>_.
      io_bind (os_call core (u_put rel n')) (\<lambda>_. if exists_in_lower core rel then mark_opaque core rel else io_return ())))) {}" for n n'
    by (intro io_triple_bind [OF make_room_covers [OF assms(1,2)]] io_triple_bind [OF make]
        io_triple_bind [OF covers_keeps [OF covered_no_new(1)] fin]) 
  then show ?thesis unfolding create_dir_def
    by (intro io_triple_bind [OF covers_visible] io_triple_read) auto
qed

lemma record_tree_covers:
  assumes "oc_journaling core"
  shows "covers core A (record_tree core (Suc depth) source destination) (insert destination A)"
proof -
  have keeps: "covers core A (record_tree core depth source destination) A" for A depth source destination
  proof (induction depth arbitrary: A source destination)
    case (Suc depth)
    have "covers core (insert destination A) (io_fold (\<lambda>name _. record_tree core depth (source @ [name]) (destination @ [name])) names ())
        (insert destination A)" for names
      using Suc.IH by (intro io_triple_fold)
    then show ?case
      by (auto intro!: io_triple_bind [OF covered_record [OF assms]] io_triple_read covers_weaken [where B = "insert destination A" and B' = A]
          split: option.split sum.split prod.split)
  qed simp
  have "covers core (insert destination A) (io_fold (\<lambda>name _. record_tree core depth (source @ [name]) (destination @ [name])) names ())
      (insert destination A)" for names
    using keeps by (intro io_triple_fold)
  then show ?thesis
    by (auto intro!: io_triple_bind [OF covered_record [OF assms]] io_triple_read split: option.split sum.split prod.split)
qed

lemma remove_covers:
  assumes "oc_journaling core" "list_all validate_name rel" "rel \<noteq> []"
  shows "covers core {} (remove core rel directory) {}"
proof -
  obtain p c where pc: "rel = p @ [c]" using assms(3) by (metis append_butlast_last_id)
  have tree: "covers core {} (record_tree core 1 rel rel) {rel}" using record_tree_covers [OF assms(1), of "{}" 0] by simp
  have del: "covers core {rel} (if \<not> b then io_return () else os_call core (if directory then u_remove_tree rel else u_unlink rel)) {rel}" for b
    by (rule covers_keeps) (auto intro: covered_no_new)
  have fin: "covers core {rel} (if exists_in_lower core rel then create_whiteout core rel else io_return ()) {}"
    using create_whiteout_covers [OF assms(1), of p c "{rel}"] assms(2) pc covers_basic(2) [of core "{rel}" "()"]
    by (auto intro: covers_weaken)
  have "covers core {} (remove_resolved core rel directory b) {}" for b
    unfolding remove_resolved_def by (intro io_triple_bind [OF tree] io_triple_bind [OF del fin])
  then show ?thesis unfolding remove_def
    by (intro io_triple_bind [OF covers_visible] io_triple_read) (auto split: option.split sum.split prod.split)
qed

lemma copy_up_covers:
  assumes "oc_journaling core" "list_all validate_name rel" "rel \<noteq> []"
  shows "covers core {} (copy_up core rel) {}"
proof -
  have "covers core {rel} (io_bind (ensure_upper_parents core rel) (\<lambda>_. os_call core (u_create rel n))) {}" for n
    using assms(2,3)
    by (intro io_triple_bind [OF ensure_upper_parents_covers [OF assms(1,2)]] covers_weaken [OF covers_keeps [OF covered_create]])
      (auto simp: subject_names)
  moreover have "covers core {rel} (io_return ()) {}" by (rule covers_weaken [OF covers_basic(2)]) simp
  ultimately show ?thesis unfolding copy_up_def
    by (intro io_triple_bind [OF covers_visible] io_triple_bind [OF covered_record [OF assms(1)]] io_triple_read)
      (auto split: option.split prod.split)
qed

lemma overlay_exec_covers:
  assumes "oc_journaling core" "op_ok x"
  shows "covers core {} (overlay_exec core x) {}"
  using assms create_entry_covers [OF assms(1)] create_dir_covers [OF assms(1)] remove_covers [OF assms(1)] copy_up_covers [OF assms(1)]
  by (cases x) (auto simp: op_ok_def create_file_def create_symlink_def create_node_def)

lemma run_covered:
  assumes "oc_journaling core"
  shows "list_all op_ok xs \<Longrightarrow> covered core {} st \<Longrightarrow> covered core {} (snd (run_ops (overlay_exec core) xs st))"
proof (induction xs arbitrary: st)
  case (Cons x xs)
  then have "covered core {} (snd (overlay_exec core x st))" using overlay_exec_covers [OF assms] io_triple_run by fastforce
  then show ?case using Cons by (simp add: split_beta)
qed simp

lemma overlay_new_covered:
  "overlay_new core = Inr st \<Longrightarrow> covered core {} st \<and> journal_sound core st \<and> upper_ok (ov_upper st)"
  by (auto simp: overlay_new_def rbind_def covered_def journal_sound_def subject_def upper_ok_def directory_at_def
      split: if_splits option.splits sum.splits)

lemma subject_valid: "subject q = Some s \<Longrightarrow> validate_rel s"
  by (auto simp: subject_def intro: names_validate_rel split: if_splits option.splits)

lemma journal_sound_entry:
  assumes "journal_sound core st" "map_of (ov_journal st) (journal_key core s) = Some (rel, state)" "inj (oc_digest core)" "validate_rel s"
  shows "rel = s \<and> fingerprint_at core (last (oc_lowers core)) s = Inr state"
proof -
  have "journal_key core s = journal_key core rel \<and> validate_rel rel \<and> fingerprint_at core (last (oc_lowers core)) rel = Inr state"
    using assms(1) map_of_SomeD [OF assms(2)] by (auto simp: journal_sound_def list_all_iff)
  then show ?thesis using path_bytes_inj [OF assms(4)] injD [OF assms(3)] by (auto simp: journal_key_def)
qed


definition journal_core :: OverlayCore where
  "journal_core = demo_core\<lparr>oc_journaling := True, oc_fault := (\<lambda>i. i = 6)\<rparr>"

definition journal_start :: overlay where
  "journal_start = projr (overlay_new journal_core)"

definition journal_ops :: "overlay_op list" where
  "journal_ops = [CreateFile [''etc'', ''new''] 0x1A4, Remove [''motd''] False, Remove [''etc'', ''hosts''] False]"


text \<open>An entry, once made, is never replaced.\<close>

lemma journal_first_touch:
  "map_of (ov_journal st) key = Some entry \<Longrightarrow>
    map_of (ov_journal (snd (run_ops (overlay_exec core) ops st))) key = Some entry"
  by (rule first_touch.run_keeps)

subsection \<open>Failing calls\<close>

definition failing :: "nat \<Rightarrow> OverlayCore" where
  "failing i = demo_core\<lparr>oc_fault := (\<lambda>n. n = i)\<rparr>"

text \<open>
  A failed removal or creation can bring back a lower entry that was removed or replaced.
  When the whiteout of a removed file cannot be created, the upper file is already gone and
  readers see the old lower file; when a new file cannot be created over a removed one, its
  whiteout is already gone and the removed file is visible again.
\<close>

theorem failed_call_resurrects_lower:
  "(case run_ops (overlay_exec (failing 4)) [Remove [''motd''] False, CreateFile [''motd''] 0x1A4, Remove [''motd''] False] demo_overlay of
      (rs, st) \<Rightarrow> rs = [Inr (), Inr (), Inl EIO] \<and> view (failing 4) (ov_upper st) [''motd''] = Some (FileContent ''hello'')) \<and>
   (case run_ops (overlay_exec (failing 2)) [Remove [''motd''] False, CreateFile [''motd''] 0x1A4] demo_overlay of
      (rs, st) \<Rightarrow> rs = [Inr (), Inl EIO] \<and> view (failing 2) (ov_upper st) [''motd''] = Some (FileContent ''hello''))"
  by code_simp

text \<open>
  With a journal, a directory that replaces a file of the target is unusable: the file can be
  removed and the directory created, but creating anything in it fails with \<open>ENOTDIR\<close>, because the
  fingerprint of the new path asks the target, where the parent is still a file. Without a
  journal the same operations succeed.
\<close>

theorem journal_blocks_replaced_directory:
  "fst (run_ops (overlay_exec (demo_core\<lparr>oc_journaling := True\<rparr>))
      [Remove [''motd''] False, CreateDir [''motd''] 0x1ED, CreateFile [''motd'', ''today''] 0x1A4] demo_overlay) =
     [Inr (), Inr (), Inl ENOTDIR] \<and>
   fst (run_ops (overlay_exec demo_core)
      [Remove [''motd''] False, CreateDir [''motd''] 0x1ED, CreateFile [''motd'', ''today''] 0x1A4] demo_overlay) =
     [Inr (), Inr (), Inr ()]"
  by code_simp

end
