(* ===== verification/OverlayApply.thy ===== *)
theory OverlayApply
  imports OverlayPlan OverlayJournal
begin

section \<open>Applying an overlay to its target\<close>

text \<open>
  The second half of \<open>persisting-pvisor/src/runtime/overlay.rs\<close>: the changes of a plan are checked
  against the first states of the journal, written to the target, removed from the upper directory, and
  the ledger says how far this came. The target is a store of entries as the upper directory is; a path
  is a list of names, so \<open>join\<close> appends. Every call that changes a file system or syncs it may fail, by
  number; the removal of a tree is one call. The target lock is held throughout, so no other apply runs
  in between. The times of creation of ledger entries are left out, as are the times that the kernel
  gives a directory when an entry of it comes or goes. Two names of one target file are two equal entries.
\<close>

subsection \<open>The stage\<close>

datatype OverlayState = Active | Staged | Applied | Discarded

datatype OverlayUpper = DirectoryUpper | JujutsuUpper

record OverlayRecord =
  or_id :: string
  or_generation :: u64
  or_target :: string
  or_upper :: OverlayUpper
  or_protect_target :: bool
  or_state :: OverlayState

datatype ApplyRecordState = Prepared | TargetApplied | Committed

type_synonym preimage = "path \<times> PathFingerprint"

record ApplyRecord =
  ar_apply_id :: string
  ar_overlay_id :: string
  ar_overlay_generation :: u64
  ar_target :: string
  ar_selection :: ApplySelection
  ar_changes :: "ChangeEntry list"
  ar_planned_paths :: "path list"
  ar_preimages :: "preimage list"
  ar_state :: ApplyRecordState
  ar_remaining_changes :: nat

record ApplyOutcome =
  ao_apply_id :: string
  ao_applied :: "ChangeEntry list"
  ao_remaining :: "ChangeEntry list"

text \<open>The record in memory, its file, the two trees, the journal and the ledger.\<close>

record stage =
  sg_record :: OverlayRecord
  sg_meta :: OverlayRecord
  sg_target :: upper
  sg_upper :: upper
  sg_journal :: "(string \<times> path \<times> PathFingerprint) list"
  sg_complete :: bool
  sg_ledger :: "ApplyRecord list"
  sg_calls :: nat

type_synonym 'a stage_io = "(stage, overlay_error, 'a) io"

text \<open>The environment: digests, permissions and failing calls as for the overlay, the \<open>globset\<close> crate,
  inode numbers, the digest of an absolute path below the target, fresh identifiers.\<close>

record apply_env =
  ae_core :: OverlayCore
  ae_globs :: globs
  ae_inodes :: inodes
  ae_path_digest :: "path \<Rightarrow> string"
  ae_uuid :: "nat \<Rightarrow> string"

subsection \<open>Calls on the file system\<close>

datatype root = TargetRoot | UpperRoot

fun tree_at :: "root \<Rightarrow> stage \<Rightarrow> upper" where
  "tree_at TargetRoot st = sg_target st"
| "tree_at UpperRoot st = sg_upper st"

fun set_tree :: "root \<Rightarrow> upper \<Rightarrow> stage \<Rightarrow> stage" where
  "set_tree TargetRoot t st = st\<lparr>sg_target := t\<rparr>"
| "set_tree UpperRoot t st = st\<lparr>sg_upper := t\<rparr>"

definition sys :: "apply_env \<Rightarrow> root \<Rightarrow> (upper \<Rightarrow> errno + upper) \<Rightarrow> unit stage_io" where
  "sys env r f st =
    (let st1 = st\<lparr>sg_calls := sg_calls st + 1\<rparr> in
     if oc_fault (ae_core env) (sg_calls st) then (Inl (OverlayIo EIO), st1)
     else case f (tree_at r st) of
       Inl e \<Rightarrow> (Inl (OverlayIo e), st1)
     | Inr t \<Rightarrow> (Inr (), set_tree r t st1))"

text \<open>A call that writes a file of the stage or syncs.\<close>

definition io_step :: "apply_env \<Rightarrow> overlay_error \<Rightarrow> unit stage_io" where
  "io_step env e st =
    (if oc_fault (ae_core env) (sg_calls st) then Inl e else Inr (), st\<lparr>sg_calls := sg_calls st + 1\<rparr>)"

definition new_directory :: "apply_env \<Rightarrow> node" where
  "new_directory env = DirNode (oc_new_meta (ae_core env) (or S_IFDIR 0x1FF)) False"

definition remove_path :: "apply_env \<Rightarrow> root \<Rightarrow> path \<Rightarrow> unit stage_io" where
  "remove_path env r p =
    io_read (\<lambda>st. case map_of (tree_at r st) p of
      Some n \<Rightarrow> sys env r (if is_dir n then u_remove_tree p else u_unlink p)
    | None \<Rightarrow> if u_missing (tree_at r st) p = ENOENT then io_return () else io_fail (OverlayIo (u_missing (tree_at r st) p)))"

text \<open>The target directory itself is created in a directory outside the model.\<close>

definition make_directory :: "apply_env \<Rightarrow> path \<Rightarrow> upper \<Rightarrow> errno + upper" where
  "make_directory env p t =
    (if p = [] then if map_of t [] = None then Inr (([], new_directory env) # t) else Inl EEXIST
     else u_create p (new_directory env) t)"

text \<open>\<open>fs::create_dir_all\<close>.\<close>

definition create_dir_all :: "apply_env \<Rightarrow> path \<Rightarrow> unit stage_io" where
  "create_dir_all env p =
    io_fold (\<lambda>q _. io_read (\<lambda>st.
      if map_of (sg_target st) q \<noteq> None then io_return () else sys env TargetRoot (make_directory env q))) (prefixes p) ()"

definition ensure_directory :: "apply_env \<Rightarrow> path \<Rightarrow> unit stage_io" where
  "ensure_directory env p =
    io_read (\<lambda>st. case map_of (sg_target st) p of
      Some n \<Rightarrow>
        if is_dir n then io_return ()
        else io_bind (remove_path env TargetRoot p) (\<lambda>_. sys env TargetRoot (make_directory env p))
    | None \<Rightarrow>
        if u_missing (sg_target st) p = ENOENT then create_dir_all env p
        else io_fail (OverlayIo (u_missing (sg_target st) p)))"

subsection \<open>Metadata and copies\<close>

fun set_meta :: "Metadata \<Rightarrow> node \<Rightarrow> node" where
  "set_meta m (FileNode _ content) = FileNode m content"
| "set_meta m (DirNode _ _) = DirNode m False"
| "set_meta m (LinkNode _ target) = LinkNode m target"
| "set_meta m (OtherNode _ rdev) = OtherNode m rdev"

definition host_metadata :: "apply_env \<Rightarrow> bool \<Rightarrow> Metadata \<Rightarrow> Metadata \<Rightarrow> Metadata" where
  "host_metadata env nofollow source destination =
    \<lparr>md_mode = (if nofollow then md_mode destination
        else or (and (md_mode destination) 0xF000) (and (md_mode source) 0xFFF)),
     md_uid = (if oc_chown (ae_core env) then md_uid source else md_uid destination),
     md_gid = (if oc_chown (ae_core env) then md_gid source else md_gid destination),
     md_mtime = (if oc_utimes (ae_core env) then md_mtime source else md_mtime destination)\<rparr>"

text \<open>The owner is kept where the kernel permits it; only for a symbolic link may the times be refused.
  The attributes that mark a directory as opaque are removed, not copied.\<close>

definition copy_host_metadata :: "apply_env \<Rightarrow> node \<Rightarrow> path \<Rightarrow> unit stage_io" where
  "copy_host_metadata env source p =
    sys env TargetRoot (\<lambda>t. case map_of t p of
      None \<Rightarrow> Inl (u_missing t p)
    | Some n \<Rightarrow>
        if metadata_type source \<noteq> TypeSymlink \<and> \<not> oc_utimes (ae_core env) then Inl EIO
        else Inr (AList.update p
          (set_meta (host_metadata env (metadata_type source = TypeSymlink) (node_meta source) (node_meta n)) n) t))"

definition apply_temporary_name :: "apply_env \<Rightarrow> path \<Rightarrow> path" where
  "apply_temporary_name env p = butlast p @ [''.pvisor-apply-'' @ ae_path_digest env p]"

type_synonym links = "((u64 \<times> u64) \<times> path) list"

definition is_linked :: "apply_env \<Rightarrow> path \<Rightarrow> node \<Rightarrow> bool" where
  "is_linked env p n \<longleftrightarrow> metadata_type n = TypeFile \<and> 1 < in_nlink (ae_inodes env) p"

text \<open>The new entry under the temporary name.\<close>

definition make_copy :: "apply_env \<Rightarrow> links \<Rightarrow> path \<Rightarrow> node \<Rightarrow> upper \<Rightarrow> errno + upper" where
  "make_copy env links p n t =
    (case (if is_linked env p n then map_of links (in_dev_ino (ae_inodes env) p) else None) of
       Some existing \<Rightarrow>
         (case map_of t existing of
            None \<Rightarrow> Inl (u_missing t existing)
          | Some e \<Rightarrow> if is_dir e then Inl EIO else u_create (apply_temporary_name env p) e t)
     | None \<Rightarrow>
         u_create (apply_temporary_name env p) (case n of
             FileNode m content \<Rightarrow> FileNode (oc_new_meta (ae_core env) (or S_IFREG (and (md_mode m) 0xFFF))) content
           | LinkNode m target \<Rightarrow> LinkNode (oc_new_meta (ae_core env) (or S_IFLNK 0x1FF)) target
           | OtherNode m rdev \<Rightarrow> OtherNode (oc_new_meta (ae_core env) (md_mode m)) rdev
           | DirNode m opaque \<Rightarrow> DirNode m opaque) t)"

definition rename_entry :: "path \<Rightarrow> path \<Rightarrow> upper \<Rightarrow> errno + upper" where
  "rename_entry p q t =
    (case map_of t p of
       None \<Rightarrow> Inl (u_missing t p)
     | Some n \<Rightarrow> if directory_at t q then Inl EISDIR else Inr (AList.update q n (AList.delete p t)))"

text \<open>The closure of \<open>copy_upper_entry\<close>: make the copy, give it its metadata, put it in place.\<close>

definition place_copy :: "apply_env \<Rightarrow> path \<Rightarrow> node \<Rightarrow> links \<Rightarrow> links stage_io" where
  "place_copy env p n links =
    io_bind (sys env TargetRoot (make_copy env links p n)) (\<lambda>_.
    io_bind (copy_host_metadata env n (apply_temporary_name env p)) (\<lambda>_.
    io_bind (if metadata_type n = TypeFile then io_step env (OverlayIo EIO) else io_return ()) (\<lambda>_.
    io_bind (io_read (\<lambda>st. if directory_at (sg_target st) p then remove_path env TargetRoot p else io_return ())) (\<lambda>_.
    io_bind (sys env TargetRoot (rename_entry (apply_temporary_name env p) p)) (\<lambda>_.
    io_bind (io_step env (OverlayIo EIO)) (\<lambda>_.
      io_return (if is_linked env p n then (in_dev_ino (ae_inodes env) p, p) # links else links)))))))"

text \<open>For an entry that is not a directory, as every entry is that the apply of a selection copies.\<close>

definition copy_upper_entry :: "apply_env \<Rightarrow> path \<Rightarrow> node \<Rightarrow> links \<Rightarrow> links stage_io" where
  "copy_upper_entry env p n links =
    io_bind (create_dir_all env (butlast p)) (\<lambda>_.
    io_bind (remove_path env TargetRoot (apply_temporary_name env p)) (\<lambda>_.
    io_try (place_copy env p n links) (\<lambda>r. case r of
      Inr links' \<Rightarrow> io_return links'
    | Inl e \<Rightarrow> io_try (remove_path env TargetRoot (apply_temporary_name env p)) (\<lambda>_. io_fail e))))"

subsection \<open>The target\<close>

definition clear_directory :: "apply_env \<Rightarrow> path \<Rightarrow> unit stage_io" where
  "clear_directory env rel =
    io_read (\<lambda>st. io_fold (\<lambda>name _. remove_path env TargetRoot (rel @ [name])) (upper_entries (sg_target st) rel) ())"

definition apply_whiteouts :: "apply_env \<Rightarrow> path list \<Rightarrow> path \<Rightarrow> string list \<Rightarrow> unit stage_io" where
  "apply_whiteouts env selected rel names =
    io_fold (\<lambda>name _.
      if name = OPAQUE_NAME then io_return ()
      else case whiteout_target name of
        None \<Rightarrow> io_return ()
      | Some victim \<Rightarrow> if rel @ [victim] \<in> set selected then remove_path env TargetRoot (rel @ [victim]) else io_return ()) names ()"

definition depth :: "upper \<Rightarrow> nat" where
  "depth u = foldr (\<lambda>(p, _). max (length p)) u 0"

lemma depth_le: "map_of u p = Some n \<Longrightarrow> length p \<le> depth u"
  by (induction u) (auto simp: depth_def split: if_splits)

definition must_enter :: "path list \<Rightarrow> path \<Rightarrow> bool" where
  "must_enter selected logical \<longleftrightarrow> logical \<in> set selected \<or> list_ex (\<lambda>p. p \<noteq> logical \<and> prefix logical p) selected"

text \<open>\<open>apply_selected_directory\<close> and its second loop. The upper directory does not change meanwhile.\<close>

function (sequential)
  apply_selected_directory :: "apply_env \<Rightarrow> upper \<Rightarrow> path list \<Rightarrow> path \<Rightarrow> links \<Rightarrow> links stage_io" and
  apply_entries :: "apply_env \<Rightarrow> upper \<Rightarrow> path list \<Rightarrow> path \<Rightarrow> string list \<Rightarrow> links \<Rightarrow> links stage_io"
where
  "apply_selected_directory env u selected rel links =
    io_bind (ensure_directory env rel) (\<lambda>_.
    io_bind (if is_opaque u rel \<and> rel \<in> set selected then clear_directory env rel else io_return ()) (\<lambda>_.
    io_bind (apply_whiteouts env selected rel (upper_entries u rel)) (\<lambda>_.
      apply_entries env u selected rel (upper_entries u rel) links)))"
| "apply_entries env u selected rel [] links = io_return links"
| "apply_entries env u selected rel (name # names) links =
    (if is_whiteout_name name then apply_entries env u selected rel names links
     else case map_of u (rel @ [name]) of
       None \<Rightarrow> io_fail (OverlayIo (u_missing u (rel @ [name])))
     | Some n \<Rightarrow>
        if is_dir n then
          if must_enter selected (rel @ [name]) then
            io_bind (ensure_directory env (rel @ [name])) (\<lambda>_.
            io_bind (apply_selected_directory env u selected (rel @ [name]) links) (\<lambda>links1.
            io_bind (if rel @ [name] \<in> set selected then copy_host_metadata env n (rel @ [name]) else io_return ()) (\<lambda>_.
              apply_entries env u selected rel names links1)))
          else apply_entries env u selected rel names links
        else if rel @ [name] \<in> set selected then
          io_bind (copy_upper_entry env (rel @ [name]) n links) (\<lambda>links1. apply_entries env u selected rel names links1)
        else apply_entries env u selected rel names links)"
  by pat_completeness auto

termination
  by (relation "measures [case_sum (\<lambda>(env, u, selected, rel, links). depth u - length rel)
      (\<lambda>(env, u, selected, rel, names, links). depth u - length rel),
    case_sum (\<lambda>_. 1) (\<lambda>_. 0), case_sum (\<lambda>_. 0) (\<lambda>(env, u, selected, rel, names, links). length names)]")
    (auto dest!: depth_le)

definition apply_selected_upper :: "apply_env \<Rightarrow> upper \<Rightarrow> path list \<Rightarrow> unit stage_io" where
  "apply_selected_upper env u selected =
    io_bind (ensure_directory env []) (\<lambda>_.
    io_bind (apply_selected_directory env u selected [] []) (\<lambda>_. io_return ()))"

subsection \<open>The upper directory\<close>

definition clear_opaque_xattrs :: "apply_env \<Rightarrow> path \<Rightarrow> unit stage_io" where
  "clear_opaque_xattrs env rel =
    io_read (\<lambda>st. case map_of (sg_upper st) rel of
      Some (DirNode m True) \<Rightarrow> sys env UpperRoot (\<lambda>u. Inr (AList.update rel (DirNode m False) u))
    | _ \<Rightarrow> io_return ())"

definition remove_selected :: "apply_env \<Rightarrow> path list \<Rightarrow> path \<Rightarrow> path \<Rightarrow> unit stage_io" where
  "remove_selected env selected logical p = (if logical \<in> set selected then remove_path env UpperRoot p else io_return ())"

definition remove_emptied :: "apply_env \<Rightarrow> path list \<Rightarrow> path \<Rightarrow> unit stage_io" where
  "remove_emptied env selected p =
    io_read (\<lambda>st. if p \<in> set selected \<and> upper_entries (sg_upper st) p = [] then sys env UpperRoot (u_remove_tree p)
      else io_return ())"

text \<open>\<open>prune_selected_directory\<close> and its loop. A directory is listed before anything in it is removed, so
  the listing is that of the upper directory \<open>u\<close> with which the walk began.\<close>

function (sequential)
  prune_selected_directory :: "apply_env \<Rightarrow> upper \<Rightarrow> path list \<Rightarrow> path \<Rightarrow> unit stage_io" and
  prune_entries :: "apply_env \<Rightarrow> upper \<Rightarrow> path list \<Rightarrow> path \<Rightarrow> string list \<Rightarrow> unit stage_io"
where
  "prune_selected_directory env u selected rel =
    io_bind (if rel \<in> set selected then clear_opaque_xattrs env rel else io_return ()) (\<lambda>_.
      prune_entries env u selected rel (upper_entries u rel))"
| "prune_entries env u selected rel [] = io_return ()"
| "prune_entries env u selected rel (name # names) =
    (if name = OPAQUE_NAME then
       io_bind (remove_selected env selected rel (rel @ [name])) (\<lambda>_. prune_entries env u selected rel names)
     else case whiteout_target name of
       Some victim \<Rightarrow>
         io_bind (remove_selected env selected (rel @ [victim]) (rel @ [name])) (\<lambda>_. prune_entries env u selected rel names)
     | None \<Rightarrow>
        case map_of u (rel @ [name]) of
          None \<Rightarrow> io_fail (OverlayIo (u_missing u (rel @ [name])))
        | Some n \<Rightarrow>
            if is_dir n then
              io_bind (if must_enter selected (rel @ [name]) then prune_selected_directory env u selected (rel @ [name])
                       else io_return ()) (\<lambda>_.
              io_bind (remove_emptied env selected (rel @ [name])) (\<lambda>_. prune_entries env u selected rel names))
            else
              io_bind (remove_selected env selected (rel @ [name]) (rel @ [name])) (\<lambda>_. prune_entries env u selected rel names))"
  by pat_completeness auto

termination
  by (relation "measures [case_sum (\<lambda>(env, u, selected, rel). depth u - length rel)
      (\<lambda>(env, u, selected, rel, names). depth u - length rel),
    case_sum (\<lambda>_. 1) (\<lambda>_. 0), case_sum (\<lambda>_. 0) (\<lambda>(env, u, selected, rel, names). length names)]")
    (auto dest!: depth_le)

definition prune_selected_upper :: "apply_env \<Rightarrow> path list \<Rightarrow> unit stage_io" where
  "prune_selected_upper env selected = io_read (\<lambda>st. prune_selected_directory env (sg_upper st) selected [])"

definition clear_path :: "apply_env \<Rightarrow> root \<Rightarrow> path \<Rightarrow> unit stage_io" where
  "clear_path env r p = io_read (\<lambda>st. if map_of (tree_at r st) p \<noteq> None then remove_path env r p else io_return ())"

text \<open>The working directory and the mount point are outside the model; removing them may fail.\<close>

definition cleanup_terminal_overlay_data :: "apply_env \<Rightarrow> unit stage_io" where
  "cleanup_terminal_overlay_data env =
    io_read (\<lambda>st.
      io_bind (clear_path env UpperRoot []) (\<lambda>_.
      io_bind (if or_upper (sg_record st) = DirectoryUpper then io_step env (OverlayIo EIO) else io_return ()) (\<lambda>_.
        io_step env (OverlayIo EIO))))"

definition set_state :: "OverlayState \<Rightarrow> unit stage_io" where
  "set_state s = io_update (\<lambda>st. st\<lparr>sg_record := (sg_record st)\<lparr>or_state := s\<rparr>\<rparr>)"

definition write_overlay_record :: "apply_env \<Rightarrow> unit stage_io" where
  "write_overlay_record env =
    io_bind (io_step env Persist) (\<lambda>_. io_update (\<lambda>st. st\<lparr>sg_meta := sg_record st\<rparr>))"

text \<open>The lower directories are read anew, since the target is one of them. The snapshot of a Jujutsu
  workspace is a call that may fail.\<close>

definition complete_target_applied ::
  "apply_env \<Rightarrow> (upper \<Rightarrow> layer list) \<Rightarrow> path list \<Rightarrow> ChangeEntry list stage_io"
where
  "complete_target_applied env lowers selected =
    io_bind (io_read (\<lambda>st. if directory_at (sg_upper st) [] \<and> selected \<noteq> [] then prune_selected_upper env selected
        else io_return ())) (\<lambda>_.
    io_bind (io_read (\<lambda>st. if or_upper (sg_record st) = JujutsuUpper then io_step env Finalize else io_return ())) (\<lambda>_.
    io_read (\<lambda>st.
      let remaining = overlay_changes (lowers (sg_target st)) (sg_upper st) in
      io_bind (if remaining = [] then io_bind (cleanup_terminal_overlay_data env) (\<lambda>_. set_state Applied)
        else set_state Staged) (\<lambda>_.
      io_bind (write_overlay_record env) (\<lambda>_. io_return remaining)))))"

subsection \<open>First states\<close>

definition prepare_apply_preimages :: "apply_env \<Rightarrow> stage \<Rightarrow> path list \<Rightarrow> overlay_error + preimage list" where
  "prepare_apply_preimages env st selected =
    collect_results (\<lambda>p. case map_of (map snd (sg_journal st)) p of
        Some state \<Rightarrow> Inr (p, state)
      | None \<Rightarrow>
          if sg_complete st then Inl InvalidState
          else (case fingerprint_at (ae_core env) (alist_layer (sg_target st)) p of
              Inl e \<Rightarrow> Inl (OverlayIo e)
            | Inr state \<Rightarrow> Inr (p, state))) selected"

definition recovery_fingerprint_matches :: "PathFingerprint \<Rightarrow> PathFingerprint \<Rightarrow> bool" where
  "recovery_fingerprint_matches current expected \<longleftrightarrow> current = expected \<or>
    (case (current, expected) of
       (DirectoryPrint m u g _, DirectoryPrint m' u' g' _) \<Rightarrow> m = m' \<and> u = u' \<and> g = g'
     | _ \<Rightarrow> False)"

definition desired_fingerprint :: "apply_env \<Rightarrow> stage \<Rightarrow> path \<Rightarrow> ChangeEntry list \<Rightarrow> overlay_error + PathFingerprint option" where
  "desired_fingerprint env st p changes =
    (case List.find (\<lambda>c. ch_path c = p) changes of
       None \<Rightarrow> Inr None
     | Some c \<Rightarrow>
        if ch_kind c = Deleted then Inr (Some AbsentPrint)
        else map_sum OverlayIo Some (fingerprint_at (ae_core env) (alist_layer (sg_upper st)) p))"

fun validate_target_preimages ::
  "apply_env \<Rightarrow> stage \<Rightarrow> preimage list \<Rightarrow> ChangeEntry list \<Rightarrow> bool \<Rightarrow> overlay_error + unit"
where
  "validate_target_preimages env st [] changes recovering = Inr ()"
| "validate_target_preimages env st ((p, state) # preimages) changes recovering =
    (case fingerprint_at (ae_core env) (alist_layer (sg_target st)) p of
       Inl e \<Rightarrow> Inl (OverlayIo e)
     | Inr current \<Rightarrow>
        if current = state then validate_target_preimages env st preimages changes recovering
        else if \<not> recovering then Inl ApplyError
        else rbind (desired_fingerprint env st p changes) (\<lambda>desired.
          case desired of
            None \<Rightarrow> Inl ApplyError
          | Some d \<Rightarrow>
              if recovery_fingerprint_matches current d then validate_target_preimages env st preimages changes recovering
              else Inl ApplyError))"

definition apply_prepared_target ::
  "apply_env \<Rightarrow> path list \<Rightarrow> preimage list \<Rightarrow> ChangeEntry list \<Rightarrow> bool \<Rightarrow> unit stage_io"
where
  "apply_prepared_target env selected preimages changes recovering =
    io_read (\<lambda>st. case validate_target_preimages env st preimages changes recovering of
      Inl e \<Rightarrow> io_fail e
    | Inr _ \<Rightarrow>
        if directory_at (sg_upper st) [] \<and> selected \<noteq> [] then apply_selected_upper env (sg_upper st) selected
        else io_return ())"

definition consume_applied_preimages :: "apply_env \<Rightarrow> path list \<Rightarrow> unit stage_io" where
  "consume_applied_preimages env selected =
    io_bind (io_fold (\<lambda>p _.
      if \<not> validate_rel p then io_fail (OverlayIo EINVAL)
      else io_bind (io_step env (OverlayIo EIO)) (\<lambda>_. io_update (\<lambda>st.
        st\<lparr>sg_journal := AList.delete (journal_key (ae_core env) p) (sg_journal st)\<rparr>))) selected ()) (\<lambda>_.
      io_step env (OverlayIo EIO))"

subsection \<open>The ledger\<close>

definition append_apply_record :: "apply_env \<Rightarrow> ApplyRecord \<Rightarrow> unit stage_io" where
  "append_apply_record env ar =
    io_bind (io_step env Persist) (\<lambda>_. io_update (\<lambda>st. st\<lparr>sg_ledger := sg_ledger st @ [ar]\<rparr>))"

text \<open>The first record with the identifier.\<close>

fun update_record :: "string \<Rightarrow> (ApplyRecord \<Rightarrow> ApplyRecord) \<Rightarrow> ApplyRecord list \<Rightarrow> ApplyRecord list option" where
  "update_record apply_id f [] = None"
| "update_record apply_id f (ar # ars) =
    (if ar_apply_id ar = apply_id then Some (f ar # ars) else map_option ((#) ar) (update_record apply_id f ars))"

definition update_apply_state :: "apply_env \<Rightarrow> string \<Rightarrow> ApplyRecordState \<Rightarrow> nat option \<Rightarrow> unit stage_io" where
  "update_apply_state env apply_id state remaining =
    io_read (\<lambda>st. case update_record apply_id (\<lambda>ar. ar\<lparr>ar_state := state,
          ar_remaining_changes := (case remaining of None \<Rightarrow> ar_remaining_changes ar | Some n \<Rightarrow> n)\<rparr>) (sg_ledger st) of
      None \<Rightarrow> io_fail Persist
    | Some ledger \<Rightarrow> io_bind (io_step env Persist) (\<lambda>_. io_update (\<lambda>st. st\<lparr>sg_ledger := ledger\<rparr>)))"

definition mark_apply_committed :: "apply_env \<Rightarrow> string \<Rightarrow> nat \<Rightarrow> unit stage_io" where
  "mark_apply_committed env apply_id remaining = update_apply_state env apply_id Committed (Some remaining)"

definition mark_apply_target_applied :: "apply_env \<Rightarrow> string \<Rightarrow> unit stage_io" where
  "mark_apply_target_applied env apply_id = update_apply_state env apply_id TargetApplied None"

text \<open>What follows once the target has been written, in an apply and in a recovery.\<close>

definition finish_apply ::
  "apply_env \<Rightarrow> (upper \<Rightarrow> layer list) \<Rightarrow> string \<Rightarrow> path list \<Rightarrow> ChangeEntry list stage_io"
where
  "finish_apply env lowers apply_id selected =
    io_bind (complete_target_applied env lowers selected) (\<lambda>remaining.
    io_bind (consume_applied_preimages env selected) (\<lambda>_.
    io_bind (mark_apply_committed env apply_id (length remaining)) (\<lambda>_. io_return remaining)))"

definition recover_apply :: "apply_env \<Rightarrow> (upper \<Rightarrow> layer list) \<Rightarrow> ApplyRecord \<Rightarrow> unit stage_io" where
  "recover_apply env lowers ar =
    io_read (\<lambda>st.
      let record = sg_record st in
      if ar_overlay_id ar \<noteq> or_id record \<or> ar_overlay_generation ar \<noteq> or_generation record \<or>
         ar_target ar \<noteq> or_target record then io_fail InvalidState
      else case collect_results (normalize_selection_path \<circ> path_bytes) (ar_planned_paths ar) of
        Inl e \<Rightarrow> io_fail e
      | Inr paths \<Rightarrow>
          if paths = [] \<and> ar_changes ar \<noteq> [] then io_fail InvalidState
          else
            io_bind (if ar_state ar = Prepared then
                io_bind (apply_prepared_target env (remdups paths) (ar_preimages ar) (ar_changes ar) True) (\<lambda>_.
                  mark_apply_target_applied env (ar_apply_id ar))
              else io_return ()) (\<lambda>_.
            io_bind (finish_apply env lowers (ar_apply_id ar) (remdups paths)) (\<lambda>_. io_return ())))"

definition recover_pending_applies_locked :: "apply_env \<Rightarrow> (upper \<Rightarrow> layer list) \<Rightarrow> string list stage_io" where
  "recover_pending_applies_locked env lowers =
    io_read (\<lambda>st. io_fold (\<lambda>ar recovered.
        io_bind (recover_apply env lowers ar) (\<lambda>_. io_return (recovered @ [ar_apply_id ar])))
      (filter (\<lambda>ar. ar_state ar \<noteq> Committed) (sg_ledger st)) [])"

subsection \<open>Apply and discard\<close>

text \<open>From the plan on. The loop of the plan always ends, so the first case does not occur.\<close>

definition apply_planned ::
  "apply_env \<Rightarrow> (upper \<Rightarrow> layer list) \<Rightarrow> ApplySelection \<Rightarrow> ApplyOutcome stage_io"
where
  "apply_planned env lowers selection =
    io_read (\<lambda>st.
      case plan_overlay_apply (ae_globs env) (ae_inodes env) (lowers (sg_target st)) (sg_upper st) selection of
        None \<Rightarrow> io_fail InvalidState
      | Some (Inl e) \<Rightarrow> io_fail e
      | Some (Inr plan) \<Rightarrow>
          case prepare_apply_preimages env st (pl_selected_paths plan) of
            Inl e \<Rightarrow> io_fail e
          | Inr preimages \<Rightarrow>
              case validate_target_preimages env st preimages (pl_selected plan) False of
                Inl e \<Rightarrow> io_fail e
              | Inr _ \<Rightarrow>
                  let apply_id = ae_uuid env (sg_calls st) in
                  io_bind (append_apply_record env \<lparr>ar_apply_id = apply_id, ar_overlay_id = or_id (sg_record st),
                    ar_overlay_generation = or_generation (sg_record st), ar_target = or_target (sg_record st),
                    ar_selection = selection, ar_changes = pl_selected plan, ar_planned_paths = pl_selected_paths plan,
                    ar_preimages = preimages, ar_state = Prepared, ar_remaining_changes = 0\<rparr>) (\<lambda>_.
                  io_bind (apply_prepared_target env (pl_selected_paths plan) preimages (pl_selected plan) False) (\<lambda>_.
                  io_bind (mark_apply_target_applied env apply_id) (\<lambda>_.
                  io_bind (finish_apply env lowers apply_id (pl_selected_paths plan)) (\<lambda>remaining.
                    io_return \<lparr>ao_apply_id = apply_id, ao_applied = pl_selected plan, ao_remaining = remaining\<rparr>)))))"

definition apply_overlay_selected ::
  "apply_env \<Rightarrow> (upper \<Rightarrow> layer list) \<Rightarrow> ApplySelection \<Rightarrow> ApplyOutcome stage_io"
where
  "apply_overlay_selected env lowers selection =
    io_read (\<lambda>st.
      if or_protect_target (sg_record st) then io_fail ApplyError
      else
        io_bind (io_step env (OverlayIo EIO)) (\<lambda>_.
        io_bind (recover_pending_applies_locked env lowers) (\<lambda>_.
        io_read (\<lambda>st.
          case or_state (sg_record st) of
            Applied \<Rightarrow>
              if is_all selection then io_return \<lparr>ao_apply_id = [], ao_applied = [], ao_remaining = []\<rparr>
              else io_fail InvalidState
          | Discarded \<Rightarrow> io_fail InvalidState
          | _ \<Rightarrow> apply_planned env lowers selection))))"

definition everything :: ApplySelection where
  "everything = \<lparr>sl_paths = [], sl_includes = [], sl_excludes = []\<rparr>"

definition apply_overlay :: "apply_env \<Rightarrow> unit stage_io" where
  "apply_overlay env =
    io_bind (apply_overlay_selected env (\<lambda>target. [alist_layer target]) everything) (\<lambda>_. io_return ())"

definition discard_overlay :: "apply_env \<Rightarrow> unit stage_io" where
  "discard_overlay env =
    io_read (\<lambda>st. case or_state (sg_record st) of
      Discarded \<Rightarrow> io_return ()
    | Applied \<Rightarrow> io_fail InvalidState
    | _ \<Rightarrow>
        io_bind (if or_upper (sg_record st) = JujutsuUpper then
            io_bind (clear_path env UpperRoot []) (\<lambda>_.
            io_bind (io_step env Finalize) (\<lambda>_. clear_path env UpperRoot []))
          else io_return ()) (\<lambda>_.
        io_bind (cleanup_terminal_overlay_data env) (\<lambda>_.
        io_bind (set_state Discarded) (\<lambda>_. write_overlay_record env))))"

subsection \<open>An overlay that was mounted, written to and unmounted\<close>

definition apply_core :: OverlayCore where
  "apply_core = demo_core\<lparr>oc_excluded := [], oc_journaling := True\<rparr>"

definition apply_demo_env :: apply_env where
  "apply_demo_env = \<lparr>ae_core = apply_core, ae_globs = plan_globs, ae_inodes = \<lparr>in_dev_ino = (\<lambda>_. (0, 0)), in_nlink = (\<lambda>_. 1)\<rparr>,
     ae_path_digest = path_bytes, ae_uuid = (\<lambda>n. replicate n CHR ''i'')\<rparr>"

definition staged :: "OverlayCore \<Rightarrow> upper \<Rightarrow> overlay \<Rightarrow> stage" where
  "staged core target ov =
    (let record = \<lparr>or_id = ''o'', or_generation = 0, or_target = ''/t'', or_upper = DirectoryUpper,
           or_protect_target = False, or_state = Staged\<rparr> in
     \<lparr>sg_record = record, sg_meta = record, sg_target = target, sg_upper = ov_upper ov, sg_journal = ov_journal ov,
      sg_complete = ov_complete ov, sg_ledger = [], sg_calls = 0\<rparr>)"

definition partial_stage :: stage where
  "partial_stage = staged apply_core demo_lower
    (snd (run_ops (overlay_exec apply_core) [Remove [''etc'', ''hosts''] False, CreateFile [''etc'', ''new''] 0x1A4]
      (projr (overlay_new apply_core))))"


end
