(* ===== verification/ApplyView.thy ===== *)
theory ApplyView
  imports OverlayApply
begin

section \<open>What an apply makes of the target\<close>

text \<open>
  An apply of every change leaves the target with exactly the tree that the overlay showed. The shown
  tree is first given in a form that looks at one path of the lower directory only (\<open>shown\<close>), then
  each call is described by its effect on the entries of the target.
\<close>

subsection \<open>The shown tree, path by path\<close>

definition hides :: "upper \<Rightarrow> path \<Rightarrow> bool" where
  "hides u q \<longleftrightarrow> (\<exists>p c. prefix (p @ [c]) q \<and> map_of u (p @ [c]) = None \<and> (is_whiteouted u p c \<or> is_opaque u p))"

definition blocked :: "upper \<Rightarrow> path \<Rightarrow> bool" where
  "blocked u q \<longleftrightarrow> (\<exists>p n. strict_prefix p q \<and> map_of u p = Some n \<and> \<not> is_dir n)"

definition shown :: "upper \<Rightarrow> (path \<Rightarrow> node option) \<Rightarrow> tree" where
  "shown u m q =
    (case map_of u q of
       Some n \<Rightarrow> Some (content_of n)
     | None \<Rightarrow> if hides u q \<or> blocked u q then None else map_option content_of (m q))"

lemma shown_cong: "m q = m' q \<Longrightarrow> shown u m q = shown u m' q"
  by (simp add: shown_def split: option.split)

lemma content_dir: "is_dir n \<Longrightarrow> content_of n = Directory"
  by simp

lemma shown_dir: "directory_at u p \<Longrightarrow> shown u m p = Some Directory"
  by (auto simp: shown_def directory_at_iff content_dir)

text \<open>Trees whose entries are in directories.\<close>

definition tree_ok :: "(path \<Rightarrow> node option) \<Rightarrow> bool" where
  "tree_ok m \<longleftrightarrow> (\<exists>n. m [] = Some n \<and> is_dir n) \<and> (\<forall>p c. m (p @ [c]) \<noteq> None \<longrightarrow> (\<exists>n. m p = Some n \<and> is_dir n))"

lemma tree_ok_root: "tree_ok m \<Longrightarrow> \<exists>n. m [] = Some n \<and> is_dir n"
  and tree_ok_parent: "tree_ok m \<Longrightarrow> m (p @ [c]) \<noteq> None \<Longrightarrow> \<exists>n. m p = Some n \<and> is_dir n"
  by (auto simp: tree_ok_def)

lemma tree_okI:
  "m [] = Some n \<Longrightarrow> is_dir n \<Longrightarrow> (\<And>p c. m (p @ [c]) \<noteq> None \<Longrightarrow> \<exists>n. m p = Some n \<and> is_dir n) \<Longrightarrow> tree_ok m"
  by (auto simp: tree_ok_def)

lemma tree_ok_below:
  assumes "tree_ok m" "\<not> (\<exists>n. m p = Some n \<and> is_dir n)" "q \<noteq> []"
  shows "m (p @ q) = None"
  using assms(3)
proof (induction q rule: rev_induct)
  case (snoc c q)
  have "\<not> (\<exists>n. m (p @ q) = Some n \<and> is_dir n)"
    using snoc.IH assms(2) by (cases "q = []") auto
  then show ?case using tree_ok_parent [OF assms(1), of "p @ q" c] by (cases "m (p @ q @ [c])") auto
qed simp

lemma tree_ok_prefix: "tree_ok m \<Longrightarrow> m q \<noteq> None \<Longrightarrow> strict_prefix p q \<Longrightarrow> \<exists>n. m p = Some n \<and> is_dir n"
  using tree_ok_below [of m p] by (force simp: strict_prefix_def prefix_def)

lemma tree_ok_gone: "tree_ok m \<Longrightarrow> \<not> (\<exists>n. m p = Some n \<and> is_dir n) \<Longrightarrow> strict_prefix p q \<Longrightarrow> m q = None"
  using tree_ok_prefix [of m q p] by (cases "m q") auto

lemma map_ok_tree: "map_ok m \<Longrightarrow> tree_ok m"
  unfolding map_ok_def tree_ok_def by metis

lemma upper_tree: "upper_ok u \<Longrightarrow> tree_ok (map_of u)"
  by (simp add: upper_ok_map map_ok_tree)

lemma tree_ok_put:
  assumes "tree_ok m" "p \<noteq> []" "\<exists>d. m (butlast p) = Some d \<and> is_dir d" "is_dir n \<or> (\<forall>c. m (p @ [c]) = None)"
  shows "tree_ok (m(p \<mapsto> n))"
proof -
  obtain r where r: "m [] = Some r" "is_dir r" using tree_ok_root [OF assms(1)] by blast
  show ?thesis
  proof (rule tree_okI [of _ r])
    fix q c assume q: "(m(p \<mapsto> n)) (q @ [c]) \<noteq> None"
    have d: "\<exists>d. m q = Some d \<and> is_dir d"
    proof (cases "q @ [c] = p")
      case True
      then show ?thesis using assms(3) by auto
    next
      case False
      then show ?thesis using q tree_ok_parent [OF assms(1)] by (simp split: if_splits)
    qed
    show "\<exists>n'. (m(p \<mapsto> n)) q = Some n' \<and> is_dir n'"
    proof (cases "q = p")
      case True
      then have "m (p @ [c]) \<noteq> None" using q by (simp split: if_splits)
      then show ?thesis using True assms(4) by auto
    qed (use d in simp)
  qed (use assms(2) r in auto)
qed

lemma tree_ok_remove:
  assumes "tree_ok m" "\<And>q c. P q \<Longrightarrow> P (q @ [c])" "\<not> P []"
  shows "tree_ok (\<lambda>q. if P q then None else m q)"
proof -
  obtain r where r: "m [] = Some r" "is_dir r" using tree_ok_root [OF assms(1)] by blast
  show ?thesis
    by (rule tree_okI [of _ r]) (use r assms(2,3) tree_ok_parent [OF assms(1)] in \<open>auto split: if_splits\<close>)
qed

lemma directory_prefix:
  assumes "tree_ok m" "m rel = Some d" "is_dir d" "prefix p rel"
  shows "\<exists>n. m p = Some n \<and> is_dir n"
  using assms tree_ok_prefix [of m rel p] by (cases "p = rel") (auto simp: strict_prefix_def)

text \<open>Below a directory of the upper directory, where the upper directory has no entry, the lower one shows
  unless the name is hidden.\<close>

lemma shown_lower:
  assumes u: "upper_ok u" "directory_at u rel" "map_of u (rel @ [c]) = None"
  shows "shown u m (rel @ c # s) = (if is_whiteouted u rel c \<or> is_opaque u rel then None else map_option content_of (m (rel @ c # s)))"
proof -
  note t = upper_tree [OF u(1)]
  have gone: "map_of u (rel @ c # s') = None" for s'
    using tree_ok_below [OF t, of "rel @ [c]" s'] u(3) by (cases "s' = []") auto
  have up: "\<exists>n. map_of u p = Some n \<and> is_dir n" if "prefix p rel" for p
    using directory_prefix [OF t _ _ that] u(2) by (auto simp: directory_at_iff)
  have split: "prefix p rel \<or> (\<exists>s'. p = rel @ c # s')" if "prefix p (rel @ c # s)" for p
    using that by (auto simp: prefix_append prefix_Cons)
  have "\<not> blocked u (rel @ c # s)"
    unfolding blocked_def using split up gone by (metis option.distinct(1) option.inject strict_prefix_def)
  moreover have "hides u (rel @ c # s) \<longleftrightarrow> is_whiteouted u rel c \<or> is_opaque u rel"
  proof
    assume "is_whiteouted u rel c \<or> is_opaque u rel"
    then show "hides u (rel @ c # s)" using u(3) unfolding hides_def by (metis append.assoc append_Cons append_Nil prefixI)
  next
    assume "hides u (rel @ c # s)"
    then obtain p e where p: "prefix (p @ [e]) (rel @ c # s)" "map_of u (p @ [e]) = None" "is_whiteouted u p e \<or> is_opaque u p"
      unfolding hides_def by blast
    have "\<not> prefix (p @ [e]) rel" using up p(2) by force
    then obtain s' where s': "p @ [e] = rel @ c # s'" using split [OF p(1)] by blast
    show "is_whiteouted u rel c \<or> is_opaque u rel"
    proof (cases s' rule: rev_cases)
      case Nil
      then show ?thesis using s' p(3) by simp
    next
      case (snoc s'' x)
      then have pe: "p = rel @ c # s''" using s' by simp
      have "\<not> is_whiteouted u p e"
        using gone [of "s'' @ [WHITEOUT_PREFIX @ e]"] pe by (simp add: is_whiteouted_def whiteout_path_def)
      moreover have "\<not> is_opaque u p"
        using gone [of "s'' @ [OPAQUE_NAME]"] gone [of s''] pe by (simp add: is_opaque_def)
      ultimately show ?thesis using p(3) by simp
    qed
  qed
  ultimately show ?thesis using gone [of s] by (simp add: shown_def)
qed

lemma not_upper_child:
  assumes "upper_ok u" "map_of u p = None"
  shows "map_of u (p @ [c]) = None" "\<not> is_whiteouted u p c" "\<not> is_opaque u p"
proof -
  have none: "map_of u (p @ [e]) = None" for e
    using tree_ok_parent [OF upper_tree [OF assms(1)], of p e] assms(2) by (cases "map_of u (p @ [e])") auto
  then show "map_of u (p @ [c]) = None" "\<not> is_whiteouted u p c" "\<not> is_opaque u p"
    using assms(2) by (simp_all add: is_whiteouted_def whiteout_path_def is_opaque_def)
qed

lemma shown_upper_file:
  assumes "upper_ok u" "map_of u p = Some n" "\<not> is_dir n" "s \<noteq> []"
  shows "shown u m (p @ s) = None"
proof -
  have "map_of u (p @ s) = None" using tree_ok_below [OF upper_tree [OF assms(1)], of p s] assms by simp
  moreover have "strict_prefix p (p @ s)" using assms(4) by (simp add: strict_prefix_def)
  ultimately show ?thesis using assms(2,3) by (auto simp: shown_def blocked_def)
qed

lemma shown_lower_child:
  assumes "upper_ok u" "map_of u p = None"
  shows "shown u m (p @ [c]) = (if hides u p \<or> blocked u p then None else map_option content_of (m (p @ [c])))"
proof -
  have "hides u (p @ [c]) \<longleftrightarrow> hides u p"
    unfolding hides_def using not_upper_child [OF assms] by (auto simp: prefix_snoc)
  moreover have "blocked u (p @ [c]) \<longleftrightarrow> blocked u p"
    using assms(2) by (auto simp: blocked_def strict_prefix_def prefix_snoc)
  ultimately show ?thesis using not_upper_child(1) [OF assms] by (simp add: shown_def)
qed

lemma view_shown:
  assumes ok: "lowers_ok core" "upper_ok u" "tree_ok (ly_lookup lower)"
    and core: "oc_lowers core = [lower]" "oc_excluded core = []"
  shows "list_all validate_name q \<Longrightarrow> view core u q = shown u (ly_lookup lower) q"
proof (induction q rule: rev_induct)
  case Nil
  then show ?case using ok(2) by (simp add: view_Nil ok shown_dir upper_ok_def)
next
  case (snoc c p)
  then have ih: "view core u p = shown u (ly_lookup lower) p" and names: "list_all validate_name (p @ [c])" by simp_all
  have vis: "visible core (p @ [c])"
    using names_validate_rel [OF names] core(2) by (simp add: visible_def is_excluded_def)
  have v: "view core u (p @ [c]) = (if shown u (ly_lookup lower) p = Some Directory
      then map_option (content_of \<circ> fst) (resolve_component core u (p @ [c])) else None)"
    using names vis ih by (simp add: view_snoc [OF ok(1,2)])
  show ?case
  proof (cases "directory_at u p")
    case True
    then have d: "shown u (ly_lookup lower) p = Some Directory" by (rule shown_dir)
    show ?thesis
    proof (cases "map_of u (p @ [c])")
      case None
      then show ?thesis using v d shown_lower [OF ok(2) True None, of _ "[]"] core(1)
        by (simp add: resolve_component_def option.map_comp comp_def split: option.split)
    qed (use v d in \<open>simp add: resolve_component_def shown_def\<close>)
  next
    case False
    show ?thesis
    proof (cases "map_of u p")
      case None
      have r: "resolve_component core u (p @ [c]) = map_option (\<lambda>n. (n, False)) (ly_lookup lower (p @ [c]))"
        using not_upper_child [OF ok(2) None] core(1) by (simp add: resolve_component_def split: option.split)
      have "shown u (ly_lookup lower) p = (if hides u p \<or> blocked u p then None else map_option content_of (ly_lookup lower p))"
        using None by (simp add: shown_def)
      then show ?thesis using v r shown_lower_child [OF ok(2) None] tree_ok_parent [OF ok(3), of p c]
        by (cases "ly_lookup lower (p @ [c])") (auto simp: option.map_comp comp_def)
    next
      case (Some n)
      then have "\<not> is_dir n" using False by (simp add: directory_at_iff)
      then show ?thesis using v shown_upper_file [OF ok(2) Some, of "[c]"] Some by (simp add: shown_def)
    qed
  qed
qed

subsection \<open>Opaque directories\<close>

text \<open>Inside an opaque directory a directory of the upper directory is opaque itself, or the lower
  directory has nothing below that path.\<close>

definition hidden_ok :: "upper \<Rightarrow> (path \<Rightarrow> node option) \<Rightarrow> path \<Rightarrow> bool" where
  "hidden_ok u m rel \<longleftrightarrow> (\<forall>p c d. prefix rel p \<longrightarrow> is_opaque u p \<longrightarrow> directory_at u (p @ [c]) \<longrightarrow>
    \<not> is_opaque u (p @ [c]) \<longrightarrow> m (p @ [c, d]) = None)"

lemma shown_opaque:
  assumes ok: "upper_ok u" "tree_ok m" "hidden_ok u m rel"
  shows "is_opaque u p \<Longrightarrow> prefix rel p \<Longrightarrow> directory_at u (p @ [c]) \<Longrightarrow>
    shown u m (p @ c # s) = shown u (\<lambda>_. None) (p @ c # s)"
proof (induction s arbitrary: p c)
  case Nil
  then show ?case by (auto simp: shown_def directory_at_iff)
next
  case (Cons d s)
  let ?q = "p @ [c]"
  show ?case
  proof (cases "is_opaque u ?q")
    case False
    then have "m (p @ [c, d]) = None" using ok(3) Cons.prems unfolding hidden_ok_def by blast
    then have "m (p @ c # d # s) = None" using tree_ok_below [OF ok(2), of "p @ [c, d]" s] by (cases "s = []") auto
    then show ?thesis by (simp add: shown_def split: option.split)
  next
    case True
    have pre: "prefix rel ?q" using Cons.prems(2) by (auto simp: prefix_def)
    show ?thesis
    proof (cases "map_of u (?q @ [d])")
      case None
      then show ?thesis using shown_lower [OF ok(1) Cons.prems(3) None] True by simp
    next
      case (Some n)
      show ?thesis
      proof (cases "is_dir n")
        case True
        then have "directory_at u (?q @ [d])" using Some by (simp add: directory_at_iff)
        then show ?thesis using Cons.IH [OF \<open>is_opaque u ?q\<close> pre] by simp
      next
        case False
        show ?thesis
        proof (cases "s = []")
          case True
          then show ?thesis using Some by (simp add: shown_def)
        next
          case s: False
          have "shown u m' ((?q @ [d]) @ s) = None" for m'
            using shown_upper_file [OF ok(1) Some False s] .
          then show ?thesis by simp
        qed
      qed
    qed
  qed
qed

subsection \<open>Effects of the calls\<close>

abbreviation entries :: "root \<Rightarrow> stage \<Rightarrow> path \<Rightarrow> node option" where
  "entries r st \<equiv> map_of (tree_at r st)"

abbreviation dir_in :: "(path \<Rightarrow> node option) \<Rightarrow> path \<Rightarrow> bool" where
  "dir_in m p \<equiv> \<exists>n. m p = Some n \<and> is_dir n"

lemma tree_at_set_tree [simp]: "tree_at r (set_tree r t st) = t"
  by (cases r) simp_all

lemma sys_Inr:
  "sys env r f st = (Inr x, st') \<Longrightarrow> \<exists>t. f (tree_at r st) = Inr t \<and> tree_at r st' = t"
  by (auto simp: sys_def Let_def split: sum.splits if_splits)

lemma io_step_Inr: "io_step env e st = (Inr x, st') \<Longrightarrow> tree_at r st' = tree_at r st"
  by (cases r) (auto simp: io_step_def)

lemma remove_path_entries:
  assumes "remove_path env r p st = (Inr x, st')" "tree_ok (entries r st)"
  shows "entries r st' = (\<lambda>q. if prefix p q then None else entries r st q)"
proof (cases "entries r st p")
  case None
  then have "st' = st" using assms(1) by (auto simp: remove_path_def io_read_def split: if_splits)
  moreover have "entries r st q = None" if "prefix p q" for q
    using None tree_ok_gone [OF assms(2), of p q] that by (cases "q = p") (simp_all add: strict_prefix_def)
  ultimately show ?thesis by auto
next
  case (Some n)
  then have s: "sys env r (if is_dir n then u_remove_tree p else u_unlink p) st = (Inr x, st')"
    using assms(1) by (simp add: remove_path_def io_read_def)
  show ?thesis
  proof (cases "is_dir n")
    case True
    then show ?thesis using sys_Inr [OF s] by (auto simp: u_remove_tree_def map_of_remove_tree)
  next
    case False
    have below: "entries r st q = None" if "prefix p q" "q \<noteq> p" for q
      using Some False tree_ok_gone [OF assms(2), of p q] that by (simp add: strict_prefix_def)
    have "entries r st' = (entries r st)(p := None)"
      using sys_Inr [OF s] False by (auto simp: u_unlink_Inr delete_conv)
    then show ?thesis using below by (auto simp: fun_eq_iff)
  qed
qed

text \<open>Removing one path after another.\<close>

definition without :: "path set \<Rightarrow> (path \<Rightarrow> node option) \<Rightarrow> path \<Rightarrow> node option" where
  "without P m q = (if \<exists>p \<in> P. prefix p q then None else m q)"

lemma tree_ok_without: "tree_ok m \<Longrightarrow> [] \<notin> P \<Longrightarrow> tree_ok (without P m)"
  unfolding without_def by (rule tree_ok_remove) (auto simp: prefix_snoc)

lemma remove_fold_entries:
  assumes "io_fold (\<lambda>name _. case g name of None \<Rightarrow> io_return () | Some p \<Rightarrow> remove_path env r p) names () st = (Inr x, st')"
    and "tree_ok (entries r st)" "[] \<notin> P" and "P = {p. \<exists>name \<in> set names. g name = Some p}"
  shows "entries r st' = without P (entries r st)"
  using assms
proof (induction names arbitrary: st P)
  case Nil
  then show ?case by (simp add: without_def fun_eq_iff)
next
  case (Cons name names)
  let ?Q = "{p. \<exists>name \<in> set names. g name = Some p}"
  from Cons.prems(1) obtain st1 where
    one: "(case g name of None \<Rightarrow> io_return () | Some p \<Rightarrow> remove_path env r p) st = (Inr (), st1)"
    and more: "io_fold (\<lambda>name _. case g name of None \<Rightarrow> io_return () | Some p \<Rightarrow> remove_path env r p) names () st1 = (Inr x, st')"
    by (auto simp: io_bind_Inr)
  have m1: "entries r st1 = without {p. g name = Some p} (entries r st)"
    using one remove_path_entries [OF _ Cons.prems(2)]
    by (auto simp: without_def fun_eq_iff split: option.splits)
  have Q: "[] \<notin> ?Q" "[] \<notin> {p. g name = Some p}" using Cons.prems(3,4) by auto
  have "tree_ok (entries r st1)" unfolding m1 by (rule tree_ok_without [OF Cons.prems(2) Q(2)])
  from Cons.IH [OF more this Q(1) refl] show ?case
    unfolding m1 Cons.prems(4) by (auto simp: without_def fun_eq_iff)
qed

lemma clear_directory_entries:
  assumes "clear_directory env rel st = (Inr x, st')" "tree_ok (entries TargetRoot st)"
  shows "entries TargetRoot st' = (\<lambda>q. if strict_prefix rel q then None else entries TargetRoot st q)"
proof -
  let ?names = "upper_entries (sg_target st) rel" and ?g = "\<lambda>name. Some (rel @ [name])"
  have "io_fold (\<lambda>name _. case ?g name of None \<Rightarrow> io_return () | Some p \<Rightarrow> remove_path env TargetRoot p) ?names () st = (Inr x, st')"
    using assms(1) by (simp add: clear_directory_def io_read_def)
  from remove_fold_entries [OF this assms(2) _ refl]
  have m: "entries TargetRoot st' = without {p. \<exists>name \<in> set ?names. rel @ [name] = p} (entries TargetRoot st)" by simp
  have gone: "entries TargetRoot st q = None" if "strict_prefix rel q" "\<not> (\<exists>name \<in> set ?names. prefix (rel @ [name]) q)" for q
  proof -
    note prems = that
    obtain c s where q: "q = rel @ c # s" using prems(1) by (rule strict_prefixE')
    then have "c \<notin> set ?names" using prems(2) by (auto simp: prefix_def)
    then have "map_of (sg_target st) (rel @ [c]) = None" by (simp add: upper_entries_iff)
    then show ?thesis using tree_ok_below [OF assms(2), of "rel @ [c]" s] q by (cases "s = []") auto
  qed
  have below: "strict_prefix rel q" if "prefix (rel @ [c]) q" for q c
    using that by (auto simp: prefix_def strict_prefix_def)
  show ?thesis
  proof
    fix q
    have "entries TargetRoot st' q = (if \<exists>name \<in> set ?names. prefix (rel @ [name]) q then None else entries TargetRoot st q)"
      unfolding m without_def by auto
    then show "entries TargetRoot st' q = (if strict_prefix rel q then None else entries TargetRoot st q)"
      using gone [of q] below [of _ q] by (cases "\<exists>name \<in> set ?names. prefix (rel @ [name]) q") auto
  qed
qed

lemma apply_whiteouts_entries:
  assumes "apply_whiteouts env sel rel names st = (Inr x, st')" "tree_ok (entries TargetRoot st)"
  shows "entries TargetRoot st' =
    without ((\<lambda>v. rel @ [v]) ` {v. rel @ [v] \<in> set sel \<and> (\<exists>name \<in> set names. name \<noteq> OPAQUE_NAME \<and> whiteout_target name = Some v)})
      (entries TargetRoot st)"
proof -
  let ?g = "\<lambda>name. if name = OPAQUE_NAME then None else case whiteout_target name of None \<Rightarrow> None
      | Some v \<Rightarrow> if rel @ [v] \<in> set sel then Some (rel @ [v]) else None"
  let ?P = "{p. \<exists>name \<in> set names. ?g name = Some p}"
  have eq: "(\<lambda>name _. if name = OPAQUE_NAME then io_return ()
      else case whiteout_target name of
        None \<Rightarrow> io_return ()
      | Some victim \<Rightarrow> if rel @ [victim] \<in> set sel then remove_path env TargetRoot (rel @ [victim]) else io_return ())
    = (\<lambda>name _. case ?g name of None \<Rightarrow> io_return () | Some p \<Rightarrow> remove_path env TargetRoot p)"
    by (auto simp: fun_eq_iff split: option.split)
  have f: "io_fold (\<lambda>name _. case ?g name of None \<Rightarrow> io_return () | Some p \<Rightarrow> remove_path env TargetRoot p) names () st = (Inr x, st')"
    by (rule assms(1) [unfolded apply_whiteouts_def eq])
  have "[] \<notin> ?P" by (auto split: option.splits if_splits)
  from remove_fold_entries [OF f assms(2) this refl] have "entries TargetRoot st' = without ?P (entries TargetRoot st)" .
  moreover have "?P = (\<lambda>v. rel @ [v]) ` {v. rel @ [v] \<in> set sel \<and> (\<exists>name \<in> set names. name \<noteq> OPAQUE_NAME \<and> whiteout_target name = Some v)}"
    by (auto split: option.splits if_splits)
  ultimately show ?thesis by simp
qed

lemma io_fold_append: "io_fold f (xs @ ys) b = io_bind (io_fold f xs b) (io_fold f ys)"
  by (induction xs arbitrary: b) (auto simp: io_bind_def io_return_def fun_eq_iff split: prod.splits sum.splits)

lemma io_fold_settled: "(\<And>x. x \<in> set xs \<Longrightarrow> f x () st = (Inr (), st)) \<Longrightarrow> io_fold f xs () st = (Inr (), st)"
  by (induction xs) (auto simp: io_bind_def io_return_def)

lemma create_dir_all_settled:
  assumes "tree_ok (entries TargetRoot st)" "dir_in (entries TargetRoot st) p"
  shows "create_dir_all env p st = (Inr (), st)"
  unfolding create_dir_all_def
proof (rule io_fold_settled)
  fix q assume "q \<in> set (prefixes p)"
  then have "dir_in (entries TargetRoot st) q" using directory_prefix [OF assms(1)] assms(2) by auto
  then show "io_read (\<lambda>st. if map_of (sg_target st) q \<noteq> None then io_return ()
      else sys env TargetRoot (make_directory env q)) st = (Inr (), st)"
    by (auto simp: io_read_def io_return_def)
qed

lemma create_dir_all_last:
  assumes "create_dir_all env (rel @ [c]) st = (Inr x, st')" "tree_ok (entries TargetRoot st)"
    "dir_in (entries TargetRoot st) rel" "entries TargetRoot st (rel @ [c]) = None"
  shows "sys env TargetRoot (make_directory env (rel @ [c])) st = (Inr (), st')"
proof -
  have "io_bind (create_dir_all env rel) (\<lambda>_. io_read (\<lambda>st.
      if map_of (sg_target st) (rel @ [c]) \<noteq> None then io_return () else sys env TargetRoot (make_directory env (rel @ [c])))) st = (Inr x, st')"
    using assms(1) by (auto simp: create_dir_all_def prefixes_snoc io_fold_append io_bind_Inr)
  then show ?thesis using create_dir_all_settled [OF assms(2,3)] assms(4) by (auto simp: io_bind_def io_read_def)
qed

lemma make_directory_entries:
  assumes "sys env TargetRoot (make_directory env (rel @ [c])) st = (Inr x, st')"
  shows "entries TargetRoot st' = (entries TargetRoot st)(rel @ [c] \<mapsto> new_directory env)"
  using sys_Inr [OF assms] by (auto simp: make_directory_def u_create_Inr)

lemma ensure_directory_entries:
  assumes run: "ensure_directory env p st = (Inr x, st')" and ok: "tree_ok (entries TargetRoot st)"
    and parent: "p = [] \<or> dir_in (entries TargetRoot st) (butlast p)"
  shows "\<exists>d. is_dir d \<and> entries TargetRoot st' = (entries TargetRoot st)(p \<mapsto> d)"
proof (cases "dir_in (entries TargetRoot st) p")
  case True
  then have "st' = st" using run by (auto simp: ensure_directory_def io_read_def)
  with True show ?thesis by (metis fun_upd_triv)
next
  case False
  then have "p \<noteq> []" using tree_ok_root [OF ok] by auto
  then obtain rel c where p: "p = rel @ [c]" by (cases p rule: rev_cases) auto
  then have rel: "dir_in (entries TargetRoot st) rel" using parent by simp
  have gone: "entries TargetRoot st q = None" if "strict_prefix p q" for q by (rule tree_ok_gone [OF ok False that])
  have "entries TargetRoot st' = (entries TargetRoot st)(p \<mapsto> new_directory env)"
  proof (cases "entries TargetRoot st p")
    case None
    then have "create_dir_all env p st = (Inr x, st')"
      using run by (auto simp: ensure_directory_def io_read_def split: if_splits)
    then show ?thesis using make_directory_entries create_dir_all_last [OF _ ok rel] None p by blast
  next
    case (Some n)
    then have "\<not> is_dir n" using False by auto
    then obtain st1 where st1: "remove_path env TargetRoot p st = (Inr (), st1)"
        "sys env TargetRoot (make_directory env p) st1 = (Inr x, st')"
      using run Some by (auto simp: ensure_directory_def io_read_def io_bind_Inr)
    show ?thesis
      using make_directory_entries [OF st1(2) [unfolded p]] remove_path_entries [OF st1(1) ok] gone
      unfolding p by (auto simp: fun_eq_iff strict_prefix_def)
  qed
  moreover have "is_dir (new_directory env)" by (simp add: new_directory_def)
  ultimately show ?thesis by blast
qed

lemma content_set_meta [simp]: "content_of (set_meta m n) = content_of n" "is_dir (set_meta m n) = is_dir n"
  by (cases n; simp)+

lemma copy_host_metadata_entries:
  assumes "copy_host_metadata env source p st = (Inr x, st')" "entries TargetRoot st p = Some n"
  shows "\<exists>n'. content_of n' = content_of n \<and> is_dir n' = is_dir n \<and> entries TargetRoot st' = (entries TargetRoot st)(p \<mapsto> n')"
proof -
  let ?n = "set_meta (host_metadata env (metadata_type source = TypeSymlink) (node_meta source) (node_meta n)) n"
  have "sg_target st' = AList.update p ?n (sg_target st)"
    using sys_Inr [OF assms(1) [unfolded copy_host_metadata_def]] assms(2) by (auto split: if_splits)
  then show ?thesis by (intro exI [of _ ?n]) (simp add: update_conv')
qed

lemma make_copy_entries:
  assumes "sys env TargetRoot (make_copy env links p n) st = (Inr x, st')" "\<not> is_dir n"
    and "\<And>q. is_linked env p n \<Longrightarrow> map_of links (in_dev_ino (ae_inodes env) p) = Some q \<Longrightarrow>
      \<exists>e. entries TargetRoot st q = Some e \<and> content_of e = content_of n"
  shows "\<exists>e. content_of e = content_of n \<and> entries TargetRoot st' = (entries TargetRoot st)(apply_temporary_name env p \<mapsto> e)"
proof (cases "if is_linked env p n then map_of links (in_dev_ino (ae_inodes env) p) else None")
  case None
  then show ?thesis using sys_Inr [OF assms(1)] assms(2)
    by (cases n) (auto simp: make_copy_def u_create_Inr intro!: exI)
next
  case (Some q)
  then obtain e where e: "entries TargetRoot st q = Some e" "content_of e = content_of n"
    using assms(3) by (auto split: if_splits)
  then show ?thesis using sys_Inr [OF assms(1)] Some
    by (intro exI [of _ e]) (auto simp: make_copy_def u_create_Inr split: if_splits)
qed

lemma place_copy_entries:
  assumes run: "place_copy env (rel @ [c]) n links st = (Inr links', st')"
    and ok: "tree_ok (entries TargetRoot st)" "dir_in (entries TargetRoot st) rel" "\<not> is_dir n"
    and temp: "entries TargetRoot st (apply_temporary_name env (rel @ [c])) = None" "apply_temporary_name env (rel @ [c]) \<noteq> rel @ [c]"
    and links: "\<And>q. is_linked env (rel @ [c]) n \<Longrightarrow> map_of links (in_dev_ino (ae_inodes env) (rel @ [c])) = Some q \<Longrightarrow>
      \<exists>e. entries TargetRoot st q = Some e \<and> content_of e = content_of n"
  shows "\<exists>e. content_of e = content_of n \<and> entries TargetRoot st' =
      (\<lambda>q. if q = rel @ [c] then Some e else if prefix (rel @ [c]) q then None else entries TargetRoot st q)"
proof -
  let ?p = "rel @ [c]" and ?t = "apply_temporary_name env (rel @ [c])" and ?m = "entries TargetRoot st"
  obtain t where t: "?t = rel @ [t]" by (simp add: apply_temporary_name_def)
  from run obtain s1 s2 s3 s4 s5 where s1: "sys env TargetRoot (make_copy env links ?p n) st = (Inr (), s1)"
    and s2: "copy_host_metadata env n ?t s1 = (Inr (), s2)"
    and s3: "(if metadata_type n = TypeFile then io_step env (OverlayIo EIO) else io_return ()) s2 = (Inr (), s3)"
    and s4: "io_read (\<lambda>st. if directory_at (sg_target st) ?p then remove_path env TargetRoot ?p else io_return ()) s3 = (Inr (), s4)"
    and s5: "sys env TargetRoot (rename_entry ?t ?p) s4 = (Inr (), s5)" and s6: "io_step env (OverlayIo EIO) s5 = (Inr (), st')"
    by (auto simp: place_copy_def io_bind_Inr)
  obtain e1 where e1: "content_of e1 = content_of n" "entries TargetRoot s1 = ?m(?t \<mapsto> e1)"
    using make_copy_entries [OF s1 ok(3) links] by blast
  obtain e where e: "content_of e = content_of n" "is_dir e = is_dir e1" "entries TargetRoot s2 = ?m(?t \<mapsto> e)"
    using copy_host_metadata_entries [OF s2, of e1] e1 by auto
  have "is_dir e1 = is_dir n" using e1(1) content_of_Directory by metis
  then have leaf: "\<not> is_dir e" using e(2) ok(3) by simp
  have m3: "entries TargetRoot s3 = ?m(?t \<mapsto> e)"
    using s3 e(3) io_step_Inr [of env "OverlayIo EIO" s2 "()" s3 TargetRoot] by (auto split: if_splits)
  have ok3: "tree_ok (?m(?t \<mapsto> e))"
    using tree_ok_put [OF ok(1), of ?t e] t ok(2) tree_ok_gone [OF ok(1), of ?t] temp(1) by (auto simp: strict_prefix_def)
  have m4: "entries TargetRoot s4 q = (if strict_prefix ?p q then None else if q = ?p then entries TargetRoot s4 q else (?m(?t \<mapsto> e)) q)" for q
  proof (cases "directory_at (sg_target s3) ?p")
    case True
    then have "remove_path env TargetRoot ?p s3 = (Inr (), s4)" using s4 by (simp add: io_read_def)
    then show ?thesis using remove_path_entries [of env TargetRoot ?p s3 "()" s4] ok3 m3 by (auto simp: strict_prefix_def)
  next
    case False
    then have "s4 = s3" using s4 by (simp add: io_read_def)
    then show ?thesis using m3 tree_ok_gone [OF ok3, of ?p q] False by (auto simp: directory_at_iff)
  qed
  have "entries TargetRoot s4 ?t = Some e"
    using m4 [of ?t] temp(2) t by (auto simp: strict_prefix_def)
  then have "sg_target s5 = AList.update ?p e (AList.delete ?t (sg_target s4))"
    using sys_Inr [OF s5] by (auto simp: rename_entry_def split: if_splits)
  then have "entries TargetRoot s5 = ((entries TargetRoot s4)(?t := None))(?p \<mapsto> e)"
    by (simp add: update_conv' delete_conv')
  then have m': "entries TargetRoot st' = ((entries TargetRoot s4)(?t := None))(?p \<mapsto> e)"
    using io_step_Inr [OF s6, of TargetRoot] by simp
  have "((entries TargetRoot s4)(?t := None))(?p \<mapsto> e) =
      (\<lambda>q. if q = ?p then Some e else if prefix ?p q then None else ?m q)"
    using m4 temp by (auto simp: fun_eq_iff strict_prefix_def)
  from e(1) trans [OF m' this] show ?thesis by (intro exI [of _ e] conjI)
qed

lemma copy_upper_entry_entries:
  assumes run: "copy_upper_entry env (rel @ [c]) n links st = (Inr links', st')"
    and ok: "tree_ok (entries TargetRoot st)" "dir_in (entries TargetRoot st) rel" "\<not> is_dir n"
    and temp: "entries TargetRoot st (apply_temporary_name env (rel @ [c])) = None" "apply_temporary_name env (rel @ [c]) \<noteq> rel @ [c]"
    and links: "\<And>q. is_linked env (rel @ [c]) n \<Longrightarrow> map_of links (in_dev_ino (ae_inodes env) (rel @ [c])) = Some q \<Longrightarrow>
      \<exists>e. entries TargetRoot st q = Some e \<and> content_of e = content_of n"
  shows "\<exists>e. content_of e = content_of n \<and> entries TargetRoot st' =
      (\<lambda>q. if q = rel @ [c] then Some e else if prefix (rel @ [c]) q then None else entries TargetRoot st q)"
    and "links' = (if is_linked env (rel @ [c]) n then (in_dev_ino (ae_inodes env) (rel @ [c]), rel @ [c]) # links else links)"
proof -
  let ?p = "rel @ [c]" and ?t = "apply_temporary_name env (rel @ [c])"
  have "io_bind (remove_path env TargetRoot ?t) (\<lambda>_. io_try (place_copy env ?p n links) (\<lambda>r. case r of
      Inr links' \<Rightarrow> io_return links' | Inl e \<Rightarrow> io_try (remove_path env TargetRoot ?t) (\<lambda>_. io_fail e))) st = (Inr links', st')"
    using run create_dir_all_settled [OF ok(1,2)] by (simp add: copy_upper_entry_def io_bind_def)
  then obtain st1 where s1: "remove_path env TargetRoot ?t st = (Inr (), st1)"
    and s2: "io_try (place_copy env ?p n links) (\<lambda>r. case r of
      Inr links' \<Rightarrow> io_return links' | Inl e \<Rightarrow> io_try (remove_path env TargetRoot ?t) (\<lambda>_. io_fail e)) st1 = (Inr links', st')"
    by (auto simp: io_bind_Inr)
  obtain r st2 where r: "place_copy env ?p n links st1 = (r, st2)" by (rule prod.exhaust)
  then have st1: "remove_path env TargetRoot ?t st = (Inr (), st1)" "place_copy env ?p n links st1 = (Inr links', st')"
    using s1 s2 by (cases r; auto simp: io_try_def split: prod.splits)+
  have "entries TargetRoot st q = None" if "prefix ?t q" for q
    using tree_ok_gone [OF ok(1), of ?t q] temp(1) that by (cases "q = ?t") (simp_all add: strict_prefix_def)
  then have m1: "entries TargetRoot st1 = entries TargetRoot st"
    using remove_path_entries [OF st1(1) ok(1)] by (simp add: fun_eq_iff)
  show "\<exists>e. content_of e = content_of n \<and> entries TargetRoot st' =
      (\<lambda>q. if q = ?p then Some e else if prefix ?p q then None else entries TargetRoot st q)"
    using place_copy_entries [OF st1(2), unfolded m1, OF ok temp links] .
  show "links' = (if is_linked env ?p n then (in_dev_ino (ae_inodes env) ?p, ?p) # links else links)"
    using st1(2) by (auto simp: place_copy_def io_bind_Inr)
qed

subsection \<open>What one apply relies on\<close>

text \<open>Names that the apply reserves for its temporary files.\<close>

definition reserved :: "string \<Rightarrow> bool" where
  "reserved c = starts_with c ''.pvisor-apply-''"

definition unreserved :: "(path \<Rightarrow> node option) \<Rightarrow> bool" where
  "unreserved m \<longleftrightarrow> (\<forall>p. m p \<noteq> None \<longrightarrow> list_all (\<lambda>c. \<not> reserved c) p)"

lemma unreserved_temporary: "unreserved m \<Longrightarrow> m (apply_temporary_name env p) = None"
  by (cases "m (apply_temporary_name env p)") (auto simp: unreserved_def apply_temporary_name_def reserved_def starts_with_def)

lemma unreserved_not_temporary: "unreserved m \<Longrightarrow> m p \<noteq> None \<Longrightarrow> apply_temporary_name env q \<noteq> p"
  using unreserved_temporary by metis

text \<open>Two names of one inode have one content.\<close>

definition inodes_ok :: "apply_env \<Rightarrow> upper \<Rightarrow> bool" where
  "inodes_ok env u \<longleftrightarrow> (\<forall>p n q k. map_of u p = Some n \<longrightarrow> map_of u q = Some k \<longrightarrow> is_linked env p n \<longrightarrow> is_linked env q k \<longrightarrow>
    in_dev_ino (ae_inodes env) p = in_dev_ino (ae_inodes env) q \<longrightarrow> content_of n = content_of k)"

text \<open>The first name under which a linked file was copied has its content.\<close>

definition links_ok :: "apply_env \<Rightarrow> upper \<Rightarrow> (path \<Rightarrow> node option) \<Rightarrow> links \<Rightarrow> bool" where
  "links_ok env u m links \<longleftrightarrow> (\<forall>p n q. map_of u p = Some n \<longrightarrow> is_linked env p n \<longrightarrow>
    map_of links (in_dev_ino (ae_inodes env) p) = Some q \<longrightarrow> (\<exists>e. m q = Some e \<and> content_of e = content_of n))"

lemma links_ok_cong:
  assumes "links_ok env u m links" "\<And>l. l \<in> set links \<Longrightarrow> map_option content_of (m' (snd l)) = map_option content_of (m (snd l))"
  shows "links_ok env u m' links"
  unfolding links_ok_def
proof (intro allI impI)
  fix p n q assume a: "map_of u p = Some n" "is_linked env p n" "map_of links (in_dev_ino (ae_inodes env) p) = Some q"
  then obtain e where "m q = Some e" "content_of e = content_of n" using assms(1) unfolding links_ok_def by blast
  then show "\<exists>e. m' q = Some e \<and> content_of e = content_of n"
    using assms(2) [OF map_of_SomeD [OF a(3)]] by auto
qed

lemma links_ok_add:
  assumes "links_ok env u m links" "inodes_ok env u" "map_of u p = Some n" "is_linked env p n"
    "m p = Some e" "content_of e = content_of n"
  shows "links_ok env u m ((in_dev_ino (ae_inodes env) p, p) # links)"
  unfolding links_ok_def
proof (intro allI impI)
  fix p' n' q assume a: "map_of u p' = Some n'" "is_linked env p' n'"
    "map_of ((in_dev_ino (ae_inodes env) p, p) # links) (in_dev_ino (ae_inodes env) p') = Some q"
  show "\<exists>e. m q = Some e \<and> content_of e = content_of n'"
  proof (cases "in_dev_ino (ae_inodes env) p' = in_dev_ino (ae_inodes env) p")
    case True
    then have "content_of n = content_of n'" using assms(2-4) a(1,2) unfolding inodes_ok_def by metis
    then show ?thesis using a(3) True assms(5,6) by simp
  next
    case False
    then show ?thesis using a assms(1) unfolding links_ok_def by simp
  qed
qed

definition selects_all :: "upper \<Rightarrow> path list \<Rightarrow> bool" where
  "selects_all u sel \<longleftrightarrow>
    (\<forall>p c. map_of u (p @ [c]) \<noteq> None \<longrightarrow> \<not> is_whiteout_name c \<longrightarrow> p @ [c] \<in> set sel) \<and>
    (\<forall>p. is_opaque u p \<longrightarrow> p \<in> set sel) \<and>
    (\<forall>p c. is_whiteouted u p c \<longrightarrow> validate_name c \<longrightarrow> p @ [c] \<in> set sel)"

definition ready :: "apply_env \<Rightarrow> upper \<Rightarrow> path list \<Rightarrow> bool" where
  "ready env u sel \<longleftrightarrow> upper_ok u \<and> distinct (map fst u) \<and> unreserved (map_of u) \<and> inodes_ok env u \<and> selects_all u sel"

subsection \<open>Entries and directories\<close>

text \<open>The target after one entry of a directory, after some entries, and after a directory.\<close>

definition entry_done ::
  "apply_env \<Rightarrow> upper \<Rightarrow> path \<Rightarrow> string \<Rightarrow> (path \<Rightarrow> node option) \<Rightarrow> links \<Rightarrow> (path \<Rightarrow> node option) \<Rightarrow> links \<Rightarrow> bool"
where
  "entry_done env u rel c m links m' links' \<longleftrightarrow>
    tree_ok m' \<and> links_ok env u m' links' \<and> (\<forall>q. \<not> prefix (rel @ [c]) q \<longrightarrow> m' q = m q) \<and>
    (\<forall>q. m' q \<noteq> None \<longrightarrow> m q \<noteq> None \<or> map_of u q \<noteq> None) \<and>
    (\<forall>l. l \<in> set links' \<longrightarrow> l \<in> set links \<or> prefix (rel @ [c]) (snd l)) \<and>
    (\<forall>s. list_all validate_name s \<longrightarrow> map_option content_of (m' (rel @ c # s)) = shown u m (rel @ c # s))"

definition entries_done ::
  "apply_env \<Rightarrow> upper \<Rightarrow> path \<Rightarrow> string set \<Rightarrow> (path \<Rightarrow> node option) \<Rightarrow> links \<Rightarrow> (path \<Rightarrow> node option) \<Rightarrow> links \<Rightarrow> bool"
where
  "entries_done env u rel C m links m' links' \<longleftrightarrow>
    tree_ok m' \<and> links_ok env u m' links' \<and> (\<forall>q. (\<forall>c \<in> C. \<not> prefix (rel @ [c]) q) \<longrightarrow> m' q = m q) \<and>
    (\<forall>q. m' q \<noteq> None \<longrightarrow> m q \<noteq> None \<or> map_of u q \<noteq> None) \<and>
    (\<forall>l. l \<in> set links' \<longrightarrow> l \<in> set links \<or> (\<exists>c \<in> C. prefix (rel @ [c]) (snd l))) \<and>
    (\<forall>c s. c \<in> C \<longrightarrow> list_all validate_name s \<longrightarrow> map_option content_of (m' (rel @ c # s)) = shown u m (rel @ c # s))"

definition directory_done ::
  "apply_env \<Rightarrow> upper \<Rightarrow> path \<Rightarrow> (path \<Rightarrow> node option) \<Rightarrow> links \<Rightarrow> (path \<Rightarrow> node option) \<Rightarrow> links \<Rightarrow> bool"
where
  "directory_done env u rel m links m' links' \<longleftrightarrow>
    tree_ok m' \<and> links_ok env u m' links' \<and> dir_in m' rel \<and> (\<forall>q. \<not> prefix rel q \<longrightarrow> m' q = m q) \<and>
    (\<forall>q. m' q \<noteq> None \<longrightarrow> m q \<noteq> None \<or> map_of u q \<noteq> None) \<and>
    (\<forall>l. l \<in> set links' \<longrightarrow> l \<in> set links \<or> prefix rel (snd l)) \<and>
    (\<forall>c s. list_all validate_name (c # s) \<longrightarrow> map_option content_of (m' (rel @ c # s)) = shown u m (rel @ c # s))"

lemma tree_ok_replace:
  assumes "tree_ok m" "dir_in m rel"
  shows "tree_ok (\<lambda>q. if q = rel @ [c] then Some e else if prefix (rel @ [c]) q then None else m q)"
proof -
  let ?m = "\<lambda>q. if prefix (rel @ [c]) q then None else m q"
  have "tree_ok ?m" by (rule tree_ok_remove [OF assms(1)]) (auto simp: prefix_snoc)
  then have "tree_ok (?m(rel @ [c] \<mapsto> e))" by (rule tree_ok_put) (use assms(2) in \<open>auto simp: prefix_snoc prefix_def\<close>)
  moreover have "?m(rel @ [c] \<mapsto> e) = (\<lambda>q. if q = rel @ [c] then Some e else if prefix (rel @ [c]) q then None else m q)"
    by (auto simp: fun_eq_iff)
  ultimately show ?thesis by simp
qed

lemma entry_done_file:
  assumes run: "copy_upper_entry env (rel @ [c]) n links st = (Inr links', st')"
    and r: "ready env u sel" and u: "map_of u (rel @ [c]) = Some n" "\<not> is_dir n"
    and m: "tree_ok (entries TargetRoot st)" "unreserved (entries TargetRoot st)" "dir_in (entries TargetRoot st) rel"
    and links: "links_ok env u (entries TargetRoot st) links" "\<And>l. l \<in> set links \<Longrightarrow> \<not> prefix (rel @ [c]) (snd l)"
  shows "entry_done env u rel c (entries TargetRoot st) links (entries TargetRoot st') links'"
proof -
  let ?p = "rel @ [c]" and ?m = "entries TargetRoot st" and ?m' = "entries TargetRoot st'"
  have ok: "upper_ok u" "unreserved (map_of u)" "inodes_ok env u" using r by (simp_all add: ready_def)
  have temp: "?m (apply_temporary_name env ?p) = None" "apply_temporary_name env ?p \<noteq> ?p"
    using unreserved_temporary [OF m(2)] unreserved_not_temporary [OF ok(2), of ?p] u(1) by simp_all
  have content: "\<exists>e. ?m q = Some e \<and> content_of e = content_of n"
    if "is_linked env ?p n" "map_of links (in_dev_ino (ae_inodes env) ?p) = Some q" for q
    using links(1) u(1) that unfolding links_ok_def by blast
  note c = copy_upper_entry_entries [OF run m(1,3) u(2) temp content]
  from c(1) obtain e where e: "content_of e = content_of n"
      "?m' = (\<lambda>q. if q = ?p then Some e else if prefix ?p q then None else ?m q)" by blast
  have "?m' (snd l) = ?m (snd l)" if "l \<in> set links" for l
    using links(2) [OF that] e(2) by (cases "snd l = ?p") simp_all
  then have "links_ok env u ?m' links" by (intro links_ok_cong [OF links(1)]) simp
  then have l: "links_ok env u ?m' links'"
    using c(2) links_ok_add [OF _ ok(3) u(1), of ?m' links e] e by auto
  have "map_option content_of (?m' (rel @ c # s)) = shown u ?m (rel @ c # s)" for s
    using e u(1) shown_upper_file [OF ok(1) u, of s ?m] by (cases "s = []") (auto simp: shown_def prefix_def)
  moreover have "tree_ok ?m'" unfolding e(2) by (rule tree_ok_replace [OF m(1,3)])
  ultimately show ?thesis
    unfolding entry_done_def using l e(2) c(2) u(1) by auto
qed

lemma unreserved_grow: "unreserved m \<Longrightarrow> unreserved (map_of u) \<Longrightarrow> (\<And>q. m' q \<noteq> None \<Longrightarrow> m q \<noteq> None \<or> map_of u q \<noteq> None) \<Longrightarrow> unreserved m'"
  unfolding unreserved_def by blast

lemma entry_done_directory:
  assumes u: "upper_ok u" "directory_at u (rel @ [c])" and m: "tree_ok m" "dir_in m rel"
    and sub: "directory_done env u (rel @ [c]) (m(rel @ [c] \<mapsto> d)) links m2 links'" and n: "is_dir n"
  shows "entry_done env u rel c m links (m2(rel @ [c] \<mapsto> n)) links'"
proof -
  let ?p = "rel @ [c]" and ?m1 = "m(rel @ [c] \<mapsto> d)" and ?m' = "m2(rel @ [c] \<mapsto> n)"
  have d: "tree_ok m2" "links_ok env u m2 links'" "dir_in m2 ?p" "\<And>q. \<not> prefix ?p q \<Longrightarrow> m2 q = ?m1 q"
    "\<And>q. m2 q \<noteq> None \<Longrightarrow> ?m1 q \<noteq> None \<or> map_of u q \<noteq> None" "\<And>l. l \<in> set links' \<Longrightarrow> l \<in> set links \<or> prefix ?p (snd l)"
    and shown: "\<And>e s. list_all validate_name (e # s) \<Longrightarrow> map_option content_of (m2 (?p @ e # s)) = shown u ?m1 (?p @ e # s)"
    using sub unfolding directory_done_def by (blast, blast, blast, metis, metis, metis, metis)
  have up: "map_of u ?p \<noteq> None" using u(2) by (auto simp: directory_at_iff)
  have "dir_in m2 rel" using d(4) [of rel] m(2) by auto
  then have "tree_ok ?m'" using tree_ok_put [OF d(1), of ?p n] n by simp
  moreover have "links_ok env u ?m' links'"
    by (rule links_ok_cong [OF d(2)]) (use d(3) n in \<open>auto simp: content_dir\<close>)
  moreover have "?m' q = m q" if "\<not> prefix ?p q" for q
    using d(4) [OF that] that by auto
  moreover have "m q \<noteq> None \<or> map_of u q \<noteq> None" if "?m' q \<noteq> None" for q
    using d(5) [of q] that up by (cases "q = ?p") auto
  moreover have "map_option content_of (?m' (rel @ c # s)) = shown u m (rel @ c # s)" if "list_all validate_name s" for s
  proof (cases s)
    case Nil
    then show ?thesis using shown_dir [OF u(2), of m] n by (simp add: content_dir)
  next
    case (Cons e s')
    then show ?thesis using shown [of e s'] that shown_cong [of ?m1 "rel @ c # s" m u] by simp
  qed
  ultimately show ?thesis unfolding entry_done_def using d(6) by simp
qed

lemma entries_doneD:
  assumes "entries_done env u rel C m links m' links'"
  shows "tree_ok m'" "links_ok env u m' links'" "(\<And>c. c \<in> C \<Longrightarrow> \<not> prefix (rel @ [c]) q) \<Longrightarrow> m' q = m q"
    "m' q \<noteq> None \<Longrightarrow> m q \<noteq> None \<or> map_of u q \<noteq> None"
    "l \<in> set links' \<Longrightarrow> l \<in> set links \<or> (\<exists>c \<in> C. prefix (rel @ [c]) (snd l))"
    "c \<in> C \<Longrightarrow> list_all validate_name s \<Longrightarrow> map_option content_of (m' (rel @ c # s)) = shown u m (rel @ c # s)"
  using assms unfolding entries_done_def by (metis, metis, metis, metis, metis, metis)

lemma entries_done_Nil: "tree_ok m \<Longrightarrow> links_ok env u m links \<Longrightarrow> entries_done env u rel {} m links m links"
  by (simp add: entries_done_def)

lemma entries_done_insert:
  assumes one: "entry_done env u rel c m links m1 links1" and rest: "entries_done env u rel C m1 links1 m' links'" and c: "c \<notin> C"
  shows "entries_done env u rel (insert c C) m links m' links'"
proof -
  have o: "\<And>q. \<not> prefix (rel @ [c]) q \<Longrightarrow> m1 q = m q" "\<And>q. m1 q \<noteq> None \<Longrightarrow> m q \<noteq> None \<or> map_of u q \<noteq> None"
    "\<And>l. l \<in> set links1 \<Longrightarrow> l \<in> set links \<or> prefix (rel @ [c]) (snd l)"
    "\<And>s. list_all validate_name s \<Longrightarrow> map_option content_of (m1 (rel @ c # s)) = shown u m (rel @ c # s)"
    using one unfolding entry_done_def by (metis, metis, metis, metis)
  note r = entries_doneD [OF rest]
  have shown: "map_option content_of (m' (rel @ e # s)) = shown u m (rel @ e # s)"
    if "e \<in> insert c C" "list_all validate_name s" for e s
  proof (cases "e = c")
    case True
    then have "m' (rel @ e # s) = m1 (rel @ e # s)" using c by (intro r(3)) auto
    then show ?thesis using o(4) [OF that(2)] True by simp
  next
    case False
    then have "m1 (rel @ e # s) = m (rel @ e # s)" by (intro o(1)) simp
    then show ?thesis using r(6) [of e s] that False shown_cong [of m1 "rel @ e # s" m u] by simp
  qed
  have "m' q = m q" if "\<forall>e \<in> insert c C. \<not> prefix (rel @ [e]) q" for q
    using that r(3) [of q] o(1) [of q] by simp
  moreover have "m q \<noteq> None \<or> map_of u q \<noteq> None" if "m' q \<noteq> None" for q
    using r(4) [OF that] o(2) [of q] by blast
  moreover have "l \<in> set links \<or> (\<exists>e \<in> insert c C. prefix (rel @ [e]) (snd l))" if "l \<in> set links'" for l
    using r(5) [OF that] o(3) [of l] by blast
  ultimately show ?thesis unfolding entries_done_def using r(1,2) shown by simp
qed

lemma whiteout_target_Some: "whiteout_target name = Some v \<longleftrightarrow> name = WHITEOUT_PREFIX @ v \<and> v \<noteq> []"
  by (auto simp: whiteout_target_def strip_prefix_def starts_with_iff split: option.splits if_splits)

lemma distinct_upper_entries:
  assumes "distinct (map fst u)"
  shows "distinct (upper_entries u rel)"
proof -
  let ?f = "filter (\<lambda>(p, _). p \<noteq> [] \<and> butlast p = rel) u"
  have "distinct (map fst ?f)" using assms by (simp add: distinct_map_filter)
  moreover have "inj_on last (set (map fst ?f))"
    by (rule inj_onI) (auto, metis append_butlast_last_id)
  ultimately have "distinct (map last (map fst ?f))" by (simp only: distinct_map)
  then show ?thesis by (simp add: upper_entries_def)
qed

text \<open>The target when the entries of a directory have been cleared as the upper directory asks.\<close>

definition cleared :: "upper \<Rightarrow> path list \<Rightarrow> path \<Rightarrow> (path \<Rightarrow> node option) \<Rightarrow> path \<Rightarrow> node option" where
  "cleared u sel rel m = without ((\<lambda>v. rel @ [v]) ` {v. rel @ [v] \<in> set sel \<and>
      (\<exists>name \<in> set (upper_entries u rel). name \<noteq> OPAQUE_NAME \<and> whiteout_target name = Some v)})
    (\<lambda>q. if is_opaque u rel \<and> strict_prefix rel q then None else m q)"

lemma cleared_cong: "m q = m' q \<Longrightarrow> cleared u sel rel m q = cleared u sel rel m' q"
  unfolding cleared_def without_def by (simp only: if_cancel)

lemma cleared_cases: "cleared u sel rel m q = None \<or> cleared u sel rel m q = m q"
  by (simp add: cleared_def without_def)

lemma cleared_outside:
  assumes "\<not> strict_prefix rel q"
  shows "cleared u sel rel m q = m q"
proof -
  have "\<not> prefix (rel @ [v]) q" for v using assms by (auto simp: prefix_def strict_prefix_def)
  then show ?thesis using assms by (auto simp: cleared_def without_def)
qed

lemma tree_ok_cleared: "tree_ok m \<Longrightarrow> tree_ok (cleared u sel rel m)"
  unfolding cleared_def
  by (intro tree_ok_without tree_ok_remove) (auto simp: strict_prefix_def prefix_snoc dest: prefix_length_le)

lemma cleared_name:
  assumes "selects_all u sel" "validate_name c"
  shows "cleared u sel rel m (rel @ c # s) = (if is_whiteouted u rel c \<or> is_opaque u rel then None else m (rel @ c # s))"
proof -
  have "c \<noteq> []" "WHITEOUT_PREFIX @ c \<noteq> OPAQUE_NAME"
    using assms(2) by (auto simp: validate_name_def is_whiteout_name_def starts_with_def OPAQUE_NAME_def WHITEOUT_PREFIX_def)
  then have name: "(\<exists>name \<in> set (upper_entries u rel). name \<noteq> OPAQUE_NAME \<and> whiteout_target name = Some c) \<longleftrightarrow> is_whiteouted u rel c"
    unfolding whiteout_target_Some is_whiteouted_def whiteout_path_def upper_entries_iff [symmetric] by blast
  have sel: "is_whiteouted u rel c \<Longrightarrow> rel @ [c] \<in> set sel" using assms unfolding selects_all_def by blast
  let ?V = "{v. rel @ [v] \<in> set sel \<and>
      (\<exists>name \<in> set (upper_entries u rel). name \<noteq> OPAQUE_NAME \<and> whiteout_target name = Some v)}"
  have "c \<in> ?V \<longleftrightarrow> is_whiteouted u rel c" using name sel by auto
  then have "(\<exists>v \<in> ?V. prefix (rel @ [v]) (rel @ c # s)) \<longleftrightarrow> is_whiteouted u rel c" by simp
  then show ?thesis unfolding cleared_def without_def bex_simps by (simp add: strict_prefix_def)
qed

lemma shown_cleared:
  assumes ok: "upper_ok u" "selects_all u sel" "tree_ok m" "hidden_ok u m rel"
    and c: "validate_name c" "map_of u (rel @ [c]) = Some n"
  shows "shown u (cleared u sel rel m) (rel @ c # s) = shown u m (rel @ c # s)"
proof -
  have w: "\<not> is_whiteouted u rel c"
    using ok(1) c map_ok_whiteout [of "map_of u" rel c] by (auto simp: upper_ok_map is_whiteouted_def)
  note q = cleared_name [OF ok(2) c(1), of rel m s]
  show ?thesis
  proof (cases "is_opaque u rel")
    case False
    then show ?thesis using q w by (intro shown_cong) simp
  next
    case True
    then have none: "cleared u sel rel m (rel @ c # s) = None" using q by simp
    show ?thesis
    proof (cases "is_dir n")
      case True
      then have "directory_at u (rel @ [c])" using c(2) by (simp add: directory_at_iff)
      from shown_opaque [OF ok(1,3,4) \<open>is_opaque u rel\<close> _ this, of s] show ?thesis
        using none shown_cong [of "cleared u sel rel m" "rel @ c # s" "\<lambda>_. None" u] by simp
    next
      case False
      then show ?thesis using shown_upper_file [OF ok(1) c(2) False, of s] c(2) by (cases "s = []") (auto simp: shown_def)
    qed
  qed
qed

lemma directory_done_entries:
  assumes r: "ready env u sel" and u: "directory_at u rel" and m: "tree_ok m" "hidden_ok u m rel"
    and d: "is_dir d" "m1 = m(rel \<mapsto> d)"
    and sub: "entries_done env u rel {c \<in> set (upper_entries u rel). \<not> is_whiteout_name c} (cleared u sel rel m1) links m' links'"
  shows "directory_done env u rel m links m' links'"
proof -
  let ?C = "{c \<in> set (upper_entries u rel). \<not> is_whiteout_name c}" and ?m3 = "cleared u sel rel m1"
  have ok: "upper_ok u" "selects_all u sel" using r by (simp_all add: ready_def)
  note e = entries_doneD [OF sub]
  have below: "prefix rel q" if "prefix (rel @ [c]) q" for c q using that by (auto simp: prefix_def)
  have m3: "?m3 (rel @ c # s) = cleared u sel rel m (rel @ c # s)" for c s
    using d(2) by (intro cleared_cong) simp
  have frame: "m' q = m1 q" if "\<not> strict_prefix rel q" for q
  proof -
    have "\<not> prefix (rel @ [c]) q" for c using that by (auto simp: prefix_def strict_prefix_def)
    then show ?thesis using e(3) [of q] cleared_outside [OF that] by simp
  qed
  have dir: "dir_in m' rel" using frame [of rel] d by (auto simp: strict_prefix_def)
  have out: "m' q = m q" if "\<not> prefix rel q" for q
    using frame [of q] that d(2) by (auto simp: strict_prefix_def)
  have dom: "m q \<noteq> None \<or> map_of u q \<noteq> None" if "m' q \<noteq> None" for q
    using e(4) [OF that] cleared_cases [of u sel rel m1 q] d(2) u by (auto simp: directory_at_iff split: if_splits)
  have shown: "map_option content_of (m' (rel @ c # s)) = shown u m (rel @ c # s)" if v: "list_all validate_name (c # s)" for c s
  proof (cases "map_of u (rel @ [c])")
    case None
    then have "c \<notin> ?C" by (simp add: upper_entries_iff)
    then have "m' (rel @ c # s) = ?m3 (rel @ c # s)" by (intro e(3)) auto
    then have "m' (rel @ c # s) = cleared u sel rel m (rel @ c # s)" using m3 by simp
    then show ?thesis using shown_lower [OF ok(1) u None] cleared_name [OF ok(2), of c rel m s] v by simp
  next
    case (Some n)
    then have "c \<in> ?C" using v by (simp add: upper_entries_iff)
    then have "map_option content_of (m' (rel @ c # s)) = shown u ?m3 (rel @ c # s)" using e(6) v by simp
    also have "\<dots> = shown u (cleared u sel rel m) (rel @ c # s)" by (rule shown_cong) (rule m3)
    also have "\<dots> = shown u m (rel @ c # s)" using shown_cleared [OF ok m _ Some] v by simp
    finally show ?thesis .
  qed
  show ?thesis unfolding directory_done_def using e(1,2,5) dir out dom shown below by blast
qed

text \<open>The steps before the entries of a directory.\<close>

lemma directory_phases:
  assumes run: "apply_selected_directory env u sel rel links st = (Inr links', st')"
    and sel: "selects_all u sel" and m: "tree_ok (entries TargetRoot st)" "rel = [] \<or> dir_in (entries TargetRoot st) (butlast rel)"
  obtains d st3 where "is_dir d" "entries TargetRoot st3 = cleared u sel rel ((entries TargetRoot st)(rel \<mapsto> d))"
    "tree_ok (entries TargetRoot st3)" "apply_entries env u sel rel (upper_entries u rel) links st3 = (Inr links', st')"
proof -
  from run obtain s1 s2 s3 where s1: "ensure_directory env rel st = (Inr (), s1)"
    and s2: "(if is_opaque u rel \<and> rel \<in> set sel then clear_directory env rel else io_return ()) s1 = (Inr (), s2)"
    and s3: "apply_whiteouts env sel rel (upper_entries u rel) s2 = (Inr (), s3)"
    and s4: "apply_entries env u sel rel (upper_entries u rel) links s3 = (Inr links', st')"
    by (auto simp: io_bind_Inr)
  obtain d where d: "is_dir d" "entries TargetRoot s1 = (entries TargetRoot st)(rel \<mapsto> d)"
    using ensure_directory_entries [OF s1 m] by blast
  have ok1: "tree_ok (entries TargetRoot s1)"
  proof (cases "rel = []")
    case True
    then show ?thesis unfolding d(2) using m(1) d(1) unfolding tree_ok_def by auto
  next
    case False
    then show ?thesis unfolding d(2) using tree_ok_put [OF m(1) False] m(2) d(1) by blast
  qed
  have m2: "entries TargetRoot s2 = (\<lambda>q. if is_opaque u rel \<and> strict_prefix rel q then None else entries TargetRoot s1 q)"
  proof (cases "is_opaque u rel")
    case True
    then have "rel \<in> set sel" using sel unfolding selects_all_def by blast
    then show ?thesis using clear_directory_entries [OF _ ok1, of env rel "()" s2] s2 True by simp
  qed (use s2 in \<open>simp add: fun_eq_iff\<close>)
  have ok2: "tree_ok (entries TargetRoot s2)"
    unfolding m2 by (rule tree_ok_remove [OF ok1]) (auto simp: strict_prefix_def prefix_snoc dest: prefix_length_le)
  have m3: "entries TargetRoot s3 = cleared u sel rel (entries TargetRoot s1)"
    using apply_whiteouts_entries [OF s3 ok2] unfolding m2 cleared_def .
  show thesis
    by (rule that [OF d(1) m3 [unfolded d(2)] _ s4]) (unfold m3, rule tree_ok_cleared [OF ok1])
qed

lemma hidden_ok_below:
  assumes "hidden_ok u m rel" "\<And>c s. m' (rel @ c # s) = None \<or> m' (rel @ c # s) = m (rel @ c # s)"
  shows "hidden_ok u m' (rel @ [c])"
  unfolding hidden_ok_def
proof (intro allI impI)
  fix p e d assume a: "prefix (rel @ [c]) p" "is_opaque u p" "directory_at u (p @ [e])" "\<not> is_opaque u (p @ [e])"
  obtain s where p: "p = rel @ c # s" using a(1) by (auto simp: prefix_def)
  then have "prefix rel p" by simp
  then have "m (p @ [e, d]) = None" using assms(1) a(2-4) unfolding hidden_ok_def by blast
  then show "m' (p @ [e, d]) = None" using assms(2) [of c "s @ [e, d]"] p by auto
qed

text \<open>A successful run on a directory does what \<open>directory_done\<close> says, one on entries what \<open>entries_done\<close> says.\<close>

definition directory_run :: "apply_env \<Rightarrow> upper \<Rightarrow> path list \<Rightarrow> path \<Rightarrow> links \<Rightarrow> bool" where
  "directory_run env u sel rel links \<longleftrightarrow> (\<forall>st links' st'.
    ready env u sel \<longrightarrow> apply_selected_directory env u sel rel links st = (Inr links', st') \<longrightarrow> directory_at u rel \<longrightarrow>
    tree_ok (entries TargetRoot st) \<longrightarrow> unreserved (entries TargetRoot st) \<longrightarrow>
    rel = [] \<or> dir_in (entries TargetRoot st) (butlast rel) \<longrightarrow> hidden_ok u (entries TargetRoot st) rel \<longrightarrow>
    links_ok env u (entries TargetRoot st) links \<longrightarrow> (\<forall>l \<in> set links. \<not> prefix rel (snd l)) \<longrightarrow>
    directory_done env u rel (entries TargetRoot st) links (entries TargetRoot st') links')"

definition entries_run :: "apply_env \<Rightarrow> upper \<Rightarrow> path list \<Rightarrow> path \<Rightarrow> string list \<Rightarrow> links \<Rightarrow> bool" where
  "entries_run env u sel rel names links \<longleftrightarrow> (\<forall>st links' st'.
    ready env u sel \<longrightarrow> apply_entries env u sel rel names links st = (Inr links', st') \<longrightarrow> directory_at u rel \<longrightarrow>
    tree_ok (entries TargetRoot st) \<longrightarrow> unreserved (entries TargetRoot st) \<longrightarrow> dir_in (entries TargetRoot st) rel \<longrightarrow>
    (\<forall>c \<in> set names. hidden_ok u (entries TargetRoot st) (rel @ [c])) \<longrightarrow> links_ok env u (entries TargetRoot st) links \<longrightarrow>
    (\<forall>l \<in> set links. \<forall>c \<in> set names. \<not> prefix (rel @ [c]) (snd l)) \<longrightarrow> distinct names \<longrightarrow>
    entries_done env u rel {c \<in> set names. \<not> is_whiteout_name c} (entries TargetRoot st) links (entries TargetRoot st') links')"

lemma directory_run_step:
  assumes sub: "entries_run env u sel rel (upper_entries u rel) links"
  shows "directory_run env u sel rel links"
  unfolding directory_run_def
proof (intro allI impI)
  fix st links' st'
  let ?m = "entries TargetRoot st"
  assume r: "ready env u sel" and run: "apply_selected_directory env u sel rel links st = (Inr links', st')"
    and u: "directory_at u rel" and m: "tree_ok ?m" "unreserved ?m" "rel = [] \<or> dir_in ?m (butlast rel)" "hidden_ok u ?m rel"
    and links: "links_ok env u ?m links" "\<forall>l \<in> set links. \<not> prefix rel (snd l)"
  have ok: "upper_ok u" "distinct (map fst u)" "unreserved (map_of u)" "selects_all u sel" using r by (simp_all add: ready_def)
  obtain d st3 where d: "is_dir d" "entries TargetRoot st3 = cleared u sel rel (?m(rel \<mapsto> d))" "tree_ok (entries TargetRoot st3)"
      "apply_entries env u sel rel (upper_entries u rel) links st3 = (Inr links', st')"
    using directory_phases [OF run ok(4) m(1,3)] by blast
  let ?m3 = "cleared u sel rel (?m(rel \<mapsto> d))"
  have out: "?m3 q = (?m(rel \<mapsto> d)) q" if "\<not> strict_prefix rel q" for q by (rule cleared_outside [OF that])
  have "unreserved ?m3"
  proof (rule unreserved_grow [OF m(2) ok(3)])
    fix q assume "?m3 q \<noteq> None"
    then have "(?m(rel \<mapsto> d)) q \<noteq> None" using cleared_cases [of u sel rel "?m(rel \<mapsto> d)" q] by auto
    then show "?m q \<noteq> None \<or> map_of u q \<noteq> None" using u by (auto simp: directory_at_iff split: if_splits)
  qed
  moreover have "dir_in ?m3 rel" using out [of rel] d(1) by (simp add: strict_prefix_def)
  moreover have "hidden_ok u ?m3 (rel @ [c])" for c
    by (rule hidden_ok_below [OF m(4)]) (use cleared_cases [of u sel rel "?m(rel \<mapsto> d)"] in fastforce)
  moreover have "links_ok env u ?m3 links"
  proof (rule links_ok_cong [OF links(1)])
    fix l assume "l \<in> set links"
    then have "\<not> prefix rel (snd l)" using links(2) by blast
    then show "map_option content_of (?m3 (snd l)) = map_option content_of (?m (snd l))"
      using out [of "snd l"] by (auto simp: strict_prefix_def)
  qed
  moreover have "\<forall>l \<in> set links. \<forall>c \<in> set (upper_entries u rel). \<not> prefix (rel @ [c]) (snd l)"
    using links(2) by (auto simp: prefix_def)
  ultimately have "entries_done env u rel {c \<in> set (upper_entries u rel). \<not> is_whiteout_name c} ?m3 links (entries TargetRoot st') links'"
    using sub [unfolded entries_run_def, rule_format, of st3 links' st', unfolded d(2)] r d u distinct_upper_entries [OF ok(2)] by simp
  then show "directory_done env u rel ?m links (entries TargetRoot st') links'"
    by (rule directory_done_entries [OF r u m(1,4) d(1) refl])
qed

lemma entries_run_step:
  assumes name: "\<not> is_whiteout_name name" and rest: "\<And>links1. entries_run env u sel rel names links1"
    and one: "\<And>st links' st'. ready env u sel \<Longrightarrow> apply_entries env u sel rel (name # names) links st = (Inr links', st') \<Longrightarrow>
      directory_at u rel \<Longrightarrow> tree_ok (entries TargetRoot st) \<Longrightarrow> unreserved (entries TargetRoot st) \<Longrightarrow>
      dir_in (entries TargetRoot st) rel \<Longrightarrow> hidden_ok u (entries TargetRoot st) (rel @ [name]) \<Longrightarrow>
      links_ok env u (entries TargetRoot st) links \<Longrightarrow> (\<And>l. l \<in> set links \<Longrightarrow> \<not> prefix (rel @ [name]) (snd l)) \<Longrightarrow>
      \<exists>st1 links1. entry_done env u rel name (entries TargetRoot st) links (entries TargetRoot st1) links1 \<and>
        apply_entries env u sel rel names links1 st1 = (Inr links', st')"
  shows "entries_run env u sel rel (name # names) links"
  unfolding entries_run_def
proof (intro allI impI)
  fix st links' st'
  let ?m = "entries TargetRoot st"
  assume r: "ready env u sel" and run: "apply_entries env u sel rel (name # names) links st = (Inr links', st')"
    and u: "directory_at u rel" and m: "tree_ok ?m" "unreserved ?m" "dir_in ?m rel"
    and h: "\<forall>c \<in> set (name # names). hidden_ok u ?m (rel @ [c])" and links: "links_ok env u ?m links"
    and out: "\<forall>l \<in> set links. \<forall>c \<in> set (name # names). \<not> prefix (rel @ [c]) (snd l)" and dist: "distinct (name # names)"
  obtain st1 links1 where e: "entry_done env u rel name ?m links (entries TargetRoot st1) links1"
    and more: "apply_entries env u sel rel names links1 st1 = (Inr links', st')"
    using one [OF r run u m _ links] h out by auto
  let ?m1 = "entries TargetRoot st1"
  have frame: "\<And>q. \<not> prefix (rel @ [name]) q \<Longrightarrow> ?m1 q = ?m q" and dom: "\<And>q. ?m1 q \<noteq> None \<Longrightarrow> ?m q \<noteq> None \<or> map_of u q \<noteq> None"
    and new: "\<And>l. l \<in> set links1 \<Longrightarrow> l \<in> set links \<or> prefix (rel @ [name]) (snd l)"
    and ok1: "tree_ok ?m1" "links_ok env u ?m1 links1"
    using e unfolding entry_done_def by (metis, metis, metis, metis, metis)
  have other: "\<not> prefix (rel @ [name]) (rel @ c # s)" if "c \<in> set names" for c s using that dist by auto
  have "unreserved ?m1" by (rule unreserved_grow [OF m(2) _ dom]) (use r in \<open>simp_all add: ready_def\<close>)
  moreover have "dir_in ?m1 rel" using frame [of rel] m(3) by simp
  moreover have "hidden_ok u ?m1 (rel @ [c])" if "c \<in> set names" for c
    unfolding hidden_ok_def
  proof (intro allI impI)
    fix p x d assume a: "prefix (rel @ [c]) p" "is_opaque u p" "directory_at u (p @ [x])" "\<not> is_opaque u (p @ [x])"
    then obtain s where "p = rel @ c # s" by (auto simp: prefix_def)
    then have "?m1 (p @ [x, d]) = ?m (p @ [x, d])" using frame other [OF that] by simp
    then show "?m1 (p @ [x, d]) = None" using h that a unfolding hidden_ok_def by simp
  qed
  moreover have "\<not> prefix (rel @ [c]) (snd l)" if "l \<in> set links1" "c \<in> set names" for l c
    using new [OF that(1)] out that(2) dist other [OF that(2)] by (auto simp: prefix_def)
  ultimately have "entries_done env u rel {c \<in> set names. \<not> is_whiteout_name c} ?m1 links1 (entries TargetRoot st') links'"
    using rest [unfolded entries_run_def, rule_format, of links1 st1 links' st'] r more u ok1 dist by simp
  from entries_done_insert [OF e this]
  have "entries_done env u rel (insert name {c \<in> set names. \<not> is_whiteout_name c}) ?m links (entries TargetRoot st') links'"
    using dist by simp
  moreover have "insert name {c \<in> set names. \<not> is_whiteout_name c} = {c \<in> set (name # names). \<not> is_whiteout_name c}"
    using name by auto
  ultimately show "entries_done env u rel {c \<in> set (name # names). \<not> is_whiteout_name c} ?m links (entries TargetRoot st') links'"
    by simp
qed

lemma entry_of_directory:
  assumes run: "apply_entries env u sel rel (name # names) links st = (Inr links', st')"
    and sub: "directory_run env u sel (rel @ [name]) links"
    and u: "\<not> is_whiteout_name name" "map_of u (rel @ [name]) = Some n" "is_dir n" and r: "ready env u sel"
    and m: "tree_ok (entries TargetRoot st)" "unreserved (entries TargetRoot st)" "dir_in (entries TargetRoot st) rel"
      "hidden_ok u (entries TargetRoot st) (rel @ [name])"
    and links: "links_ok env u (entries TargetRoot st) links" "\<And>l. l \<in> set links \<Longrightarrow> \<not> prefix (rel @ [name]) (snd l)"
  shows "\<exists>st1 links1. entry_done env u rel name (entries TargetRoot st) links (entries TargetRoot st1) links1 \<and>
    apply_entries env u sel rel names links1 st1 = (Inr links', st')"
proof -
  let ?p = "rel @ [name]" and ?m = "entries TargetRoot st"
  have ok: "upper_ok u" "unreserved (map_of u)" using r by (simp_all add: ready_def)
  have sel: "?p \<in> set sel" using r u unfolding ready_def selects_all_def by blast
  from run u sel obtain s1 s2 s3 links1 where s1: "ensure_directory env ?p st = (Inr (), s1)"
    and s2: "apply_selected_directory env u sel ?p links s1 = (Inr links1, s2)"
    and s3: "copy_host_metadata env n ?p s2 = (Inr (), s3)" and s4: "apply_entries env u sel rel names links1 s3 = (Inr links', st')"
    by (auto simp: io_bind_Inr must_enter_def simp del: apply_selected_directory.simps)
  have up: "directory_at u ?p" using u by (simp add: directory_at_iff)
  obtain d where d: "is_dir d" "entries TargetRoot s1 = ?m(?p \<mapsto> d)"
    using ensure_directory_entries [OF s1 m(1)] m(3) by auto
  have "tree_ok (?m(?p \<mapsto> d))" using tree_ok_put [OF m(1), of ?p d] m(3) d(1) by simp
  moreover have "unreserved (?m(?p \<mapsto> d))"
    by (rule unreserved_grow [OF m(2) ok(2)]) (use u in \<open>auto split: if_splits\<close>)
  moreover have "dir_in (?m(?p \<mapsto> d)) (butlast ?p)" using m(3) by simp
  moreover have "hidden_ok u (?m(?p \<mapsto> d)) ?p" using m(4) unfolding hidden_ok_def by (auto simp: prefix_def)
  moreover have "links_ok env u (?m(?p \<mapsto> d)) links"
  proof (rule links_ok_cong [OF links(1)])
    fix l assume "l \<in> set links"
    then have "\<not> prefix ?p (snd l)" by (rule links(2))
    then have "snd l \<noteq> ?p" by auto
    then show "map_option content_of ((?m(?p \<mapsto> d)) (snd l)) = map_option content_of (?m (snd l))" by simp
  qed
  ultimately have dd: "directory_done env u ?p (?m(?p \<mapsto> d)) links (entries TargetRoot s2) links1"
    using sub [unfolded directory_run_def, rule_format, of s1 links1 s2, unfolded d(2)] r s2 up links(2) by blast
  then obtain n0 where n0: "entries TargetRoot s2 ?p = Some n0" "is_dir n0" unfolding directory_done_def by blast
  obtain n' where n': "is_dir n'" "entries TargetRoot s3 = (entries TargetRoot s2)(?p \<mapsto> n')"
    using copy_host_metadata_entries [OF s3 n0(1)] n0(2) by auto
  have "entry_done env u rel name ?m links (entries TargetRoot s3) links1"
    unfolding n'(2) by (rule entry_done_directory [OF ok(1) up m(1,3) dd n'(1)])
  then show ?thesis using s4 by blast
qed

lemma entry_of_file:
  assumes run: "apply_entries env u sel rel (name # names) links st = (Inr links', st')"
    and u: "\<not> is_whiteout_name name" "map_of u (rel @ [name]) = Some n" "\<not> is_dir n" and r: "ready env u sel"
    and m: "tree_ok (entries TargetRoot st)" "unreserved (entries TargetRoot st)" "dir_in (entries TargetRoot st) rel"
    and links: "links_ok env u (entries TargetRoot st) links" "\<And>l. l \<in> set links \<Longrightarrow> \<not> prefix (rel @ [name]) (snd l)"
  shows "\<exists>st1 links1. entry_done env u rel name (entries TargetRoot st) links (entries TargetRoot st1) links1 \<and>
    apply_entries env u sel rel names links1 st1 = (Inr links', st')"
proof -
  have "rel @ [name] \<in> set sel" using r u unfolding ready_def selects_all_def by blast
  with run u obtain s1 links1 where s: "copy_upper_entry env (rel @ [name]) n links st = (Inr links1, s1)"
      "apply_entries env u sel rel names links1 s1 = (Inr links', st')"
    by (auto simp: io_bind_Inr)
  show ?thesis using entry_done_file [OF s(1) r u(2,3) m links] s(2) by blast
qed

lemma apply_runs:
  "directory_run env u sel rel links" "entries_run env u sel rel' names links'"
proof (induction env u sel rel links and env u sel rel' names links' rule: apply_selected_directory_apply_entries.induct)
  case (1 env u sel rel links)
  then show ?case by (rule directory_run_step)
next
  case (2 env u sel rel links)
  then show ?case by (auto simp: entries_run_def intro!: entries_done_Nil)
next
  case (3 env u sel rel name names links)
  show ?case
  proof (cases "is_whiteout_name name")
    case True
    have "{c \<in> set (name # names). \<not> is_whiteout_name c} = {c \<in> set names. \<not> is_whiteout_name c}" using True by auto
    then show ?thesis using 3(1) [OF True] True unfolding entries_run_def by simp
  next
    case name: False
    show ?thesis
    proof (cases "map_of u (rel @ [name])")
      case None
      then show ?thesis using name by (simp add: entries_run_def)
    next
      case (Some n)
      show ?thesis
      proof (cases "rel @ [name] \<in> set sel")
        case False
        then show ?thesis using Some name unfolding entries_run_def ready_def selects_all_def by blast
      next
        case True
        then have enter: "must_enter sel (rel @ [name])" by (simp add: must_enter_def)
        show ?thesis
        proof (cases "is_dir n")
          case dir: True
          show ?thesis
            by (rule entries_run_step [OF name 3(3) [OF name Some dir enter]],
                rule entry_of_directory [OF _ 3(2) [OF name Some dir enter] name Some dir])
        next
          case leaf: False
          show ?thesis
            by (rule entries_run_step [OF name 3(5) [OF name Some leaf True]], rule entry_of_file [OF _ name Some leaf])
        qed
      qed
    qed
  qed
qed

lemma apply_selected_upper_entries:
  assumes run: "apply_selected_upper env u sel st = (Inr x, st')" and r: "ready env u sel"
    and m: "tree_ok (entries TargetRoot st)" "unreserved (entries TargetRoot st)" "hidden_ok u (entries TargetRoot st) []"
    and q: "list_all validate_name q"
  shows "map_option content_of (entries TargetRoot st' q) = shown u (entries TargetRoot st) q"
proof -
  have root: "directory_at u []" using r by (simp add: ready_def upper_ok_def)
  from run obtain s1 links where s1: "ensure_directory env [] st = (Inr (), s1)"
    and s2: "apply_selected_directory env u sel [] [] s1 = (Inr links, st')"
    by (auto simp: apply_selected_upper_def io_bind_Inr simp del: apply_selected_directory.simps)
  have "s1 = st" using s1 tree_ok_root [OF m(1)] by (auto simp: ensure_directory_def io_read_def)
  then have d: "directory_done env u [] (entries TargetRoot st) [] (entries TargetRoot st') links"
    using apply_runs(1) [of env u sel "[]" "[]"] r s2 root m unfolding directory_run_def links_ok_def by simp
  show ?thesis
  proof (cases q)
    case Nil
    have "dir_in (entries TargetRoot st') []" using d unfolding directory_done_def by blast
    then show ?thesis using Nil shown_dir [OF root] by (auto simp: content_dir)
  next
    case (Cons c s)
    then show ?thesis using d q unfolding directory_done_def by (metis append_Nil)
  qed
qed

subsection \<open>The plan of every change\<close>

lemma change_at: "(rel, n) \<in> set (walk_upper u) \<Longrightarrow> c \<in> set (change_of lowers (rel, n)) \<Longrightarrow> directory_at u [] \<Longrightarrow>
    ch_path c \<in> ch_path ` set (overlay_changes lowers u)"
  by (auto simp: overlay_changes_def)

lemma walk_upper_names:
  assumes "upper_ok u" "map_of u (p @ [c]) = Some n"
  shows "(p @ [c], n) \<in> set (walk_upper u)"
proof -
  note t = upper_tree [OF assms(1)]
  have "\<not> is_whiteout_name e" if "e \<in> set p" for e
  proof -
    from that obtain ys zs where p: "p = ys @ e # zs" by (meson split_list)
    have "strict_prefix (ys @ [e]) (p @ [c])" unfolding p by (simp add: strict_prefix_def)
    then obtain d where "map_of u (ys @ [e]) = Some d" "is_dir d"
      using tree_ok_prefix [OF t, of "p @ [c]" "ys @ [e]"] assms(2) by auto
    then show ?thesis using map_ok_marker [of "map_of u" ys e d] assms(1) by (auto simp: upper_ok_map)
  qed
  then show ?thesis using map_of_SomeD [OF assms(2)] by (simp add: walk_upper_def list_all_iff)
qed

lemma everything_selected:
  assumes u: "upper_ok u" "\<And>n. map_of u [] = Some n \<Longrightarrow> \<not> xattr_opaque n"
    and sel: "set sel = ch_path ` set (overlay_changes lowers u)"
  shows "selects_all u sel"
proof -
  have root: "directory_at u []" using u(1) by (simp add: upper_ok_def)
  have entry: "p @ [c] \<in> set sel" if "map_of u (p @ [c]) = Some n" "\<not> is_whiteout_name c" for p c n
  proof -
    note prems = that
    obtain e where "e \<in> set (change_of lowers (p @ [c], n))" "ch_path e = p @ [c]"
      using prems(2) by (simp add: change_of_def Let_def)
    then show ?thesis using change_at [OF walk_upper_names [OF u(1) prems(1)] _ root] sel by metis
  qed
  have marker: "p \<in> set sel" if "map_of u (p @ [OPAQUE_NAME]) = Some n" for p n
  proof -
    obtain e where "e \<in> set (change_of lowers (p @ [OPAQUE_NAME], n))" "ch_path e = p"
      by (simp add: change_of_def)
    then show ?thesis using change_at [OF walk_upper_names [OF u(1) that] _ root] sel by metis
  qed
  have white: "p @ [c] \<in> set sel" if "is_whiteouted u p c" "validate_name c" for p c
  proof -
    note prems = that
    obtain n where n: "map_of u (p @ [WHITEOUT_PREFIX @ c]) = Some n"
      using prems(1) by (auto simp: is_whiteouted_def whiteout_path_def)
    have "c \<noteq> []" "WHITEOUT_PREFIX @ c \<noteq> OPAQUE_NAME"
      using that(2) by (auto simp: validate_name_def is_whiteout_name_def starts_with_def OPAQUE_NAME_def WHITEOUT_PREFIX_def)
    then have "whiteout_target (WHITEOUT_PREFIX @ c) = Some c" by (simp add: whiteout_target_Some)
    then obtain e where "e \<in> set (change_of lowers (p @ [WHITEOUT_PREFIX @ c], n))" "ch_path e = p @ [c]"
      using \<open>WHITEOUT_PREFIX @ c \<noteq> OPAQUE_NAME\<close> by (simp add: change_of_def)
    then show ?thesis using change_at [OF walk_upper_names [OF u(1) n] _ root] sel by metis
  qed
  have opaque: "p \<in> set sel" if "is_opaque u p" for p
  proof (cases "map_of u (p @ [OPAQUE_NAME])")
    case None
    then obtain m where m: "map_of u p = Some (DirNode m True)"
      using \<open>is_opaque u p\<close> by (auto simp: is_opaque_def split: option.splits node.splits bool.splits)
    then obtain q c where p: "p = q @ [c]" using u(2) by (cases p rule: rev_cases) auto
    then have "\<not> is_whiteout_name c" using map_ok_marker [of "map_of u" q c] u(1) m by (auto simp: upper_ok_map)
    then show ?thesis using entry m p by blast
  qed (rule marker)
  show ?thesis unfolding selects_all_def using entry opaque white by blast
qed

end
