(* ===== verification/ApplyResult.thy ===== *)
theory ApplyResult
  imports ApplyView
begin

section \<open>What an apply leaves behind\<close>

text \<open>
  The whole of \<open>apply_overlay\<close>: a successful apply of everything gives the target the tree that the overlay
  showed, empties the upper directory and records the overlay as applied. Together with the refinement
  of the overlay by a tree, a run on the overlay and its apply are the run on the target itself.
\<close>

subsection \<open>Pruning the upper directory\<close>

text \<open>Names as the overlay makes them.\<close>

definition upper_name :: "string \<Rightarrow> bool" where
  "upper_name c \<longleftrightarrow> validate_name c \<or> c = OPAQUE_NAME \<or> (starts_with c WHITEOUT_PREFIX \<and> validate_name (drop (length WHITEOUT_PREFIX) c))"

definition upper_names :: "upper \<Rightarrow> bool" where
  "upper_names u = list_all (\<lambda>(p, _). p = [] \<or> upper_name (last p)) u"

lemma upper_namesD: "upper_names u \<Longrightarrow> map_of u (p @ [c]) = Some n \<Longrightarrow> upper_name c"
  using map_of_SomeD [of u "p @ [c]" n] by (auto simp: upper_names_def list_all_iff)

lemma sys_remove_tree:
  assumes "sys env r (u_remove_tree p) st = (Inr x, st')"
  shows "entries r st' = (\<lambda>q. if prefix p q then None else entries r st q)"
  using sys_Inr [OF assms] by (auto simp: u_remove_tree_def map_of_remove_tree)

lemma remove_selected_entries:
  assumes "remove_selected env sel logical p st = (Inr x, st')" "logical \<in> set sel" "tree_ok (entries UpperRoot st)"
  shows "entries UpperRoot st' = (\<lambda>q. if prefix p q then None else entries UpperRoot st q)"
  using remove_path_entries [of env UpperRoot p st x st'] assms by (simp add: remove_selected_def)

lemma clear_opaque_entries:
  assumes "clear_opaque_xattrs env rel st = (Inr x, st')" "dir_in (entries UpperRoot st) rel"
  shows "\<exists>d. is_dir d \<and> entries UpperRoot st' = (entries UpperRoot st)(rel \<mapsto> d)"
proof -
  obtain m b where d: "map_of (sg_upper st) rel = Some (DirNode m b)"
    using assms(2) by (auto elim: is_dir.elims)
  show ?thesis
  proof (cases b)
    case True
    then have "sys env UpperRoot (\<lambda>u. Inr (AList.update rel (DirNode m False) u)) st = (Inr x, st')"
      using assms(1) d by (simp add: clear_opaque_xattrs_def io_read_def)
    from sys_Inr [OF this] have "sg_upper st' = AList.update rel (DirNode m False) (sg_upper st)" by simp
    then show ?thesis by (intro exI [of _ "DirNode m False"]) (simp add: update_conv')
  next
    case False
    then have "st' = st" using assms(1) d by (simp add: clear_opaque_xattrs_def io_read_def)
    then show ?thesis using d by (intro exI [of _ "DirNode m b"]) (simp add: fun_upd_idem)
  qed
qed

definition prunable :: "upper \<Rightarrow> path list \<Rightarrow> bool" where
  "prunable u sel \<longleftrightarrow> upper_ok u \<and> distinct (map fst u) \<and> upper_names u \<and> selects_all u sel"

definition prune_directory_run :: "apply_env \<Rightarrow> upper \<Rightarrow> path list \<Rightarrow> path \<Rightarrow> bool" where
  "prune_directory_run env u sel rel \<longleftrightarrow> (\<forall>st st'. prunable u sel \<longrightarrow>
    prune_selected_directory env u sel rel st = (Inr (), st') \<longrightarrow> directory_at u rel \<longrightarrow> tree_ok (entries UpperRoot st) \<longrightarrow>
    (\<forall>q. prefix rel q \<longrightarrow> entries UpperRoot st q = map_of u q) \<longrightarrow>
    tree_ok (entries UpperRoot st') \<and> dir_in (entries UpperRoot st') rel \<and>
    (\<forall>q. \<not> prefix rel q \<longrightarrow> entries UpperRoot st' q = entries UpperRoot st q) \<and>
    (\<forall>q. strict_prefix rel q \<longrightarrow> entries UpperRoot st' q = None))"

definition prune_entries_run :: "apply_env \<Rightarrow> upper \<Rightarrow> path list \<Rightarrow> path \<Rightarrow> string list \<Rightarrow> bool" where
  "prune_entries_run env u sel rel names \<longleftrightarrow> (\<forall>st st'. prunable u sel \<longrightarrow>
    prune_entries env u sel rel names st = (Inr (), st') \<longrightarrow> tree_ok (entries UpperRoot st) \<longrightarrow> dir_in (entries UpperRoot st) rel \<longrightarrow>
    set names \<subseteq> set (upper_entries u rel) \<longrightarrow> distinct names \<longrightarrow>
    (\<forall>c \<in> set names. \<forall>q. prefix (rel @ [c]) q \<longrightarrow> entries UpperRoot st q = map_of u q) \<longrightarrow>
    entries UpperRoot st' = without ((\<lambda>c. rel @ [c]) ` set names) (entries UpperRoot st))"

lemma without_insert: "without (insert p P) m = without P (without {p} m)"
  by (auto simp: without_def fun_eq_iff)

lemma without_single: "without {p} m = (\<lambda>q. if prefix p q then None else m q)"
  by (auto simp: without_def fun_eq_iff)

lemma prune_directory_step:
  assumes sub: "prune_entries_run env u sel rel (upper_entries u rel)"
  shows "prune_directory_run env u sel rel"
  unfolding prune_directory_run_def
proof (intro allI impI)
  fix st st'
  let ?m = "entries UpperRoot st"
  assume p: "prunable u sel" and run: "prune_selected_directory env u sel rel st = (Inr (), st')" and u: "directory_at u rel"
    and m: "tree_ok ?m" and eq: "\<forall>q. prefix rel q \<longrightarrow> ?m q = map_of u q"
  from run obtain s1 where s1: "(if rel \<in> set sel then clear_opaque_xattrs env rel else io_return ()) st = (Inr (), s1)"
    and s2: "prune_entries env u sel rel (upper_entries u rel) s1 = (Inr (), st')"
    by (auto simp: io_bind_Inr)
  have dir: "dir_in ?m rel" using u eq by (auto simp: directory_at_iff)
  obtain d where d: "is_dir d" "entries UpperRoot s1 = ?m(rel \<mapsto> d)"
  proof (cases "rel \<in> set sel")
    case True
    then show ?thesis using that clear_opaque_entries [of env rel st "()" s1] s1 dir by auto
  next
    case False
    obtain d where d: "?m rel = Some d" "is_dir d" using dir by blast
    have "s1 = st" using s1 False by simp
    then have "entries UpperRoot s1 = ?m(rel \<mapsto> d)" using d(1) by (simp add: fun_upd_idem)
    then show ?thesis using that d(2) by blast
  qed
  let ?m1 = "?m(rel \<mapsto> d)"
  have ok1: "tree_ok ?m1"
  proof (cases rel rule: rev_cases)
    case Nil
    then show ?thesis using m d(1) unfolding tree_ok_def by auto
  next
    case (snoc q c)
    then have "dir_in ?m (butlast rel)" using tree_ok_parent [OF m, of q c] dir by auto
    then show ?thesis using tree_ok_put [OF m, of rel d] snoc d(1) by auto
  qed
  have "\<forall>c \<in> set (upper_entries u rel). \<forall>q. prefix (rel @ [c]) q \<longrightarrow> ?m1 q = map_of u q"
    using eq by (auto simp: prefix_def)
  then have m': "entries UpperRoot st' = without ((\<lambda>c. rel @ [c]) ` set (upper_entries u rel)) ?m1"
    using sub [unfolded prune_entries_run_def, rule_format, of s1 st', unfolded d(2)] p s2 ok1 d(1)
      distinct_upper_entries [of u rel] by (simp add: prunable_def)
  have out: "entries UpperRoot st' q = ?m1 q" if "\<not> strict_prefix rel q" for q
  proof -
    have "\<not> prefix (rel @ [c]) q" for c using that by (auto simp: prefix_def strict_prefix_def)
    then show ?thesis unfolding m' by (simp add: without_def)
  qed
  have gone: "entries UpperRoot st' q = None" if "strict_prefix rel q" for q
  proof -
    from that obtain c s where q: "q = rel @ c # s" by (rule strict_prefixE')
    show ?thesis
    proof (cases "map_of u (rel @ [c])")
      case None
      then have "?m (rel @ [c]) = None" using eq by simp
      then have "?m q = None" using tree_ok_below [OF m, of "rel @ [c]" s] q by (cases "s = []") auto
      then show ?thesis unfolding m' using q by (simp add: without_def)
    next
      case (Some n)
      then have "c \<in> set (upper_entries u rel)" by (simp add: upper_entries_iff)
      then have "\<exists>p \<in> (\<lambda>c. rel @ [c]) ` set (upper_entries u rel). prefix p q" using q by force
      then show ?thesis unfolding m' without_def by simp
    qed
  qed
  have "tree_ok (entries UpperRoot st')" unfolding m' by (rule tree_ok_without [OF ok1]) auto
  moreover have "dir_in (entries UpperRoot st') rel" using out [of rel] d(1) by (simp add: strict_prefix_def)
  moreover have "entries UpperRoot st' q = ?m q" if "\<not> prefix rel q" for q
    using out [of q] that by (auto simp: strict_prefix_def)
  ultimately show "tree_ok (entries UpperRoot st') \<and> dir_in (entries UpperRoot st') rel \<and>
    (\<forall>q. \<not> prefix rel q \<longrightarrow> entries UpperRoot st' q = ?m q) \<and> (\<forall>q. strict_prefix rel q \<longrightarrow> entries UpperRoot st' q = None)"
    using gone by blast
qed

lemma upper_name_cases:
  assumes "upper_name c"
  obtains "c = OPAQUE_NAME" | v where "c \<noteq> OPAQUE_NAME" "whiteout_target c = Some v" "validate_name v" "c = WHITEOUT_PREFIX @ v"
    | "c \<noteq> OPAQUE_NAME" "whiteout_target c = None" "validate_name c"
proof (cases "c = OPAQUE_NAME \<or> validate_name c")
  case True
  then show thesis
  proof
    assume v: "validate_name c"
    then have "c \<noteq> OPAQUE_NAME" by auto
    moreover have "whiteout_target c = None"
      using v by (cases "whiteout_target c") (auto simp: whiteout_target_Some)
    ultimately show thesis using that(3) v by blast
  qed (rule that(1))
next
  case False
  then obtain v where v: "c = WHITEOUT_PREFIX @ v" "validate_name v"
    using assms by (auto simp: upper_name_def starts_with_iff)
  moreover have "v \<noteq> []" using v(2) by (auto simp: validate_name_def)
  ultimately show thesis using that(2) False by (simp add: whiteout_target_Some)
qed

lemma prune_entry:
  assumes run: "prune_entries env u sel rel (name # names) st = (Inr (), st')" and p: "prunable u sel"
    and m: "tree_ok (entries UpperRoot st)" "dir_in (entries UpperRoot st) rel"
    and n: "map_of u (rel @ [name]) = Some n" and eq: "\<And>q. prefix (rel @ [name]) q \<Longrightarrow> entries UpperRoot st q = map_of u q"
    and sub: "is_dir n \<Longrightarrow> prune_directory_run env u sel (rel @ [name])"
  shows "\<exists>st1. entries UpperRoot st1 = without {rel @ [name]} (entries UpperRoot st) \<and>
    prune_entries env u sel rel names st1 = (Inr (), st')"
proof -
  let ?p = "rel @ [name]"
  have ok: "upper_ok u" "upper_names u" "selects_all u sel" using p by (simp_all add: prunable_def)
  have removed: ?thesis if "remove_selected env sel logical ?p st = (Inr (), st1)" "logical \<in> set sel"
      "prune_entries env u sel rel names st1 = (Inr (), st')" for logical st1
    using remove_selected_entries [OF that(1,2) m(1)] that(3) unfolding without_single by blast
  from upper_namesD [OF ok(2) n] show ?thesis
  proof (cases rule: upper_name_cases)
    case 1
    then have "rel \<in> set sel" using ok(3) n unfolding selects_all_def is_opaque_def by blast
    moreover obtain st1 where "remove_selected env sel rel ?p st = (Inr (), st1)" "prune_entries env u sel rel names st1 = (Inr (), st')"
      using run 1 by (auto simp: io_bind_Inr)
    ultimately show ?thesis using removed by blast
  next
    case (2 v)
    have "is_whiteouted u rel v" using n 2(4) by (simp add: is_whiteouted_def whiteout_path_def)
    then have "rel @ [v] \<in> set sel" using ok(3) 2(3) unfolding selects_all_def by blast
    moreover obtain st1 where "remove_selected env sel (rel @ [v]) ?p st = (Inr (), st1)" "prune_entries env u sel rel names st1 = (Inr (), st')"
      using run 2(1,2) by (auto simp: io_bind_Inr)
    ultimately show ?thesis using removed by blast
  next
    case 3
    then have sel: "?p \<in> set sel" using ok(3) n unfolding selects_all_def by auto
    show ?thesis
    proof (cases "is_dir n")
      case False
      then obtain st1 where "remove_selected env sel ?p ?p st = (Inr (), st1)" "prune_entries env u sel rel names st1 = (Inr (), st')"
        using run 3 n by (auto simp: io_bind_Inr)
      then show ?thesis using removed sel by blast
    next
      case True
      then obtain s1 s2 where s1: "prune_selected_directory env u sel ?p st = (Inr (), s1)"
        and s2: "remove_emptied env sel ?p s1 = (Inr (), s2)" and s3: "prune_entries env u sel rel names s2 = (Inr (), st')"
        using run 3 n sel by (auto simp: io_bind_Inr must_enter_def simp del: prune_selected_directory.simps)
      have "directory_at u ?p" using n True by (simp add: directory_at_iff)
      then have d: "\<And>q. \<not> prefix ?p q \<Longrightarrow> entries UpperRoot s1 q = entries UpperRoot st q"
        "\<And>q. strict_prefix ?p q \<Longrightarrow> entries UpperRoot s1 q = None"
        using sub [OF True] p s1 m(1) eq unfolding prune_directory_run_def by blast+
      have "c \<notin> set (upper_entries (sg_upper s1) ?p)" for c
        using d(2) [of "?p @ [c]"] by (simp add: upper_entries_iff strict_prefix_def)
      then have "upper_entries (sg_upper s1) ?p = []" by (metis list.set_intros(1) neq_Nil_conv)
      then have "sys env UpperRoot (u_remove_tree ?p) s1 = (Inr (), s2)"
        using s2 sel by (simp add: remove_emptied_def io_read_def)
      from sys_remove_tree [OF this] have "entries UpperRoot s2 q = without {?p} (entries UpperRoot st) q" for q
        using d(1) [of q] unfolding without_single by simp
      then show ?thesis using s3 by blast
    qed
  qed
qed

lemma prune_entries_step:
  assumes rest: "prune_entries_run env u sel rel names"
    and sub: "\<And>n. map_of u (rel @ [name]) = Some n \<Longrightarrow> is_dir n \<Longrightarrow> prunable u sel \<Longrightarrow> prune_directory_run env u sel (rel @ [name])"
  shows "prune_entries_run env u sel rel (name # names)"
  unfolding prune_entries_run_def
proof (intro allI impI)
  fix st st'
  let ?m = "entries UpperRoot st"
  assume p: "prunable u sel" and run: "prune_entries env u sel rel (name # names) st = (Inr (), st')"
    and m: "tree_ok ?m" "dir_in ?m rel" and names: "set (name # names) \<subseteq> set (upper_entries u rel)" "distinct (name # names)"
    and eq: "\<forall>c \<in> set (name # names). \<forall>q. prefix (rel @ [c]) q \<longrightarrow> ?m q = map_of u q"
  obtain n where n: "map_of u (rel @ [name]) = Some n" using names(1) by (auto simp: upper_entries_iff)
  obtain st1 where st1: "entries UpperRoot st1 = without {rel @ [name]} ?m" "prune_entries env u sel rel names st1 = (Inr (), st')"
    using prune_entry [OF run p m n _ sub [OF n _ p]] eq by auto
  have "tree_ok (without {rel @ [name]} ?m)" using tree_ok_without [OF m(1)] by simp
  moreover have "dir_in (without {rel @ [name]} ?m) rel" using m(2) by (simp add: without_single)
  moreover have "without {rel @ [name]} ?m q = map_of u q" if "c \<in> set names" "prefix (rel @ [c]) q" for c q
    using eq that names(2) by (auto simp: without_single prefix_def)
  ultimately have "entries UpperRoot st' = without ((\<lambda>c. rel @ [c]) ` set names) (without {rel @ [name]} ?m)"
    using rest [unfolded prune_entries_run_def, rule_format, of st1 st', unfolded st1(1)] p st1(2) names by auto
  then show "entries UpperRoot st' = without ((\<lambda>c. rel @ [c]) ` set (name # names)) ?m"
    by (simp add: without_insert [symmetric])
qed

lemma prune_runs: "prune_directory_run env u sel rel" "prune_entries_run env u sel rel' names"
proof (induction env u sel rel and env u sel rel' names rule: prune_selected_directory_prune_entries.induct)
  case (1 env u sel rel)
  then show ?case by (rule prune_directory_step)
next
  case (2 env u sel rel)
  then show ?case by (simp add: prune_entries_run_def without_def fun_eq_iff)
next
  case (3 env u sel rel name names)
  show ?case
  proof (cases "map_of u (rel @ [name])")
    case None
    then show ?thesis by (simp add: prune_entries_run_def upper_entries_iff)
  next
    case (Some n)
    have rest: "prune_entries_run env u sel rel names"
      using 3 Some by (cases "name = OPAQUE_NAME"; cases "whiteout_target name"; cases "is_dir n") auto
    show ?thesis
    proof (rule prune_entries_step [OF rest])
      fix k assume k: "map_of u (rel @ [name]) = Some k" "is_dir k" "prunable u sel"
      have "\<not> is_whiteout_name name" using k map_ok_marker [of "map_of u" rel name k] by (auto simp: prunable_def upper_ok_map)
      then have "name \<noteq> OPAQUE_NAME" "whiteout_target name = None" "must_enter sel (rel @ [name])"
        using k whiteout_target_Some [of name] unfolding prunable_def selects_all_def must_enter_def
        by (auto, metis is_whiteout_prefix not_Some_eq)
      then show "prune_directory_run env u sel (rel @ [name])" using 3 k by blast
    qed
  qed
qed

lemma prune_selected_upper_entries:
  assumes "prune_selected_upper env sel st = (Inr (), st')" "prunable (sg_upper st) sel"
  shows "directory_at (sg_upper st') [] \<and> (\<forall>p. p \<noteq> [] \<longrightarrow> map_of (sg_upper st') p = None)"
proof -
  have "prune_selected_directory env (sg_upper st) sel [] st = (Inr (), st')"
    using assms(1) by (simp add: prune_selected_upper_def io_read_def del: prune_selected_directory.simps)
  moreover have "directory_at (sg_upper st) []" "tree_ok (entries UpperRoot st)"
    using assms(2) by (simp_all add: prunable_def upper_ok_def upper_tree)
  ultimately have "dir_in (entries UpperRoot st') [] \<and> (\<forall>q. strict_prefix [] q \<longrightarrow> entries UpperRoot st' q = None)"
    using prune_runs(1) [of env "sg_upper st" sel "[]"] assms(2) unfolding prune_directory_run_def by simp
  then show ?thesis by (auto simp: strict_prefix_def directory_at_iff)
qed

subsection \<open>What the later steps keep\<close>

lemma io_step_keeps: "(\<And>st n. P (st\<lparr>sg_calls := n\<rparr>) = P st) \<Longrightarrow> io_keeps P (io_step env e)"
  by (simp add: io_keeps_def io_step_def)

lemma io_update_keeps: "(\<And>st. P st \<Longrightarrow> P (f st)) \<Longrightarrow> io_keeps P (io_update f)"
  by (simp add: io_keeps_def io_update_def)

lemma sys_upper_keeps:
  "io_keeps (\<lambda>st. sg_target st = t) (sys env UpperRoot f)" "io_keeps (\<lambda>st. sg_record st = k) (sys env UpperRoot f)"
  by (simp_all add: io_keeps_def sys_def Let_def split: sum.split)

text \<open>What every call on the upper directory keeps is kept by pruning.\<close>

lemma remove_path_keeps: "(\<And>f. io_keeps P (sys env UpperRoot f)) \<Longrightarrow> io_keeps P (remove_path env UpperRoot p)"
  unfolding remove_path_def by (rule io_keeps_read) (auto split: option.split)

lemma prune_keeps:
  "(\<And>f. io_keeps P (sys env UpperRoot f)) \<Longrightarrow> io_keeps P (prune_selected_directory env u sel rel)"
  "(\<And>f. io_keeps P (sys env UpperRoot f)) \<Longrightarrow> io_keeps P (prune_entries env u sel rel' names)"
proof (induction env u sel rel and env u sel rel' names rule: prune_selected_directory_prune_entries.induct)
  case (1 env u sel rel)
  have "io_keeps P (clear_opaque_xattrs env rel)"
    unfolding clear_opaque_xattrs_def by (rule io_keeps_read) (auto intro: 1(2) split: option.split node.split bool.split)
  then show ?case using 1 by (auto intro!: io_keeps_bind)
next
  case (3 env u sel rel name names)
  have "io_keeps P (remove_selected env sel l p)" for l p
    by (simp add: remove_selected_def remove_path_keeps 3)
  moreover have "io_keeps P (remove_emptied env sel p)" for p
    unfolding remove_emptied_def by (rule io_keeps_read) (simp add: 3)
  ultimately show ?case using 3 by (auto intro!: io_keeps_bind split: option.split simp del: prune_selected_directory.simps)
qed simp

lemma prune_upper_keeps: "(\<And>f. io_keeps P (sys env UpperRoot f)) \<Longrightarrow> io_keeps P (prune_selected_upper env sel)"
  unfolding prune_selected_upper_def by (rule io_keeps_read) (rule prune_keeps)

lemma clear_path_keeps: "(\<And>f. io_keeps P (sys env UpperRoot f)) \<Longrightarrow> io_keeps P (clear_path env UpperRoot p)"
  unfolding clear_path_def by (rule io_keeps_read) (simp add: remove_path_keeps)

lemma complete_target_applied_keeps: "io_keeps (\<lambda>st. sg_target st = t) (complete_target_applied env lowers sel)"
proof -
  have "io_keeps (\<lambda>st. sg_target st = t) (prune_selected_upper env sel)"
    by (rule prune_upper_keeps) (rule sys_upper_keeps)
  moreover have "io_keeps (\<lambda>st. sg_target st = t) (cleanup_terminal_overlay_data env)"
    unfolding cleanup_terminal_overlay_data_def
    by (auto intro!: io_keeps_read io_keeps_bind io_step_keeps clear_path_keeps sys_upper_keeps)
  ultimately show ?thesis
    unfolding complete_target_applied_def write_overlay_record_def set_state_def Let_def
    by (auto intro!: io_keeps_read io_keeps_bind io_step_keeps io_update_keeps)
qed

text \<open>The journal and the ledger are files of their own.\<close>

definition staged_parts :: "stage \<Rightarrow> upper \<times> upper \<times> OverlayRecord \<times> OverlayRecord" where
  "staged_parts st = (sg_target st, sg_upper st, sg_record st, sg_meta st)"

lemma bookkeeping_keeps:
  "io_keeps (\<lambda>st. staged_parts st = k) (consume_applied_preimages env sel)"
  "io_keeps (\<lambda>st. staged_parts st = k) (append_apply_record env ar)"
  "io_keeps (\<lambda>st. staged_parts st = k) (update_apply_state env i s n)"
  unfolding consume_applied_preimages_def append_apply_record_def update_apply_state_def
  by (auto intro!: io_keeps_read io_keeps_bind io_keeps_fold io_step_keeps io_update_keeps split: option.split simp: staged_parts_def)

lemma io_keepsD: "io_keeps P m \<Longrightarrow> m st = (r, st') \<Longrightarrow> P st \<Longrightarrow> P st'"
  by (auto simp: io_keeps_def dest: spec [of _ st])

subsection \<open>A complete apply empties the stage\<close>

lemma sort_key_Nil: "sort_key f xs = [] \<longleftrightarrow> xs = []"
  by (metis length_0_conv length_sort)

lemma no_changes_cong: "overlay_changes lowers u = [] \<longleftrightarrow> overlay_changes lowers' u = []"
proof -
  have "change_of lowers e = [] \<longleftrightarrow> change_of lowers' e = []" for e
    by (cases e) (auto simp: change_of_def Let_def split: option.split)
  then show ?thesis by (simp add: overlay_changes_def sort_key_Nil)
qed

lemma no_changes_root:
  assumes "\<And>p. p \<noteq> [] \<Longrightarrow> map_of u p = None"
  shows "overlay_changes lowers u = []"
proof -
  have "p = []" if "(p, n) \<in> set u" for p n
  proof (rule ccontr)
    assume "p \<noteq> []"
    with assms [OF this] that show False by (auto simp: map_of_eq_None_iff image_iff)
  qed
  then have "walk_upper u = []" by (auto simp: walk_upper_def filter_empty_conv)
  then show ?thesis by (simp add: overlay_changes_def)
qed

lemma clear_root:
  assumes "clear_path env UpperRoot [] st = (Inr (), st')" "directory_at (sg_upper st) []"
  shows "sg_upper st' = [] \<and> sg_record st' = sg_record st"
  using assms by (auto simp: clear_path_def remove_path_def io_read_def directory_at_iff sys_def Let_def u_remove_tree_def
      split: if_splits)

lemma complete_target_applied_all:
  assumes run: "complete_target_applied env lowers sel st = (Inr remaining, st')"
    and p: "prunable (sg_upper st) sel" and sel: "set sel = ch_path ` set (overlay_changes lowers0 (sg_upper st))"
  shows "remaining = [] \<and> sg_upper st' = [] \<and> sg_record st' = (sg_record st)\<lparr>or_state := Applied\<rparr> \<and> sg_meta st' = sg_record st'"
proof -
  have root: "directory_at (sg_upper st) []" using p by (simp add: prunable_def upper_ok_def)
  from run obtain s1 s2 where
    s1: "io_read (\<lambda>st. if directory_at (sg_upper st) [] \<and> sel \<noteq> [] then prune_selected_upper env sel else io_return ()) st = (Inr (), s1)"
    and s2: "io_read (\<lambda>st. if or_upper (sg_record st) = JujutsuUpper then io_step env Finalize else io_return ()) s1 = (Inr (), s2)"
    and s3: "io_bind (if overlay_changes (lowers (sg_target s2)) (sg_upper s2) = [] then io_bind (cleanup_terminal_overlay_data env) (\<lambda>_. set_state Applied)
        else set_state Staged) (\<lambda>_. io_bind (write_overlay_record env) (\<lambda>_.
          io_return (overlay_changes (lowers (sg_target s2)) (sg_upper s2)))) s2 = (Inr remaining, st')"
    by (auto simp: complete_target_applied_def io_bind_Inr Let_def io_read_def)
  have s1': "directory_at (sg_upper s1) [] \<and> overlay_changes lowers0 (sg_upper s1) = [] \<and> sg_record s1 = sg_record st"
  proof (cases "sel = []")
    case True
    then show ?thesis using s1 root sel by (simp add: io_read_def)
  next
    case False
    then have "prune_selected_upper env sel st = (Inr (), s1)" using s1 root by (simp add: io_read_def)
    moreover have "sg_record s1 = sg_record st"
      by (rule io_keepsD [OF prune_upper_keeps [OF sys_upper_keeps(2)] \<open>prune_selected_upper env sel st = (Inr (), s1)\<close> refl])
    ultimately show ?thesis using prune_selected_upper_entries [OF _ p] no_changes_root by blast
  qed
  have s2': "sg_upper s2 = sg_upper s1 \<and> sg_record s2 = sg_record s1"
    using s2 by (auto simp: io_read_def io_step_def split: if_splits)
  have none: "overlay_changes (lowers (sg_target s2)) (sg_upper s2) = []"
    using s1' s2' no_changes_cong by metis
  then obtain s3a where c: "cleanup_terminal_overlay_data env s2 = (Inr (), s3a)"
    and w: "io_bind (set_state Applied) (\<lambda>_. io_bind (write_overlay_record env) (\<lambda>_. io_return [])) s3a = (Inr remaining, st')"
    using s3 by (auto simp: io_bind_Inr)
  obtain s4 where s4: "clear_path env UpperRoot [] s2 = (Inr (), s4)" "sg_upper s3a = sg_upper s4 \<and> sg_record s3a = sg_record s4"
    using c by (auto simp: cleanup_terminal_overlay_data_def io_read_def io_bind_Inr io_step_def split: if_splits)
  have "sg_upper s3a = []" "sg_record s3a = sg_record st"
    using clear_root [OF s4(1)] s4(2) s1' s2' by simp_all
  then show ?thesis using w by (auto simp: io_bind_Inr set_state_def write_overlay_record_def io_update_def io_step_def split: if_splits)
qed

subsection \<open>Stages\<close>

text \<open>What is relied on about the upper directory and the target, in a form that evaluates.\<close>

definition unreserved_names :: "upper \<Rightarrow> bool" where
  "unreserved_names t = list_all (\<lambda>(p, _). list_all (\<lambda>c. \<not> reserved c) p) t"

definition inodes_check :: "apply_env \<Rightarrow> upper \<Rightarrow> bool" where
  "inodes_check env u = list_all (\<lambda>(p, n). list_all (\<lambda>(q, k). is_linked env p n \<longrightarrow> is_linked env q k \<longrightarrow>
    in_dev_ino (ae_inodes env) p = in_dev_ino (ae_inodes env) q \<longrightarrow> content_of n = content_of k) u) u"

definition hidden_check :: "upper \<Rightarrow> upper \<Rightarrow> bool" where
  "hidden_check u t = list_all (\<lambda>(q, _). length q < 2 \<or> \<not> is_opaque u (butlast (butlast q)) \<or>
    \<not> directory_at u (butlast q) \<or> is_opaque u (butlast q)) t"

definition target_ok :: "upper \<Rightarrow> bool" where
  "target_ok t \<longleftrightarrow> directory_at t [] \<and> list_all (\<lambda>(p, _). p = [] \<or> directory_at t (butlast p)) t \<and> list_all (plain_node \<circ> snd) t"

definition stage_ok :: "apply_env \<Rightarrow> upper \<Rightarrow> upper \<Rightarrow> bool" where
  "stage_ok env u t \<longleftrightarrow> upper_ok u \<and> distinct (map fst u) \<and> upper_names u \<and> unreserved_names u \<and> inodes_check env u \<and>
    \<not> xattr_opaque (the (map_of u [])) \<and> target_ok t \<and> unreserved_names t \<and> hidden_check u t"

lemma unreserved_names: "unreserved_names t \<Longrightarrow> unreserved (map_of t)"
  unfolding unreserved_def
proof (intro allI impI)
  fix p assume "unreserved_names t" "map_of t p \<noteq> None"
  then show "list_all (\<lambda>c. \<not> reserved c) p"
    using map_of_SomeD [of t p] by (force simp: unreserved_names_def list_all_iff)
qed

lemma inodes_check: "inodes_check env u \<Longrightarrow> inodes_ok env u"
  unfolding inodes_ok_def
proof (intro allI impI)
  fix p n q k
  assume c: "inodes_check env u" and "map_of u p = Some n" "map_of u q = Some k" "is_linked env p n" "is_linked env q k"
    "in_dev_ino (ae_inodes env) p = in_dev_ino (ae_inodes env) q"
  then have "(p, n) \<in> set u" "(q, k) \<in> set u" by (simp_all add: map_of_SomeD)
  with c \<open>is_linked env p n\<close> \<open>is_linked env q k\<close> \<open>in_dev_ino (ae_inodes env) p = in_dev_ino (ae_inodes env) q\<close>
  show "content_of n = content_of k" unfolding inodes_check_def list_all_iff by fast
qed

lemma hidden_check: "hidden_check u t \<Longrightarrow> hidden_ok u (map_of t) []"
  unfolding hidden_ok_def
proof (intro allI impI)
  fix p c d assume h: "hidden_check u t" and "is_opaque u p" "directory_at u (p @ [c])" "\<not> is_opaque u (p @ [c])"
  show "map_of t (p @ [c, d]) = None"
  proof (rule ccontr)
    assume "map_of t (p @ [c, d]) \<noteq> None"
    then obtain n where "(p @ [c, d], n) \<in> set t" using map_of_SomeD by fastforce
    moreover have "butlast (p @ [c, d]) = p @ [c]" by (simp add: butlast_append)
    ultimately show False
      using h \<open>is_opaque u p\<close> \<open>directory_at u (p @ [c])\<close> \<open>\<not> is_opaque u (p @ [c])\<close>
      unfolding hidden_check_def list_all_iff by fastforce
  qed
qed

lemma target_ok: "target_ok t \<Longrightarrow> tree_ok (map_of t)" "target_ok t \<Longrightarrow> layer_ok (alist_layer t)"
  using list_all_map_of [of "\<lambda>p c. directory_at t p" t] layer_ok_alist [of t]
  by (auto simp: target_ok_def tree_ok_def directory_at_iff)

lemma ready_stage:
  assumes "stage_ok env u t" "set sel = ch_path ` set (overlay_changes lowers u)"
  shows "ready env u sel" "prunable u sel"
proof -
  have "selects_all u sel"
    by (rule everything_selected [OF _ _ assms(2)]) (use assms(1) in \<open>simp_all add: stage_ok_def\<close>)
  then show "ready env u sel" "prunable u sel"
    using assms(1) by (simp_all add: ready_def prunable_def stage_ok_def unreserved_names inodes_check)
qed

lemma shown_nothing_selected:
  assumes "upper_ok u" "selects_all u []" "tree_ok m" "list_all validate_name q"
  shows "shown u m q = map_option content_of (m q)"
proof (cases q)
  case Nil
  have "directory_at u []" using assms(1) by (simp add: upper_ok_def)
  then show ?thesis using Nil tree_ok_root [OF assms(3)] by (auto simp: shown_dir content_dir)
next
  case (Cons c s)
  have v: "validate_name c" using assms(4) Cons by simp
  have none: "map_of u ([] @ [c]) = None"
    using assms(2) validate_name_not_whiteout [OF v] unfolding selects_all_def by (metis empty_iff list.set(1))
  moreover have "\<not> is_whiteouted u [] c" "\<not> is_opaque u []"
    using assms(2) v unfolding selects_all_def by auto
  ultimately show ?thesis using shown_lower [OF assms(1) _ none, of m s] assms(1) Cons
    by (simp add: upper_ok_def)
qed

lemma apply_prepared_target_entries:
  assumes run: "apply_prepared_target env sel preimages changes recovering st = (Inr (), st')"
    and ok: "stage_ok env (sg_upper st) (sg_target st)" and sel: "set sel = ch_path ` set (overlay_changes lowers (sg_upper st))"
    and q: "list_all validate_name q"
  shows "map_option content_of (map_of (sg_target st') q) = shown (sg_upper st) (map_of (sg_target st)) q"
proof -
  note r = ready_stage [OF ok sel]
  have m: "tree_ok (map_of (sg_target st))" "unreserved (map_of (sg_target st))" "hidden_ok (sg_upper st) (map_of (sg_target st)) []"
    using ok by (simp_all add: stage_ok_def target_ok unreserved_names hidden_check)
  have u: "upper_ok (sg_upper st)" "directory_at (sg_upper st) []" using ok by (simp_all add: stage_ok_def upper_ok_def)
  show ?thesis
  proof (cases "sel = []")
    case True
    then have "st' = st" using run by (auto simp: apply_prepared_target_def io_read_def split: sum.splits)
    moreover have "selects_all (sg_upper st) []" using r(1) True by (simp add: ready_def)
    ultimately show ?thesis using shown_nothing_selected [OF u(1) _ m(1) q] by simp
  next
    case False
    then have "apply_selected_upper env (sg_upper st) sel st = (Inr (), st')"
      using run u(2) by (auto simp: apply_prepared_target_def io_read_def split: sum.splits)
    from apply_selected_upper_entries [OF this r(1) _ _ _ q] m show ?thesis by simp
  qed
qed

subsection \<open>The whole apply\<close>

definition no_pending :: "stage \<Rightarrow> bool" where
  "no_pending st = list_all (\<lambda>ar. ar_state ar = Committed) (sg_ledger st)"

lemma no_recovery: "no_pending st \<Longrightarrow> recover_pending_applies_locked env lowers st = (Inr [], st)"
proof -
  assume "no_pending st"
  then have "filter (\<lambda>ar. ar_state ar \<noteq> Committed) (sg_ledger st) = []" by (simp add: no_pending_def list_all_iff filter_empty_conv)
  then show ?thesis by (simp add: recover_pending_applies_locked_def io_read_def io_return_def)
qed

text \<open>An apply of an overlay that is not yet applied or discarded comes down to \<open>apply_planned\<close>.\<close>

lemma apply_overlay_selected_open:
  assumes "no_pending st" "or_state (sg_record st) \<in> {Active, Staged}"
  shows "(\<exists>e n. apply_overlay_selected env lowers selection st = (Inl e, st\<lparr>sg_calls := n\<rparr>)) \<or>
    apply_overlay_selected env lowers selection st = apply_planned env lowers selection (st\<lparr>sg_calls := sg_calls st + 1\<rparr>)"
proof (cases "or_protect_target (sg_record st)")
  case True
  then have "apply_overlay_selected env lowers selection st = (Inl ApplyError, st\<lparr>sg_calls := sg_calls st\<rparr>)"
    by (simp add: apply_overlay_selected_def io_read_def io_fail_def)
  then show ?thesis by blast
next
  case False
  let ?st = "st\<lparr>sg_calls := sg_calls st + 1\<rparr>"
  have "no_pending ?st" using assms(1) by (simp add: no_pending_def)
  then have r: "recover_pending_applies_locked env lowers ?st = (Inr [], ?st)" by (rule no_recovery)
  show ?thesis
  proof (cases "oc_fault (ae_core env) (sg_calls st)")
    case True
    then have "apply_overlay_selected env lowers selection st = (Inl (OverlayIo EIO), ?st)"
      using False by (simp add: apply_overlay_selected_def io_read_def io_bind_def io_step_def)
    then show ?thesis by blast
  next
    case no_fault: False
    have "apply_overlay_selected env lowers selection st = apply_planned env lowers selection ?st"
      using False no_fault r assms(2) by (auto simp: apply_overlay_selected_def io_read_def io_bind_def io_step_def)
    then show ?thesis by blast
  qed
qed

lemma apply_planned_Inr:
  assumes "apply_planned env lowers selection st = (Inr out, st')"
  obtains plan preimages ar s1 s2 s3 remaining where
    "plan_overlay_apply (ae_globs env) (ae_inodes env) (lowers (sg_target st)) (sg_upper st) selection = Some (Inr plan)"
    "append_apply_record env ar st = (Inr (), s1)"
    "apply_prepared_target env (pl_selected_paths plan) preimages (pl_selected plan) False s1 = (Inr (), s2)"
    "mark_apply_target_applied env (ar_apply_id ar) s2 = (Inr (), s3)"
    "finish_apply env lowers (ar_apply_id ar) (pl_selected_paths plan) s3 = (Inr remaining, st')"
  using assms by (auto simp: apply_planned_def io_read_def Let_def io_bind_Inr split: option.splits sum.splits)

lemma parts_kept:
  assumes "io_keeps (\<lambda>st. staged_parts st = staged_parts st0) m" "m st0 = (r, st')"
  shows "sg_target st' = sg_target st0" "sg_upper st' = sg_upper st0" "sg_record st' = sg_record st0" "sg_meta st' = sg_meta st0"
  using io_keepsD [OF assms refl] by (simp_all add: staged_parts_def)

text \<open>What writing the target keeps.\<close>

definition beside_target :: "stage \<Rightarrow> upper \<times> OverlayRecord \<times> (string \<times> path \<times> PathFingerprint) list \<times> ApplyRecord list" where
  "beside_target st = (sg_upper st, sg_record st, sg_journal st, sg_ledger st)"

lemma call_keeps:
  "io_keeps (\<lambda>st. beside_target st = k) (sys env TargetRoot f)" "io_keeps (\<lambda>st. beside_target st = k) (io_step env e)"
  by (simp_all add: io_keeps_def beside_target_def sys_def io_step_def Let_def split: sum.split)

lemma remove_target_keeps: "io_keeps (\<lambda>st. beside_target st = k) (remove_path env TargetRoot p)"
  unfolding remove_path_def by (rule io_keeps_read) (auto split: option.split intro: call_keeps)

lemma create_dir_all_keeps: "io_keeps (\<lambda>st. beside_target st = k) (create_dir_all env p)"
  unfolding create_dir_all_def by (rule io_keeps_fold, rule io_keeps_read) (simp add: call_keeps)

lemma ensure_directory_keeps: "io_keeps (\<lambda>st. beside_target st = k) (ensure_directory env p)"
  unfolding ensure_directory_def
  by (rule io_keeps_read) (auto split: option.split intro!: io_keeps_bind call_keeps remove_target_keeps create_dir_all_keeps)

lemma copy_upper_entry_keeps: "io_keeps (\<lambda>st. beside_target st = k) (copy_upper_entry env p n links)"
proof -
  have "io_keeps (\<lambda>st. beside_target st = k) (place_copy env p n links)"
    unfolding place_copy_def copy_host_metadata_def
    by (auto intro!: io_keeps_bind io_keeps_read call_keeps remove_target_keeps)
  then show ?thesis
    unfolding copy_upper_entry_def
    by (intro io_keeps_bind io_keeps_try create_dir_all_keeps remove_target_keeps)
      (auto split: sum.split intro!: io_keeps_try remove_target_keeps)
qed

lemma apply_directory_keeps:
  "io_keeps (\<lambda>st. beside_target st = k) (apply_selected_directory env u sel rel links)"
  "io_keeps (\<lambda>st. beside_target st = k) (apply_entries env u sel rel' names links')"
proof (induction env u sel rel links and env u sel rel' names links' rule: apply_selected_directory_apply_entries.induct)
  case (1 env u sel rel links)
  have "io_keeps (\<lambda>st. beside_target st = k) (clear_directory env rel)"
    unfolding clear_directory_def by (intro io_keeps_read io_keeps_fold remove_target_keeps)
  moreover have "io_keeps (\<lambda>st. beside_target st = k) (apply_whiteouts env sel rel names)" for names
    unfolding apply_whiteouts_def by (rule io_keeps_fold) (auto split: option.split intro: remove_target_keeps)
  ultimately show ?case using 1 by (auto intro!: io_keeps_bind ensure_directory_keeps)
next
  case (3 env u sel rel name names links)
  have "io_keeps (\<lambda>st. beside_target st = k) (copy_host_metadata env n p)" for n p
    unfolding copy_host_metadata_def by (rule call_keeps)
  then show ?case using 3
    by (auto intro!: io_keeps_bind ensure_directory_keeps copy_upper_entry_keeps split: option.split
        simp del: apply_selected_directory.simps)
qed simp

lemma apply_prepared_target_keeps:
  "io_keeps (\<lambda>st. beside_target st = k) (apply_prepared_target env sel preimages changes recovering)"
  unfolding apply_prepared_target_def apply_selected_upper_def
  by (rule io_keeps_read) (auto split: sum.split intro!: io_keeps_bind ensure_directory_keeps apply_directory_keeps
      simp del: apply_selected_directory.simps)

lemma plan_everything_paths:
  assumes "plan_overlay_apply gl ino lowers u everything = Some (Inr plan)"
  shows "set (pl_selected_paths plan) = ch_path ` set (overlay_changes lowers u)"
proof -
  obtain cs where cs: "compile_selection gl everything = Inr cs"
    and loop: "plan_loop (excluded cs) (overlay_changes lowers u) (upper_hard_link_groups ino u)
      (initial_selection cs (overlay_changes lowers u)) = Some (Inr (pl_selected_paths plan))"
    using assms by (rule plan_overlay_apply_Inr)
  have c: "\<not> cs_has_positive cs" "\<forall>p. \<not> excluded cs p"
    using cs by (auto simp: everything_def compile_selection_def compile_globs_def excluded_def list_ex_iff)
  then have i: "set (initial_selection cs (overlay_changes lowers u)) = ch_path ` set (overlay_changes lowers u)"
    by (simp add: initial_selection_def requested_def)
  have "plan_loop (excluded cs) (overlay_changes lowers u) (upper_hard_link_groups ino u)
      (initial_selection cs (overlay_changes lowers u)) = Some (Inr (initial_selection cs (overlay_changes lowers u)))"
    by (rule plan_loop_settled [OF c(2)]) (simp add: i plan_universe_changes)
  then show ?thesis using loop i by simp
qed

lemma finish_apply_Inr:
  assumes run: "finish_apply env lowers i sel st = (Inr remaining, st')"
  obtains s1 where "complete_target_applied env lowers sel st = (Inr remaining, s1)" "staged_parts st' = staged_parts s1"
proof -
  from run obtain s1 s2 where s1: "complete_target_applied env lowers sel st = (Inr remaining, s1)"
    and s2: "consume_applied_preimages env sel s1 = (Inr (), s2)"
    and s3: "mark_apply_committed env i (length remaining) s2 = (Inr (), st')"
    by (auto simp: finish_apply_def io_bind_Inr)
  have "staged_parts s2 = staged_parts s1" by (rule io_keepsD [OF bookkeeping_keeps(1) s2 refl])
  moreover have "staged_parts st' = staged_parts s2"
    by (rule io_keepsD [OF bookkeeping_keeps(3) s3 [unfolded mark_apply_committed_def] refl])
  ultimately show thesis using that [OF s1] by simp
qed

lemma apply_everything:
  assumes run: "apply_planned env (\<lambda>t. [alist_layer t]) everything st = (Inr out, st')"
    and ok: "stage_ok env (sg_upper st) (sg_target st)"
  shows "list_all validate_name q \<Longrightarrow> map_option content_of (map_of (sg_target st') q) = shown (sg_upper st) (map_of (sg_target st)) q"
    and "sg_upper st' = [] \<and> or_state (sg_record st') = Applied \<and> sg_meta st' = sg_record st'"
proof -
  obtain plan preimages ar s1 s2 s3 remaining where
    plan: "plan_overlay_apply (ae_globs env) (ae_inodes env) [alist_layer (sg_target st)] (sg_upper st) everything = Some (Inr plan)"
    and a1: "append_apply_record env ar st = (Inr (), s1)"
    and a2: "apply_prepared_target env (pl_selected_paths plan) preimages (pl_selected plan) False s1 = (Inr (), s2)"
    and a3: "mark_apply_target_applied env (ar_apply_id ar) s2 = (Inr (), s3)"
    and a4: "finish_apply env (\<lambda>t. [alist_layer t]) (ar_apply_id ar) (pl_selected_paths plan) s3 = (Inr remaining, st')"
    using run by (rule apply_planned_Inr)
  note sel = plan_everything_paths [OF plan]
  note p1 = parts_kept [OF bookkeeping_keeps(2) a1]
    and p3 = parts_kept [OF bookkeeping_keeps(3) a3 [unfolded mark_apply_target_applied_def]]
  have u2: "sg_upper s2 = sg_upper st"
    using io_keepsD [OF apply_prepared_target_keeps a2 refl] p1 by (simp add: beside_target_def)
  obtain s4 where s4: "complete_target_applied env (\<lambda>t. [alist_layer t]) (pl_selected_paths plan) s3 = (Inr remaining, s4)"
      "staged_parts st' = staged_parts s4"
    using a4 by (rule finish_apply_Inr)
  have t: "sg_target st' = sg_target s2"
    using io_keepsD [OF complete_target_applied_keeps s4(1) refl] s4(2) p3(1) by (simp add: staged_parts_def)
  show "map_option content_of (map_of (sg_target st') q) = shown (sg_upper st) (map_of (sg_target st)) q"
    if "list_all validate_name q"
    using apply_prepared_target_entries [OF a2 _ _ that] ok sel p1(1,2) t by metis
  have "prunable (sg_upper s3) (pl_selected_paths plan)"
    using ready_stage(2) [OF ok sel] p3(2) u2 by simp
  from complete_target_applied_all [OF s4(1) this, of "[alist_layer (sg_target st)]"]
  show "sg_upper st' = [] \<and> or_state (sg_record st') = Applied \<and> sg_meta st' = sg_record st'"
    using sel s4(2) p3(2) u2 by (simp add: staged_parts_def)
qed

lemma applied_target:
  assumes run: "apply_overlay env st = (Inr (), st')" and ok: "stage_ok env (sg_upper st) (sg_target st)"
    and start: "no_pending st" "or_state (sg_record st) \<in> {Active, Staged}"
    and core: "oc_lowers core = [alist_layer (sg_target st)]" "oc_excluded core = []"
  shows "list_all validate_name q \<Longrightarrow> map_option content_of (map_of (sg_target st') q) = view core (sg_upper st) q"
    and "sg_upper st' = [] \<and> or_state (sg_record st') = Applied \<and> sg_meta st' = sg_record st'"
proof -
  let ?st = "st\<lparr>sg_calls := sg_calls st + 1\<rparr>"
  obtain out where "apply_overlay_selected env (\<lambda>t. [alist_layer t]) everything st = (Inr out, st')"
    using run by (auto simp: apply_overlay_def io_bind_Inr)
  then have "apply_planned env (\<lambda>t. [alist_layer t]) everything ?st = (Inr out, st')"
    using apply_overlay_selected_open [OF start, of env "\<lambda>t. [alist_layer t]" everything] by auto
  note applied = apply_everything [OF this, simplified, OF ok]
  have u: "upper_ok (sg_upper st)" and t: "target_ok (sg_target st)" using ok by (simp_all add: stage_ok_def)
  have "lowers_ok core" using core target_ok(2) [OF t] by (simp add: lowers_ok_def)
  then have "view core (sg_upper st) q = shown (sg_upper st) (map_of (sg_target st)) q" if "list_all validate_name q"
    using view_shown [OF _ u _ core that] target_ok(1) [OF t] by (simp add: alist_lookup [abs_def])
  then show "list_all validate_name q \<Longrightarrow> map_option content_of (map_of (sg_target st') q) = view core (sg_upper st) q"
    using applied(1) [of q] by simp
  show "sg_upper st' = [] \<and> or_state (sg_record st') = Applied \<and> sg_meta st' = sg_record st'" by (rule applied(2))
qed

subsection \<open>The overlay's tree and the target's\<close>

lemma new_overlay_view:
  assumes new: "overlay_new core = Inr ov0" and t: "target_ok t" and core: "oc_lowers core = [alist_layer t]" "oc_excluded core = []"
    and q: "list_all validate_name q"
  shows "view core (ov_upper ov0) q = map_option content_of (map_of t q)" and "upper_ok (ov_upper ov0)"
proof -
  obtain root where root: "map_of t [] = Some root" "is_dir root" using tree_ok_root [OF target_ok(1) [OF t]] by blast
  then have plain: "\<not> xattr_opaque root"
    using t map_of_SomeD [OF root(1)] by (auto simp: target_ok_def list_all_iff plain_node_def)
  obtain m where u: "ov_upper ov0 = [([], DirNode m False)]"
    using new core root plain by (auto simp: overlay_new_def alist_layer_def split: option.splits sum.splits if_splits prod.splits)
  show ok: "upper_ok (ov_upper ov0)" by (simp add: u upper_ok_def directory_at_def)
  have "selects_all (ov_upper ov0) []" by (auto simp: u selects_all_def is_opaque_def is_whiteouted_def whiteout_path_def)
  from shown_nothing_selected [OF ok this target_ok(1) [OF t] q]
  show "view core (ov_upper ov0) q = map_option content_of (map_of t q)"
    using view_shown [OF _ ok _ core q] core target_ok [OF t] by (simp add: lowers_ok_def alist_lookup [abs_def])
qed

definition tree_of :: "upper \<Rightarrow> tree" where
  "tree_of t q = (if list_all validate_name q then map_option content_of (map_of t q) else None)"

definition view_stage :: stage where
  "view_stage = staged apply_core demo_lower
    (snd (run_ops (overlay_exec apply_core) [Remove [''motd''] False, CreateDir [''motd''] 0x1ED, CreateFile [''etc'', ''new''] 0x1A4,
      Remove [''etc'', ''hosts''] False] (projr (overlay_new apply_core))))"

definition run_core :: OverlayCore where
  "run_core = demo_core\<lparr>oc_excluded := []\<rparr>"

definition run_demo :: "overlay_op list" where
  "run_demo = [Remove [''motd''] False, CreateDir [''motd''] 0x1ED, Remove [''etc''] True, CreateFile [''etc'', ''new''] 0x1A4,
    Remove [''etc'', ''hosts''] False, CreateFile [''nowhere'', ''x''] 0x1A4, CreateSymlink [''link''] ''etc/new'']"

definition run_stage :: stage where
  "run_stage = staged run_core demo_lower (snd (run_ops (overlay_exec run_core) run_demo (projr (overlay_new run_core))))"

subsection \<open>Properties\<close>





end
