(* ===== verification/ApplySafety.thy ===== *)
theory ApplySafety
  imports ApplyResult
begin

section \<open>Applies that are refused or stopped\<close>

text \<open>
  The checks that protect a target which someone else has changed, and the order of the durable steps
  of an apply: a call that fails, or the death of the process there, leaves either the upper
  directory complete for a repetition, or the target complete for the rest of the work.
\<close>

subsection \<open>Refused applies\<close>

lemma validated_preimages:
  "validate_target_preimages env st preimages changes False = Inr () \<Longrightarrow> (p, state) \<in> set preimages \<Longrightarrow>
    fingerprint_at (ae_core env) (alist_layer (sg_target st)) p = Inr state"
  by (induction env st preimages changes False rule: validate_target_preimages.induct) (auto split: sum.splits if_splits)

lemma prepared_preimages:
  assumes "prepare_apply_preimages env st selected = Inr preimages" "sg_complete st" "p \<in> set selected"
  shows "\<exists>state. map_of (map snd (sg_journal st)) p = Some state \<and> (p, state) \<in> set preimages"
proof -
  let ?f = "\<lambda>p. case map_of (map snd (sg_journal st)) p of None \<Rightarrow> Inl InvalidState | Some state \<Rightarrow> Inr (p, state)"
  have f: "(\<lambda>p. case map_of (map snd (sg_journal st)) p of Some state \<Rightarrow> Inr (p, state)
      | None \<Rightarrow> if sg_complete st then Inl InvalidState
          else (case fingerprint_at (ae_core env) (alist_layer (sg_target st)) p of
              Inl e \<Rightarrow> Inl (OverlayIo e) | Inr state \<Rightarrow> Inr (p, state))) = ?f"
    using assms(2) by (auto simp: fun_eq_iff split: option.split)
  have "map ?f selected = map Inr preimages"
    using assms(1) unfolding prepare_apply_preimages_def f collect_results_Inr .
  from arg_cong [OF this, of set] have "?f ` set selected = Inr ` set preimages" by simp
  then have "?f p \<in> Inr ` set preimages" using imageI [OF assms(3), of ?f] by simp
  then show ?thesis by (auto split: option.splits)
qed

interpretation complete_marker: journal_invariant core "\<lambda>st :: overlay. ov_complete st = b" for core b
proof unfold_locales
  show "io_keeps (\<lambda>st :: overlay. ov_complete st = b) (record_preimage core rel)" for rel
    unfolding io_keeps_def
  proof (intro allI impI)
    fix st :: overlay
    assume "ov_complete st = b"
    then show "ov_complete (snd (record_preimage core rel st)) = b"
      using record_preimage_cases [of core rel st] by auto
  qed
qed simp_all

lemma mounted_journal:
  assumes "overlay_new core = Inr ov0" "oc_journaling core"
    and "ov = snd (run_ops (overlay_exec core) ops ov0)"
  shows "ov_complete ov" "map_of (map snd (ov_journal ov)) p = Some state \<Longrightarrow> fingerprint_at core (last (oc_lowers core)) p = Inr state"
proof -
  have new: "ov_complete ov0 = True" "journal_sound core ov0"
    using assms(1,2) by (auto simp: overlay_new_def journal_sound_def split: if_splits sum.splits option.splits prod.splits)
  show "ov_complete ov" using complete_marker.run_keeps [OF new(1)] assms(3) by simp
  have "journal_sound core ov" using sound_journal.run_keeps [OF new(2)] assms(3) by simp
  then show "fingerprint_at core (last (oc_lowers core)) p = Inr state" if "map_of (map snd (ov_journal ov)) p = Some state"
    using map_of_SomeD [OF that] by (auto simp: journal_sound_def list_all_iff)
qed

lemma unverified_apply_refused:
  assumes start: "no_pending st" "or_state (sg_record st) \<in> {Active, Staged}" "sg_complete st"
    and plan: "plan_overlay_apply (ae_globs env) (ae_inodes env) (lowers (sg_target st)) (sg_upper st) selection = Some (Inr plan)"
    and p: "p \<in> set (pl_selected_paths plan)"
      "\<And>state. map_of (map snd (sg_journal st)) p = Some state \<Longrightarrow>
        fingerprint_at (ae_core env) (alist_layer (sg_target st)) p \<noteq> Inr state"
  shows "\<exists>e n. apply_overlay_selected env lowers selection st = (Inl e, st\<lparr>sg_calls := n\<rparr>)"
proof -
  let ?st = "st\<lparr>sg_calls := sg_calls st + 1\<rparr>"
  have "\<exists>e. apply_planned env lowers selection ?st = (Inl e, ?st)"
  proof (cases "prepare_apply_preimages env ?st (pl_selected_paths plan)")
    case (Inr preimages)
    have "\<exists>e. validate_target_preimages env ?st preimages (pl_selected plan) False = Inl e"
    proof (cases "validate_target_preimages env ?st preimages (pl_selected plan) False")
      case valid: (Inr x)
      obtain state where "map_of (map snd (sg_journal st)) p = Some state" "(p, state) \<in> set preimages"
        using prepared_preimages [OF Inr _ p(1)] start(3) by auto
      then show ?thesis using validated_preimages [of env ?st preimages "pl_selected plan" p state] valid p(2) by auto
    qed simp
    then show ?thesis using plan Inr by (auto simp: apply_planned_def io_read_def io_fail_def)
  qed (use plan in \<open>simp add: apply_planned_def io_read_def io_fail_def\<close>)
  then show ?thesis using apply_overlay_selected_open [OF start(1,2), of env lowers selection] by auto
qed

subsection \<open>Stopped applies\<close>

definition has_prepared :: "stage \<Rightarrow> bool" where
  "has_prepared st \<longleftrightarrow> Prepared \<in> ar_state ` set (sg_ledger st)"

lemma update_record_states:
  "update_record i f ledger = Some ledger' \<Longrightarrow> (\<And>ar. Prepared \<noteq> ar_state (f ar)) \<Longrightarrow>
    Prepared \<notin> ar_state ` set ledger \<Longrightarrow> Prepared \<notin> ar_state ` set ledger'"
  by (induction ledger arbitrary: ledger') (auto split: if_splits)

lemma update_record_fresh:
  "i \<notin> ar_apply_id ` set ledger \<Longrightarrow> ar_apply_id ar = i \<Longrightarrow> update_record i f (ledger @ [ar]) = Some (ledger @ [f ar])"
  by (induction ledger) auto

lemma update_apply_state_keeps: "s \<noteq> Prepared \<Longrightarrow> io_keeps (\<lambda>st. \<not> has_prepared st) (update_apply_state env i s n)"
proof -
  assume s: "s \<noteq> Prepared"
  show ?thesis
    unfolding io_keeps_def
  proof (intro allI impI)
    fix st assume "\<not> has_prepared st"
    then show "\<not> has_prepared (snd (update_apply_state env i s n st))"
      using update_record_states [where ledger = "sg_ledger st" and i = i] s
      by (auto simp: update_apply_state_def io_read_def io_bind_def io_step_def io_update_def io_fail_def has_prepared_def
          split: option.split)
  qed
qed

lemma ledger_keeps:
  assumes "\<And>f. io_keeps P (sys env UpperRoot f)" "\<And>st n. P (st\<lparr>sg_calls := n\<rparr>) = P st" "\<And>st r. P (st\<lparr>sg_record := r\<rparr>) = P st"
    "\<And>st r. P (st\<lparr>sg_meta := r\<rparr>) = P st"
  shows "io_keeps P (complete_target_applied env lowers sel)"
proof -
  have step: "io_keeps P (io_step env e)" for e by (rule io_step_keeps [OF assms(2)])
  have "io_keeps P (prune_selected_upper env sel)" by (rule prune_upper_keeps [OF assms(1)])
  moreover have "io_keeps P (cleanup_terminal_overlay_data env)"
    unfolding cleanup_terminal_overlay_data_def
    by (auto intro!: io_keeps_read io_keeps_bind step clear_path_keeps [OF assms(1)])
  ultimately show ?thesis
    unfolding complete_target_applied_def write_overlay_record_def set_state_def Let_def
    using assms(3,4) by (auto intro!: io_keeps_read io_keeps_bind step io_update_keeps)
qed

lemma finish_apply_no_prepared: "io_keeps (\<lambda>st. \<not> has_prepared st) (finish_apply env lowers i sel)"
proof -
  have "io_keeps (\<lambda>st. \<not> has_prepared st) (complete_target_applied env lowers sel)"
    by (rule ledger_keeps) (simp_all add: has_prepared_def io_keeps_def sys_def Let_def split: sum.split)
  moreover have "io_keeps (\<lambda>st. \<not> has_prepared st) (consume_applied_preimages env sel)"
    unfolding consume_applied_preimages_def
    by (auto intro!: io_keeps_bind io_keeps_fold io_step_keeps io_update_keeps simp: has_prepared_def)
  ultimately show ?thesis
    unfolding finish_apply_def mark_apply_committed_def by (auto intro!: io_keeps_bind update_apply_state_keeps)
qed

lemma finish_apply_target: "io_keeps (\<lambda>st. sg_target st = t) (finish_apply env lowers i sel)"
proof -
  have "io_keeps (\<lambda>st. sg_target st = t) (consume_applied_preimages env sel)"
    "io_keeps (\<lambda>st. sg_target st = t) (update_apply_state env i s n)" for s n
    unfolding consume_applied_preimages_def update_apply_state_def
    by (auto intro!: io_keeps_read io_keeps_bind io_keeps_fold io_step_keeps io_update_keeps split: option.split)
  then show ?thesis
    unfolding finish_apply_def mark_apply_committed_def by (auto intro!: io_keeps_bind complete_target_applied_keeps)
qed

text \<open>A recovery writes the target only for a record in the state \<open>Prepared\<close>.\<close>

lemma recovery_keeps_target:
  assumes "\<not> has_prepared st"
  shows "sg_target (snd (recover_pending_applies_locked env lowers st)) = sg_target st"
proof -
  have one: "io_keeps (\<lambda>s. sg_target s = sg_target st) (recover_apply env lowers ar)" if "ar_state ar \<noteq> Prepared" for ar
    unfolding recover_apply_def Let_def using that
    by (intro io_keeps_read) (auto intro!: io_keeps_bind finish_apply_target split: sum.split)
  have "io_keeps (\<lambda>s. sg_target s = sg_target st) (io_fold (\<lambda>ar recovered.
      io_bind (recover_apply env lowers ar) (\<lambda>_. io_return (recovered @ [ar_apply_id ar]))) ars b)"
    if "Prepared \<notin> ar_state ` set ars" for ars b
    using that by (induction ars arbitrary: b) (auto intro!: io_keeps_bind one)
  from this [of "filter (\<lambda>ar. ar_state ar \<noteq> Committed) (sg_ledger st)" "[]"]
  show ?thesis using assms by (auto simp: recover_pending_applies_locked_def io_read_def io_keeps_def has_prepared_def)
qed

lemma apply_planned_stopped:
  fixes st0 :: stage
  assumes fresh: "\<And>n. ae_uuid env n \<notin> ar_apply_id ` set (sg_ledger st0)" and prep: "\<not> has_prepared st0"
  defines "Q \<equiv> \<lambda>st :: stage. has_prepared st \<longrightarrow> sg_upper st = sg_upper st0 \<and> sg_journal st = sg_journal st0"
  shows "Q (snd (apply_planned env lowers selection st0))"
proof -
  have kept: "Q st0" by (simp add: Q_def)
  have steps: "Q (snd (io_bind (append_apply_record env ar) (\<lambda>_.
        io_bind (apply_prepared_target env sel preimages changes False) (\<lambda>_.
        io_bind (mark_apply_target_applied env i) (\<lambda>_.
        io_bind (finish_apply env lowers i sel) (\<lambda>remaining. io_return (out remaining))))) st0))"
    if ar: "i \<notin> ar_apply_id ` set (sg_ledger st0)" "ar_apply_id ar = i" for ar i sel preimages changes and out :: "ChangeEntry list \<Rightarrow> ApplyOutcome"
  proof (rule io_triple_run [of "\<lambda>st. st = st0"])
    let ?P = "\<lambda>st. beside_target st = (sg_upper st0, sg_record st0, sg_journal st0, sg_ledger st0 @ [ar])"
    have a: "io_triple (\<lambda>st. st = st0) (append_apply_record env ar) (\<lambda>_. ?P) Q"
      by (auto simp: io_triple_def append_apply_record_def io_bind_def io_step_def io_update_def beside_target_def Q_def)
    have b: "io_triple ?P (apply_prepared_target env sel preimages changes False) (\<lambda>_. ?P) Q"
      by (rule io_triple_keeps [OF apply_prepared_target_keeps]) (simp add: beside_target_def Q_def)
    have c: "io_triple ?P (mark_apply_target_applied env i) (\<lambda>_ st. \<not> has_prepared st) Q"
      using update_record_fresh [OF ar] prep
      by (auto simp: io_triple_def mark_apply_target_applied_def update_apply_state_def io_read_def io_bind_def io_step_def
          io_update_def beside_target_def has_prepared_def Q_def)
    have d: "io_triple (\<lambda>st. \<not> has_prepared st) (io_bind (finish_apply env lowers i sel)
        (\<lambda>remaining. io_return (out remaining))) (\<lambda>_. Q) Q"
      by (rule io_triple_weaken [OF io_triple_keeps [of "\<lambda>st. \<not> has_prepared st" _ "\<lambda>st. \<not> has_prepared st"]])
        (auto intro!: io_keeps_bind finish_apply_no_prepared simp: Q_def)
    show "io_triple (\<lambda>st. st = st0) (io_bind (append_apply_record env ar) (\<lambda>_.
        io_bind (apply_prepared_target env sel preimages changes False) (\<lambda>_.
        io_bind (mark_apply_target_applied env i) (\<lambda>_.
        io_bind (finish_apply env lowers i sel) (\<lambda>remaining. io_return (out remaining)))))) (\<lambda>_. Q) Q"
      by (intro io_triple_bind [OF a] io_triple_bind [OF b] io_triple_bind [OF c] d)
  qed simp
  show ?thesis
    unfolding apply_planned_def io_read_def Let_def
    using kept by (auto split: option.split sum.split simp: io_fail_def intro!: steps [OF fresh])
qed

subsection \<open>A target that was edited, and an apply that stops\<close>

definition changed_stage :: stage where
  "changed_stage = partial_stage\<lparr>sg_target := AList.update [''etc'', ''hosts''] (FileNode demo_meta ''edited'') demo_lower\<rparr>"

lemma changed_plan:
  "map_option (map_sum id pl_selected_paths) (plan_overlay_apply (ae_globs apply_demo_env) (ae_inodes apply_demo_env)
      [alist_layer (sg_target changed_stage)] (sg_upper changed_stage) everything) =
    Some (Inr [[''etc''], [''etc'', ''hosts''], [''etc'', ''new'']])"
  by code_simp

definition stopping :: "nat \<Rightarrow> apply_env" where
  "stopping i = apply_demo_env\<lparr>ae_core := apply_core\<lparr>oc_fault := (\<lambda>n. n = i)\<rparr>\<rparr>"

definition directory_stage :: stage where
  "directory_stage = staged apply_core demo_lower
    (snd (run_ops (overlay_exec apply_core) [Remove [''motd''] False, CreateDir [''motd''] 0x1ED] (projr (overlay_new apply_core))))"

subsection \<open>Properties\<close>





text \<open>Yet a recovery can refuse what the apply itself has done. A file is replaced by a directory; the
  apply removes the file and stops before it creates the directory. The path is then neither in its first
  state nor in the desired one, so every later apply takes it for a change by someone else.\<close>

theorem stopped_apply_stuck:
  "case apply_overlay (stopping 3) directory_stage of (r, st) \<Rightarrow>
     r = Inl (OverlayIo EIO) \<and> map ar_state (sg_ledger st) = [Prepared] \<and>
     map_of (sg_target st) [''motd''] = None \<and> fst (apply_overlay apply_demo_env st) = Inl ApplyError"
  by code_simp

end
