(* ===== verification/EventWal.thy ===== *)
theory EventWal
  imports LogFile BTreeMap
begin

section \<open>The event write-ahead log of the gateway\<close>

text \<open>
  \<open>engine/wal.rs\<close> of the gateway. The submitting side numbers an event and puts its line into a
  bounded queue; a writer thread takes lines from the queue in batches and appends them to the
  file. Reading the file back gives the events without an acknowledgement. The file is its bytes;
  the JSON of a line (\<open>serde_json\<close>) and the serialisable image of an event (\<open>dead_letter.rs\<close>) are
  parameters. How many lines join a batch depends on time and is an argument of the writer's step,
  as is the outcome of its write.
\<close>

datatype 'p WalLine = WalEvent (seq_of: u64) (timestamp_of: string) (payload_of: 'p) | WalAck (seq_of: u64)

datatype 'p WalCommand = Line "'p WalLine" | Flush | Truncate | Shutdown

datatype wal_error = WalNotOpen | TruncateFailed

record 'p PendingEntry =
  pe_seq :: u64
  pe_payload :: 'p

text \<open>
  \<open>wal_sender\<close> is the channel with the commands that wait in it; a non-line command that the writer
  holds in \<open>deferred\<close> is still its first element here. \<open>wal_file\<close> is the file on disk.
\<close>

record 'p EventWal =
  wal_next_seq :: u64
  wal_sender :: "'p WalCommand list option"
  wal_enabled :: bool
  wal_file :: string

text \<open>Code outside the two files: the JSON codec, the serialisable image of an event, its story.\<close>

record ('ev, 'p) wal_env =
  to_json :: "'p WalLine \<Rightarrow> string"
  from_json :: "string \<Rightarrow> 'p WalLine option"
  from_event :: "'ev \<Rightarrow> 'p"
  to_event :: "'p \<Rightarrow> 'ev"
  story_of :: "'ev \<Rightarrow> string"

definition GROUP_COMMIT_MAX_LINES :: nat where
  "GROUP_COMMIT_MAX_LINES = 256"

definition WAL_QUEUE_CAPACITY :: nat where
  "WAL_QUEUE_CAPACITY = 256"

subsection \<open>Reading the file\<close>

definition parse_line :: "('ev, 'p) wal_env \<Rightarrow> string \<Rightarrow> 'p WalLine option" where
  "parse_line env line = (if trim line = [] then None else from_json env (trim line))"

definition replay_line ::
  "('ev, 'p) wal_env \<Rightarrow> string \<Rightarrow> (u64, 'p PendingEntry) btree \<times> u64 set \<Rightarrow> (u64, 'p PendingEntry) btree \<times> u64 set"
where
  "replay_line env line = (\<lambda>(events, acked).
     if \<not> valid_utf8 line then (events, acked)
     else case parse_line env line of
       None \<Rightarrow> (events, acked)
     | Some (WalEvent seq _ payload) \<Rightarrow> (bt_insert seq \<lparr>pe_seq = seq, pe_payload = payload\<rparr> events, acked)
     | Some (WalAck seq) \<Rightarrow> (events, insert seq acked))"

definition replay_pending :: "('ev, 'p) wal_env \<Rightarrow> string \<Rightarrow> 'p PendingEntry list" where
  "replay_pending env bytes =
    (let (events, acked) = fold (replay_line env) (split_lines [] bytes) ([], {}) in
     map snd (filter (\<lambda>(seq, _). seq \<notin> acked) events))"

text \<open>\<open>map_while(Result::ok)\<close> ends the scan at the first line that is not UTF-8.\<close>

definition next_sequence :: "('ev, 'p) wal_env \<Rightarrow> string \<Rightarrow> u64" where
  "next_sequence env bytes =
    (case map seq_of (List.map_filter (\<lambda>line. from_json env (trim line))
            (takeWhile valid_utf8 (split_lines [] bytes))) of
       [] \<Rightarrow> 0
     | s # ss \<Rightarrow> saturating_add (fold max ss s) 1)"

subsection \<open>The submitting side\<close>

definition wal_open :: "('ev, 'p) wal_env \<Rightarrow> bool \<Rightarrow> string \<Rightarrow> 'p EventWal" where
  "wal_open env prepared bytes =
    (if prepared then
       \<lparr>wal_next_seq = next_sequence env bytes, wal_sender = Some [], wal_enabled = True, wal_file = bytes\<rparr>
     else \<lparr>wal_next_seq = 0, wal_sender = None, wal_enabled = False, wal_file = bytes\<rparr>)"

definition try_send :: "'p WalCommand \<Rightarrow> 'p EventWal \<Rightarrow> bool \<times> 'p EventWal" where
  "try_send command w =
    (case wal_sender w of
       None \<Rightarrow> (False, w)
     | Some queue \<Rightarrow>
         if length queue < WAL_QUEUE_CAPACITY then (True, w\<lparr>wal_sender := Some (queue @ [command])\<rparr>)
         else (False, w))"

definition append_event ::
  "('ev, 'p) wal_env \<Rightarrow> string \<Rightarrow> 'ev \<Rightarrow> 'p EventWal \<Rightarrow> u64 option \<times> 'p EventWal"
where
  "append_event env now event w =
    (if \<not> wal_enabled w then (None, w)
     else
       let seq = wal_next_seq w;
           line = WalEvent seq now (from_event env event);
           (sent, w') = try_send (Line line) (w\<lparr>wal_next_seq := seq + 1\<rparr>) in
       (if sent then Some seq else None, w'))"

definition ack :: "u64 \<Rightarrow> 'p EventWal \<Rightarrow> 'p EventWal" where
  "ack seq w = (if \<not> wal_enabled w then w else snd (try_send (Line (WalAck seq)) w))"

text \<open>\<open>flush\<close> and \<open>truncate\<close>: the command is sent (waiting for room), its result is the writer's.\<close>

definition control :: "'p WalCommand \<Rightarrow> 'p EventWal \<Rightarrow> (wal_error + unit) \<times> 'p EventWal" where
  "control command w =
    (if \<not> wal_enabled w then (Inr (), w)
     else case wal_sender w of
       None \<Rightarrow> (Inl WalNotOpen, w)
     | Some queue \<Rightarrow> (Inr (), w\<lparr>wal_sender := Some (queue @ [command])\<rparr>))"

subsection \<open>The writer thread\<close>

definition commit_lines :: "('ev, 'p) wal_env \<Rightarrow> write_fate \<Rightarrow> 'p WalLine list \<Rightarrow> string \<Rightarrow> string" where
  "commit_lines env fate batch bytes =
    (let new = concat (map (\<lambda>line. to_json env line @ [CHR 0x0A]) batch) in
     case fate of WriteOk \<Rightarrow> bytes @ new | WriteFails n \<Rightarrow> bytes @ take n new)"

text \<open>The lines at the head of the queue, at most \<open>n\<close>, and what is left of the queue.\<close>

fun take_lines :: "nat \<Rightarrow> 'p WalCommand list \<Rightarrow> 'p WalLine list \<times> 'p WalCommand list" where
  "take_lines (Suc n) (Line line # queue) = (let (batch, rest) = take_lines n queue in (line # batch, rest))"
| "take_lines _ queue = ([], queue)"

definition batch_of :: "nat \<Rightarrow> 'p WalCommand list \<Rightarrow> 'p WalLine list \<times> 'p WalCommand list" where
  "batch_of joined queue = take_lines (min (Suc joined) GROUP_COMMIT_MAX_LINES) queue"

text \<open>
  One round of \<open>group_commit_loop\<close>: \<open>joined\<close> lines arrive within the delay of the first one. The
  result is what the round sends to the caller of \<open>control\<close>, if it is a control command. A failed
  truncation left the file as it was (\<open>WriteFails 0\<close>, the open failed) or empty (the sync failed).
\<close>

definition writer_round ::
  "('ev, 'p) wal_env \<Rightarrow> nat \<Rightarrow> write_fate \<Rightarrow> 'p EventWal \<Rightarrow> (wal_error + unit) option \<times> 'p EventWal"
where
  "writer_round env joined fate w =
    (case wal_sender w of
       None \<Rightarrow> (None, w)
     | Some [] \<Rightarrow> (None, w)
     | Some (Line line # queue) \<Rightarrow>
         let (batch, rest) = batch_of joined (Line line # queue) in
         (None, w\<lparr>wal_sender := Some rest, wal_file := commit_lines env fate batch (wal_file w)\<rparr>)
     | Some (Flush # queue) \<Rightarrow> (Some (Inr ()), w\<lparr>wal_sender := Some queue\<rparr>)
     | Some (Truncate # queue) \<Rightarrow>
         (case fate of
            WriteOk \<Rightarrow> (Some (Inr ()), w\<lparr>wal_sender := Some queue, wal_file := []\<rparr>)
          | WriteFails 0 \<Rightarrow> (Some (Inl TruncateFailed), w\<lparr>wal_sender := Some queue\<rparr>)
          | WriteFails _ \<Rightarrow> (Some (Inl TruncateFailed), w\<lparr>wal_sender := Some queue, wal_file := []\<rparr>))
     | Some (Shutdown # queue) \<Rightarrow> (None, w\<lparr>wal_sender := None\<rparr>))"

subsection \<open>What the codec promises\<close>

text \<open>
  \<open>serde_json\<close>: a line is a compact JSON object, so it is valid UTF-8, starts with a brace, ends
  with one and has no line feed (a line feed inside a string is escaped); parsing gives it back.
\<close>

definition wal_codec :: "('ev, 'p) wal_env \<Rightarrow> bool" where
  "wal_codec env \<longleftrightarrow> (\<forall>line.
     from_json env (to_json env line) = Some line \<and> valid_utf8 (to_json env line) \<and>
     CHR 0x0A \<notin> set (to_json env line) \<and>
     (\<exists>body. to_json env line = CHR ''{'' # body @ [CHR ''}'']))"

lemma wal_codecD:
  assumes "wal_codec env"
  shows "from_json env (to_json env line) = Some line" "valid_utf8 (to_json env line)"
    "CHR 0x0A \<notin> set (to_json env line)" "\<exists>body. to_json env line = CHR ''{'' # body @ [CHR ''}'']"
  using assms by (auto simp: wal_codec_def)

lemma trim_braces: "trim (CHR ''{'' # body @ [CHR ''}'']) = CHR ''{'' # body @ [CHR ''}'']"
proof -
  let ?s = "CHR ''{'' # body @ [CHR ''}'']"
  have no: "\<not> starts_with ?s w \<and> \<not> ends_with ?s w" if "w \<in> set ws_seqs" for w
  proof -
    have "w \<noteq> []" using that ws_seqs_nonempty by blast
    moreover have "CHR ''{'' \<notin> set w" "CHR ''}'' \<notin> set w"
      using ws_seqs_not_graphic [OF that, of "CHR ''{''"] ws_seqs_not_graphic [OF that, of "CHR ''}''"]
      by (auto simp: graphic_def)
    ultimately have "\<not> starts_with ?s w" by (cases w) (auto simp: starts_with_iff)
    moreover have "\<not> ends_with ?s w"
    proof
      assume "ends_with ?s w"
      then obtain r where "?s = r @ w" by (auto simp: ends_with_iff)
      then have "last ?s = last w" using \<open>w \<noteq> []\<close> by simp
      then show False using \<open>w \<noteq> []\<close> \<open>CHR ''}'' \<notin> set w\<close> by (metis append_Cons last_in_set last_snoc)
    qed
    ultimately show ?thesis by simp
  qed
  then have "find (starts_with ?s) ws_seqs = None" "find (ends_with ?s) ws_seqs = None"
    by (auto simp: find_None_iff)
  then show ?thesis by (simp add: trim_def trim_start.simps [of ?s] trim_end.simps [of ?s])
qed

lemma trim_json: "wal_codec env \<Longrightarrow> trim (to_json env line) = to_json env line"
  using wal_codecD(4) [of env line] trim_braces by force

lemma json_not_empty: "wal_codec env \<Longrightarrow> to_json env line \<noteq> []"
  using wal_codecD(4) [of env line] by auto

lemma parse_json [simp]: "wal_codec env \<Longrightarrow> parse_line env (to_json env line) = Some line"
  by (simp add: parse_line_def trim_json json_not_empty wal_codecD)

subsection \<open>A file of whole lines\<close>

definition wal_bytes :: "('ev, 'p) wal_env \<Rightarrow> 'p WalLine list \<Rightarrow> string" where
  "wal_bytes env ls = bytes_of_lines (map (to_json env) ls)"

lemma wal_bytes_append [simp]: "wal_bytes env (xs @ ys) = wal_bytes env xs @ wal_bytes env ys"
  by (simp add: wal_bytes_def)

lemma wal_bytes_Nil [simp]: "wal_bytes env [] = []"
  by (simp add: wal_bytes_def)

lemma commit_lines_ok: "commit_lines env WriteOk batch bytes = bytes @ wal_bytes env batch"
  by (simp add: commit_lines_def wal_bytes_def bytes_of_lines_def comp_def)

lemma split_wal_bytes:
  assumes "wal_codec env"
  shows "split_lines [] (wal_bytes env ls) = map (to_json env) ls"
  using split_bytes_of_lines [of "map (to_json env) ls" "[]"] wal_codecD(3) [OF assms]
  by (simp add: wal_bytes_def list_all_iff)

lemma replay_line_json:
  assumes "wal_codec env"
  shows "replay_line env (to_json env (WalEvent s t p)) (events, acked) =
      (bt_insert s \<lparr>pe_seq = s, pe_payload = p\<rparr> events, acked)"
    "replay_line env (to_json env (WalAck s)) (events, acked) = (events, insert s acked)"
  using assms wal_codecD(2) [OF assms] by (simp_all add: replay_line_def)

lemma replay_fold:
  assumes "wal_codec env"
  shows "fold (replay_line env) (map (to_json env) ls) (events, acked) = (events', acked') \<Longrightarrow>
    acked' = acked \<union> {s. WalAck s \<in> set ls} \<and> (bt_sorted events \<longrightarrow> bt_sorted events') \<and>
    (\<forall>s e. (bt_get events' s = Some e \<longrightarrow> bt_get events s = Some e \<or>
        (\<exists>t p. WalEvent s t p \<in> set ls \<and> e = \<lparr>pe_seq = s, pe_payload = p\<rparr>))) \<and>
    (\<forall>s t p. WalEvent s t p \<in> set ls \<longrightarrow> bt_get events' s \<noteq> None) \<and>
    (\<forall>s. bt_get events s \<noteq> None \<longrightarrow> bt_get events' s \<noteq> None)"
proof (induction ls arbitrary: events acked)
  case (Cons l ls)
  show ?case
  proof (cases l)
    case (WalEvent s t p)
    then have "fold (replay_line env) (map (to_json env) ls)
        (bt_insert s \<lparr>pe_seq = s, pe_payload = p\<rparr> events, acked) = (events', acked')"
      using Cons.prems by (simp add: replay_line_json [OF assms])
    from Cons.IH [OF this] WalEvent show ?thesis
      by (auto split: if_splits) blast+
  next
    case (WalAck s)
    then have "fold (replay_line env) (map (to_json env) ls) (events, insert s acked) = (events', acked')"
      using Cons.prems by (simp add: replay_line_json [OF assms])
    from Cons.IH [OF this] WalAck show ?thesis by auto
  qed
qed auto

text \<open>Every event of the log has one payload: a number is not used twice.\<close>

definition one_payload :: "'p WalLine set \<Rightarrow> bool" where
  "one_payload L \<longleftrightarrow> (\<forall>s t p t' p'. WalEvent s t p \<in> L \<longrightarrow> WalEvent s t' p' \<in> L \<longrightarrow> p = p')"

lemma replay_pending_iff:
  assumes codec: "wal_codec env" and one: "one_payload (set ls)"
  shows "e \<in> set (replay_pending env (wal_bytes env ls)) \<longleftrightarrow>
    (\<exists>s t p. WalEvent s t p \<in> set ls \<and> WalAck s \<notin> set ls \<and> e = \<lparr>pe_seq = s, pe_payload = p\<rparr>)"
proof -
  obtain events acked where f: "fold (replay_line env) (map (to_json env) ls) ([], {}) = (events, acked)"
    by (rule prod.exhaust)
  note r = replay_fold [OF codec f]
  have from_ls: "\<exists>t p. WalEvent s t p \<in> set ls \<and> e = \<lparr>pe_seq = s, pe_payload = p\<rparr>"
    if "bt_get events s = Some e" for s e
    using r that by auto
  have get: "bt_get events s = Some e \<longleftrightarrow> (\<exists>t p. WalEvent s t p \<in> set ls \<and> e = \<lparr>pe_seq = s, pe_payload = p\<rparr>)" for s e
  proof
    assume "bt_get events s = Some e"
    then show "\<exists>t p. WalEvent s t p \<in> set ls \<and> e = \<lparr>pe_seq = s, pe_payload = p\<rparr>" by (rule from_ls)
  next
    assume "\<exists>t p. WalEvent s t p \<in> set ls \<and> e = \<lparr>pe_seq = s, pe_payload = p\<rparr>"
    then obtain t p where ev: "WalEvent s t p \<in> set ls" "e = \<lparr>pe_seq = s, pe_payload = p\<rparr>" by blast
    with r obtain e' where "bt_get events s = Some e'" by blast
    moreover from from_ls [OF this] obtain t' p'
      where "WalEvent s t' p' \<in> set ls" "e' = \<lparr>pe_seq = s, pe_payload = p'\<rparr>"
      by blast
    ultimately show "bt_get events s = Some e" using ev one unfolding one_payload_def by metis
  qed
  have "e \<in> set (replay_pending env (wal_bytes env ls)) \<longleftrightarrow> (\<exists>s. bt_get events s = Some e \<and> WalAck s \<notin> set ls)"
    using r f by (auto simp: replay_pending_def split_wal_bytes [OF codec] bt_get_iff image_iff)
  then show ?thesis by (auto simp: get)
qed

lemma fold_max: "fold max ss s = Max (set (s # ss))" for s :: "'a :: linorder"
  by (metis Max.set_eq_fold)

lemma next_sequence_lines:
  assumes codec: "wal_codec env" and "\<forall>l \<in> set ls. unat (seq_of l) < n" and "n < 2 ^ 64"
  shows "unat (next_sequence env (wal_bytes env ls)) \<le> n \<and>
    (\<forall>l \<in> set ls. seq_of l < next_sequence env (wal_bytes env ls))"
proof -
  have tw: "takeWhile valid_utf8 (map (to_json env) ls) = map (to_json env) ls"
    using wal_codecD(2) [OF codec] by (auto simp: takeWhile_eq_all_conv)
  have parsed: "List.map_filter (\<lambda>line. from_json env (trim line)) (map (to_json env) ls) = ls"
    by (induction ls) (simp_all add: trim_json [OF codec] wal_codecD(1) [OF codec])
  show ?thesis
  proof (cases "map seq_of ls")
    case Nil
    then show ?thesis by (simp add: next_sequence_def split_wal_bytes [OF codec] tw parsed)
  next
    case (Cons s ss)
    define m where "m = Max (set (s # ss))"
    have "m \<in> set (map seq_of ls)" unfolding m_def Cons by (rule Max_in) auto
    then have m: "unat m < n" using assms(2) by auto
    have le: "seq_of l \<le> m" if "l \<in> set ls" for l
      unfolding m_def Cons [symmetric] using that by (intro Max_ge) auto
    have "next_sequence env (wal_bytes env ls) = saturating_add (fold max ss s) 1"
      by (simp add: next_sequence_def split_wal_bytes [OF codec] tw parsed Cons)
    then have ns: "next_sequence env (wal_bytes env ls) = m + 1" "unat (m + 1) = Suc (unat m)"
      using m assms(3) by (auto simp: fold_max m_def saturating_add_def unat_word_ariths)
    show ?thesis using m le by (simp add: ns word_less_nat_alt word_le_nat_alt less_Suc_eq_le)
  qed
qed

end
