(* ===== verification/CaptureRuntime.thy ===== *)
theory CaptureRuntime
  imports EventWal "HOL-Library.AList"
begin

section \<open>The capture runtime: log, apply queues, restart\<close>

text \<open>
  \<open>engine/apply_queue.rs\<close> and the parts of \<open>engine/coordinator.rs\<close> that decide what happens to an
  event: \<open>spawn_apply\<close> submits it to the log and to the queue of its story, a consumer applies the
  jobs of a story in order and acknowledges those that succeed, a new process replays what the log
  has pending, and a clean shutdown empties the log. Whether one apply succeeds is an argument of
  the consumer's step. \<open>rt_applied\<close> is the sequence of the events that the sink confirmed.
\<close>

definition APPLY_QUEUE_CAPACITY :: nat where
  "APPLY_QUEUE_CAPACITY = 256"

definition REJECTED_EVENT_QUEUE_CAPACITY :: nat where
  "REJECTED_EVENT_QUEUE_CAPACITY = 256"

datatype 'ev ApplyJob = Capture 'ev "u64 option" | Barrier

record ('ev, 'p) runtime =
  rt_wal :: "'p EventWal"
  rt_queues :: "(string \<times> 'ev ApplyJob list) list"
  rt_rejected :: "'ev list"
  rt_dead_letters :: "'ev list"
  rt_applied :: "(u64 option \<times> 'ev) list"

subsection \<open>The dispatcher\<close>

definition queue_of :: "string \<Rightarrow> ('ev, 'p) runtime \<Rightarrow> 'ev ApplyJob list" where
  "queue_of story rt = (case map_of (rt_queues rt) story of None \<Rightarrow> [] | Some queue \<Rightarrow> queue)"

definition try_record :: "'ev \<Rightarrow> ('ev, 'p) runtime \<Rightarrow> ('ev, 'p) runtime" where
  "try_record event rt =
    (if length (rt_rejected rt) < REJECTED_EVENT_QUEUE_CAPACITY then rt\<lparr>rt_rejected := rt_rejected rt @ [event]\<rparr>
     else rt)"

definition enqueue ::
  "('ev, 'p) wal_env \<Rightarrow> 'ev \<Rightarrow> u64 option \<Rightarrow> ('ev, 'p) runtime \<Rightarrow> ('ev, 'p) runtime"
where
  "enqueue env event wal_seq rt =
    (let story = story_of env event; queue = queue_of story rt in
     if length queue < APPLY_QUEUE_CAPACITY then
       rt\<lparr>rt_queues := AList.update story (queue @ [Capture event wal_seq]) (rt_queues rt)\<rparr>
     else try_record event rt)"

text \<open>One turn of the consumer of a story, with the outcome of the apply.\<close>

definition consume :: "string \<Rightarrow> bool \<Rightarrow> ('ev, 'p) runtime \<Rightarrow> ('ev, 'p) runtime" where
  "consume story ok rt =
    (case queue_of story rt of
       [] \<Rightarrow> rt
     | job # queue \<Rightarrow>
         let rt' = rt\<lparr>rt_queues := AList.update story queue (rt_queues rt)\<rparr> in
         case job of
           Barrier \<Rightarrow> rt'
         | Capture event wal_seq \<Rightarrow>
             if ok then
               rt'\<lparr>rt_applied := rt_applied rt @ [(wal_seq, event)],
                   rt_wal := (case wal_seq of None \<Rightarrow> rt_wal rt | Some seq \<Rightarrow> ack seq (rt_wal rt))\<rparr>
             else rt')"

text \<open>One message of the dead letter thread, with the outcome of its write.\<close>

definition rejected_writer_turn :: "bool \<Rightarrow> ('ev, 'p) runtime \<Rightarrow> ('ev, 'p) runtime" where
  "rejected_writer_turn ok rt =
    (case rt_rejected rt of
       [] \<Rightarrow> rt
     | event # rest \<Rightarrow>
         rt\<lparr>rt_rejected := rest,
            rt_dead_letters := (if ok then rt_dead_letters rt @ [event] else rt_dead_letters rt)\<rparr>)"

text \<open>\<open>flush\<close> puts a barrier into every queue and waits until the consumers have reached it.\<close>

definition flush :: "('ev, 'p) runtime \<Rightarrow> ('ev, 'p) runtime" where
  "flush rt = rt\<lparr>rt_queues := map (\<lambda>(story, queue). (story, queue @ [Barrier])) (rt_queues rt)\<rparr>"

subsection \<open>The runtime\<close>

definition spawn_apply ::
  "('ev, 'p) wal_env \<Rightarrow> string \<Rightarrow> 'ev \<Rightarrow> ('ev, 'p) runtime \<Rightarrow> ('ev, 'p) runtime"
where
  "spawn_apply env now event rt =
    (let (wal_seq, w) = append_event env now event (rt_wal rt) in
     enqueue env event wal_seq (rt\<lparr>rt_wal := w\<rparr>))"

definition replay_wal :: "('ev, 'p) wal_env \<Rightarrow> ('ev, 'p) runtime \<Rightarrow> ('ev, 'p) runtime" where
  "replay_wal env rt =
    fold (\<lambda>entry. enqueue env (to_event env (pe_payload entry)) (Some (pe_seq entry)))
      (replay_pending env (wal_file (rt_wal rt))) rt"

text \<open>A new process on the files of the last one.\<close>

definition new_runtime :: "('ev, 'p) wal_env \<Rightarrow> bool \<Rightarrow> ('ev, 'p) runtime \<Rightarrow> ('ev, 'p) runtime" where
  "new_runtime env prepared rt =
    replay_wal env
      \<lparr>rt_wal = wal_open env prepared (wal_file (rt_wal rt)), rt_queues = [], rt_rejected = [],
       rt_dead_letters = rt_dead_letters rt, rt_applied = rt_applied rt\<rparr>"

text \<open>
  \<open>shutdown\<close> after its \<open>flush\<close>: every accepted job has been handled and every line committed. The
  truncation is the writer's round for the \<open>Truncate\<close> command.
\<close>

definition flushed :: "('ev, 'p) runtime \<Rightarrow> bool" where
  "flushed rt \<longleftrightarrow> list_all (\<lambda>(_, queue). queue = []) (rt_queues rt) \<and>
    (case wal_sender (rt_wal rt) of None \<Rightarrow> True | Some queue \<Rightarrow> queue = [])"

definition shutdown :: "('ev, 'p) wal_env \<Rightarrow> write_fate \<Rightarrow> ('ev, 'p) runtime \<Rightarrow> ('ev, 'p) runtime" where
  "shutdown env fate rt =
    (if replay_pending env (wal_file (rt_wal rt)) = [] then
       rt\<lparr>rt_wal := snd (writer_round env 0 fate (snd (control Truncate (rt_wal rt))))\<rparr>
     else rt)"

subsection \<open>Runs\<close>

text \<open>
  What can happen, in any order: a submission, a turn of a consumer, a round of the log's writer, a
  message of the dead letter thread, a process that ends at any point and is started again, and a
  clean shutdown that is followed by a new process. A shutdown still waits while it is not flushed.
\<close>

datatype 'ev action =
  Spawn string 'ev | Consume string bool | Commit nat write_fate | RecordDead bool | FlushQueues |
  Restart bool | Stop write_fate

fun runtime_step :: "('ev, 'p) wal_env \<Rightarrow> 'ev action \<Rightarrow> ('ev, 'p) runtime \<Rightarrow> ('ev, 'p) runtime" where
  "runtime_step env (Spawn now event) rt = spawn_apply env now event rt"
| "runtime_step env (Consume story ok) rt = consume story ok rt"
| "runtime_step env (Commit joined fate) rt = rt\<lparr>rt_wal := snd (writer_round env joined fate (rt_wal rt))\<rparr>"
| "runtime_step env (RecordDead ok) rt = rejected_writer_turn ok rt"
| "runtime_step env FlushQueues rt = flush rt"
| "runtime_step env (Restart prepared) rt = new_runtime env prepared rt"
| "runtime_step env (Stop fate) rt = (if flushed rt then new_runtime env True (shutdown env fate rt) else rt)"

definition first_runtime :: "('ev, 'p) wal_env \<Rightarrow> ('ev, 'p) runtime" where
  "first_runtime env =
    \<lparr>rt_wal = wal_open env True [], rt_queues = [], rt_rejected = [], rt_dead_letters = [], rt_applied = []\<rparr>"

text \<open>The events whose lines a step commits, and those of a run so far.\<close>

definition committed_by :: "'ev action \<Rightarrow> ('ev, 'p) runtime \<Rightarrow> (u64 \<times> 'p) list" where
  "committed_by action rt =
    (case (action, wal_sender (rt_wal rt)) of
       (Commit joined WriteOk, Some queue) \<Rightarrow>
         List.map_filter (\<lambda>l. case l of WalEvent s _ p \<Rightarrow> Some (s, p) | WalAck _ \<Rightarrow> None) (fst (batch_of joined queue))
     | _ \<Rightarrow> [])"

fun run_runtime ::
  "('ev, 'p) wal_env \<Rightarrow> 'ev action list \<Rightarrow> ('ev, 'p) runtime \<Rightarrow> ('ev, 'p) runtime \<times> (u64 \<times> 'p) list"
where
  "run_runtime env [] rt = (rt, [])"
| "run_runtime env (action # actions) rt =
    (let (rt', committed) = run_runtime env actions (runtime_step env action rt) in
     (rt', committed_by action rt @ committed))"

text \<open>An event of the log has been applied when the sink confirmed it, as submitted or as replayed.\<close>

definition same_event :: "('ev, 'p) wal_env \<Rightarrow> 'p \<Rightarrow> 'ev \<Rightarrow> bool" where
  "same_event env p event \<longleftrightarrow> from_event env event = p \<or> to_event env p = event"

definition applied_as :: "('ev, 'p) wal_env \<Rightarrow> (u64 option \<times> 'ev) list \<Rightarrow> u64 \<Rightarrow> 'p \<Rightarrow> bool" where
  "applied_as env applied s p \<longleftrightarrow> list_ex (\<lambda>(seq, event). seq = Some s \<and> same_event env p event) applied"

fun whole_write :: "'ev action \<Rightarrow> bool" where
  "whole_write (Commit _ fate) = (fate = WriteOk)"
| "whole_write _ = True"

subsection \<open>The invariant\<close>

definition queued :: "'p EventWal \<Rightarrow> 'p WalCommand list" where
  "queued w = (case wal_sender w of None \<Rightarrow> [] | Some queue \<Rightarrow> queue)"

definition log_lines :: "'p WalLine list \<Rightarrow> 'p EventWal \<Rightarrow> 'p WalLine set" where
  "log_lines ls w = set ls \<union> {l. Line l \<in> set (queued w)}"

definition jobs :: "('ev, 'p) runtime \<Rightarrow> 'ev ApplyJob set" where
  "jobs rt = {job. \<exists>story. job \<in> set (queue_of story rt)}"

text \<open>What holds of the lines of the log, in the file or still queued, and of the waiting jobs.\<close>

definition log_ok :: "('ev, 'p) wal_env \<Rightarrow> nat \<Rightarrow> 'p WalLine set \<Rightarrow> (u64 option \<times> 'ev) list \<Rightarrow> bool" where
  "log_ok env n L applied \<longleftrightarrow> one_payload L \<and> (\<forall>l \<in> L. unat (seq_of l) < n) \<and>
    (\<forall>s t p. WalAck s \<in> L \<longrightarrow> WalEvent s t p \<in> L \<longrightarrow> applied_as env applied s p)"

definition jobs_ok :: "('ev, 'p) wal_env \<Rightarrow> 'p WalLine set \<Rightarrow> 'ev ApplyJob set \<Rightarrow> bool" where
  "jobs_ok env L J \<longleftrightarrow> (\<forall>event s. Capture event (Some s) \<in> J \<longrightarrow>
     (\<exists>t p. WalEvent s t p \<in> L \<and> same_event env p event))"

definition numbers_ok :: "nat \<Rightarrow> 'p WalLine set \<Rightarrow> 'p EventWal \<Rightarrow> bool" where
  "numbers_ok n L w \<longleftrightarrow> (wal_enabled w \<longrightarrow> unat (wal_next_seq w) \<le> n \<and> (\<forall>l \<in> L. seq_of l < wal_next_seq w))"

definition log_keeps ::
  "('ev, 'p) wal_env \<Rightarrow> 'p WalLine list \<Rightarrow> (u64 option \<times> 'ev) list \<Rightarrow> (u64 \<times> 'p) list \<Rightarrow> bool"
where
  "log_keeps env ls applied committed \<longleftrightarrow>
    (\<forall>s p. (s, p) \<in> set committed \<longrightarrow> applied_as env applied s p \<or> (\<exists>t. WalEvent s t p \<in> set ls))"

definition runtime_ok ::
  "('ev, 'p) wal_env \<Rightarrow> nat \<Rightarrow> 'p WalLine list \<Rightarrow> (u64 \<times> 'p) list \<Rightarrow> ('ev, 'p) runtime \<Rightarrow> bool"
where
  "runtime_ok env n ls committed rt \<longleftrightarrow>
    wal_file (rt_wal rt) = wal_bytes env ls \<and> (\<forall>c \<in> set (queued (rt_wal rt)). \<exists>l. c = Line l) \<and>
    log_ok env n (log_lines ls (rt_wal rt)) (rt_applied rt) \<and> numbers_ok n (log_lines ls (rt_wal rt)) (rt_wal rt) \<and>
    jobs_ok env (log_lines ls (rt_wal rt)) (jobs rt) \<and> log_keeps env ls (rt_applied rt) committed"

lemma applied_as_append: "applied_as env applied s p \<Longrightarrow> applied_as env (applied @ rest) s p"
  by (auto simp: applied_as_def)

lemma runtime_ok_Suc: "runtime_ok env n ls committed rt \<Longrightarrow> runtime_ok env (Suc n) ls committed rt"
  by (auto simp: runtime_ok_def log_ok_def numbers_ok_def)

lemma log_ok_subset: "log_ok env n L applied \<Longrightarrow> L' \<subseteq> L \<Longrightarrow> log_ok env n L' applied"
  unfolding log_ok_def one_payload_def by blast

lemma log_ok_ack:
  assumes ok: "log_ok env n L applied" and ev: "WalEvent s t p \<in> L" and "applied_as env applied s p"
  shows "log_ok env n (insert (WalAck s) L) applied"
proof -
  have "one_payload (insert (WalAck s) L)" using ok by (simp add: log_ok_def one_payload_def)
  moreover have "unat s < n" using ok ev unfolding log_ok_def by force
  moreover have "applied_as env applied s p'" if "WalEvent s t' p' \<in> L" for t' p'
    using ok ev that assms(3) unfolding log_ok_def one_payload_def by metis
  ultimately show ?thesis using ok by (auto simp: log_ok_def)
qed

text \<open>The queues.\<close>

lemma queue_of_update:
  "queue_of story (rt\<lparr>rt_queues := AList.update story' queue (rt_queues rt)\<rparr>) =
    (if story = story' then queue else queue_of story rt)"
  by (simp add: queue_of_def update_conv')

lemma queue_of_wal [simp]: "queue_of story (rt\<lparr>rt_wal := w\<rparr>) = queue_of story rt"
  by (simp add: queue_of_def)

lemma queue_of_rejected [simp]: "queue_of story (rt\<lparr>rt_rejected := r\<rparr>) = queue_of story rt"
  by (simp add: queue_of_def)

lemma jobs_wal [simp]: "jobs (rt\<lparr>rt_wal := w\<rparr>) = jobs rt"
  by (simp add: jobs_def)

lemma jobs_enqueue: "jobs (enqueue env event ws rt) \<subseteq> insert (Capture event ws) (jobs rt)"
  by (auto simp: enqueue_def Let_def jobs_def queue_of_update try_record_def split: if_splits)

lemma enqueue_keeps [simp]:
  "rt_wal (enqueue env event ws rt) = rt_wal rt" "rt_applied (enqueue env event ws rt) = rt_applied rt"
  by (simp_all add: enqueue_def Let_def try_record_def)

lemma jobs_ok_insert:
  "jobs_ok env L J \<Longrightarrow> J' \<subseteq> insert (Capture event ws) J \<Longrightarrow>
    (\<And>s. ws = Some s \<Longrightarrow> \<exists>t p. WalEvent s t p \<in> L \<and> same_event env p event) \<Longrightarrow> jobs_ok env L J'"
  unfolding jobs_ok_def by blast

lemma jobs_ok_mono: "jobs_ok env L J \<Longrightarrow> L \<subseteq> L' \<Longrightarrow> J' \<subseteq> J \<Longrightarrow> jobs_ok env L' J'"
  unfolding jobs_ok_def by blast

text \<open>A submission.\<close>

lemma append_event_cases:
  assumes "append_event env now event w = (ws, w')"
  obtains (unsent) "ws = None" "queued w' = queued w" "wal_next_seq w' = wal_next_seq w + 1"
      "wal_file w' = wal_file w" "wal_enabled w' = wal_enabled w"
  | (disabled) "ws = None" "w' = w" "\<not> wal_enabled w"
  | (sent) "ws = Some (wal_next_seq w)" "wal_enabled w" "wal_next_seq w' = wal_next_seq w + 1"
      "queued w' = queued w @ [Line (WalEvent (wal_next_seq w) now (from_event env event))]"
      "wal_file w' = wal_file w" "wal_enabled w' = wal_enabled w"
  using assms
  by (auto simp: append_event_def try_send_def Let_def queued_def split: if_splits option.splits)

lemma spawn_ok:
  assumes ok: "runtime_ok env n ls committed rt" and n: "Suc n < 2 ^ 64"
  shows "runtime_ok env (Suc n) ls committed (spawn_apply env now event rt)"
proof -
  let ?w = "rt_wal rt" and ?L = "log_lines ls (rt_wal rt)"
  obtain ws w' where a: "append_event env now event ?w = (ws, w')" by (rule prod.exhaust)
  have wal: "rt_wal (spawn_apply env now event rt) = w'"
    and applied: "rt_applied (spawn_apply env now event rt) = rt_applied rt"
    and J: "jobs (spawn_apply env now event rt) \<subseteq> insert (Capture event ws) (jobs rt)"
    using jobs_enqueue [of env event ws "rt\<lparr>rt_wal := w'\<rparr>"] by (simp_all add: spawn_apply_def a)
  have step: "unat (wal_next_seq ?w + 1) = Suc (unat (wal_next_seq ?w))" if "wal_enabled ?w"
    using ok n that by (auto simp: runtime_ok_def numbers_ok_def unat_word_ariths)
  from a show ?thesis
  proof (cases rule: append_event_cases)
    case unsent
    then have "log_lines ls w' = ?L" by (simp add: log_lines_def)
    moreover have "numbers_ok (Suc n) ?L w'"
      using ok step unsent
      by (auto simp: runtime_ok_def numbers_ok_def word_less_nat_alt intro: less_SucI)
    ultimately show ?thesis
      using runtime_ok_Suc [OF ok] J unsent unfolding runtime_ok_def wal applied
      by (auto intro: jobs_ok_insert [OF _ J])
  next
    case disabled
    then show ?thesis
      using runtime_ok_Suc [OF ok] J unfolding runtime_ok_def wal applied
      by (auto intro: jobs_ok_insert [OF _ J])
  next
    case sent
    let ?l = "WalEvent (wal_next_seq ?w) now (from_event env event)"
    have L: "log_lines ls w' = insert ?l ?L" using sent by (auto simp: log_lines_def)
    have fresh: "seq_of l \<noteq> wal_next_seq ?w" if "l \<in> ?L" for l
      using ok that sent by (auto simp: runtime_ok_def numbers_ok_def)
    then have fresh': "WalEvent (wal_next_seq ?w) t p \<notin> ?L" "WalAck (wal_next_seq ?w) \<notin> ?L" for t p
      by fastforce+
    have "log_ok env (Suc n) (insert ?l ?L) (rt_applied rt)"
      using ok fresh' sent by (auto simp: runtime_ok_def log_ok_def one_payload_def numbers_ok_def)
    moreover have "numbers_ok (Suc n) (insert ?l ?L) w'"
      using ok step sent
      by (auto simp: runtime_ok_def numbers_ok_def word_less_nat_alt intro: less_SucI)
    moreover have "jobs_ok env (insert ?l ?L) (jobs (spawn_apply env now event rt))"
    proof (rule jobs_ok_insert [OF _ J])
      show "jobs_ok env (insert ?l ?L) (jobs rt)"
        using ok jobs_ok_mono [OF _ subset_insertI order_refl] by (auto simp: runtime_ok_def)
    qed (use sent in \<open>auto simp: same_event_def\<close>)
    ultimately show ?thesis
      using ok sent unfolding runtime_ok_def wal applied L by auto
  qed
qed

text \<open>A turn of a consumer.\<close>

lemma ack_queued:
  "queued (ack s w) = queued w \<or> queued (ack s w) = queued w @ [Line (WalAck s)]"
  by (auto simp: ack_def try_send_def queued_def split: option.splits)

lemma ack_keeps [simp]:
  "wal_file (ack s w) = wal_file w" "wal_next_seq (ack s w) = wal_next_seq w" "wal_enabled (ack s w) = wal_enabled w"
  by (simp_all add: ack_def try_send_def split: option.splits)

lemma queue_of_applied [simp]: "queue_of story (rt\<lparr>rt_applied := a\<rparr>) = queue_of story rt"
  by (simp add: queue_of_def)

lemma queue_of_consume:
  "queue_of s (consume story ok rt) = (if s = story then tl (queue_of story rt) else queue_of s rt)"
  by (simp add: consume_def Let_def queue_of_def update_conv' split: list.splits ApplyJob.splits)

lemma jobs_consume: "jobs (consume story ok rt) \<subseteq> jobs rt"
  by (auto simp: jobs_def queue_of_consume split: if_splits dest: list.set_sel(2) [rotated])
     (metis list.sel(2) list.set_sel(2))

lemma consume_ok:
  assumes ok: "runtime_ok env n ls committed rt"
  shows "runtime_ok env n ls committed (consume story done rt)"
proof (cases "\<exists>event ws queue. queue_of story rt = Capture event ws # queue \<and> done")
  case False
  then have "rt_wal (consume story done rt) = rt_wal rt" "rt_applied (consume story done rt) = rt_applied rt"
    by (auto simp: consume_def Let_def split: list.splits ApplyJob.splits)
  with ok show ?thesis unfolding runtime_ok_def by (auto intro: jobs_ok_mono [OF _ order_refl jobs_consume])
next
  case True
  then obtain event ws queue where q: "queue_of story rt = Capture event ws # queue" and "done" by blast
  define w where "w = (case ws of None \<Rightarrow> rt_wal rt | Some seq \<Rightarrow> ack seq (rt_wal rt))"
  let ?a = "rt_applied rt @ [(ws, event)]" and ?L = "log_lines ls (rt_wal rt)"
  have rt': "rt_wal (consume story done rt) = w" "rt_applied (consume story done rt) = ?a"
    using \<open>done\<close> by (simp_all add: consume_def q Let_def w_def)
  have in_jobs: "Capture event ws \<in> jobs rt"
    using q unfolding jobs_def by (metis (mono_tags, lifting) list.set_intros(1) mem_Collect_eq)
  have same: "wal_file w = wal_file (rt_wal rt)" "wal_next_seq w = wal_next_seq (rt_wal rt)"
    "wal_enabled w = wal_enabled (rt_wal rt)"
    by (simp_all add: w_def split: option.splits)
  have queue: "queued w = queued (rt_wal rt) \<or> (\<exists>s. ws = Some s \<and> queued w = queued (rt_wal rt) @ [Line (WalAck s)])"
    using ack_queued by (auto simp: w_def split: option.splits)
  then have L: "log_lines ls w = ?L \<or> (\<exists>s. ws = Some s \<and> log_lines ls w = insert (WalAck s) ?L)"
    by (auto simp: log_lines_def)
  have log: "log_ok env n ?L ?a" using ok by (auto simp: runtime_ok_def log_ok_def intro: applied_as_append)
  have acked: "log_ok env n (insert (WalAck s) ?L) ?a \<and> (\<exists>l \<in> ?L. seq_of l = s)" if ws: "ws = Some s" for s
  proof -
    obtain t p where tp: "WalEvent s t p \<in> ?L" "same_event env p event"
      using ok in_jobs ws unfolding runtime_ok_def jobs_ok_def by blast
    then have "applied_as env ?a s p" using ws by (auto simp: applied_as_def)
    then show ?thesis using log_ok_ack [OF log tp(1)] tp(1) by force
  qed
  have "log_ok env n (log_lines ls w) ?a" using L log acked by auto
  moreover have "numbers_ok n (log_lines ls w) w"
    using ok L acked same by (force simp: runtime_ok_def numbers_ok_def)
  moreover have "jobs_ok env (log_lines ls w) (jobs (consume story done rt))"
    using ok L by (auto simp: runtime_ok_def intro: jobs_ok_mono [OF _ _ jobs_consume])
  moreover have "log_keeps env ls ?a committed"
    using ok by (auto simp: runtime_ok_def log_keeps_def intro: applied_as_append)
  moreover have "\<forall>c \<in> set (queued w). \<exists>l. c = Line l" using ok queue by (auto simp: runtime_ok_def)
  ultimately show ?thesis using ok by (simp add: runtime_ok_def rt' same)
qed

text \<open>A round of the writer.\<close>

lemma take_lines_split: "take_lines n queue = (batch, rest) \<Longrightarrow> queue = map Line batch @ rest"
  by (induction n queue arbitrary: batch rest rule: take_lines.induct) (auto split: prod.splits)

lemma batch_of_split: "batch_of joined queue = (batch, rest) \<Longrightarrow> queue = map Line batch @ rest"
  unfolding batch_of_def by (rule take_lines_split)

lemma batch_Nil [simp]: "batch_of joined [] = ([], [])"
  by (simp add: batch_of_def)

lemma writer_round_lines:
  assumes "\<forall>c \<in> set (queued w). \<exists>l. c = Line l" and "batch_of joined (queued w) = (batch, rest)"
  shows "queued (snd (writer_round env joined WriteOk w)) = rest"
    "wal_file (snd (writer_round env joined WriteOk w)) = wal_file w @ wal_bytes env batch"
    "wal_next_seq (snd (writer_round env joined WriteOk w)) = wal_next_seq w"
    "wal_enabled (snd (writer_round env joined WriteOk w)) = wal_enabled w"
  using assms
  by (auto simp: writer_round_def queued_def commit_lines_ok Let_def
      split: option.splits list.splits WalCommand.splits prod.splits)

lemma committed_by_commit:
  "committed_by (Commit joined WriteOk) rt =
    List.map_filter (\<lambda>l. case l of WalEvent s _ p \<Rightarrow> Some (s, p) | WalAck _ \<Rightarrow> None)
      (fst (batch_of joined (queued (rt_wal rt))))"
  by (simp add: committed_by_def queued_def map_filter_simps split: option.splits)

lemma in_committed_by:
  assumes "(s, p) \<in> set (committed_by (Commit joined WriteOk) rt)"
    and "batch_of joined (queued (rt_wal rt)) = (batch, rest)"
  shows "\<exists>t. WalEvent s t p \<in> set batch"
  using assms by (auto simp: committed_by_commit List.map_filter_def split: WalLine.splits)

lemma commit_ok:
  assumes ok: "runtime_ok env n ls committed rt"
  shows "\<exists>ls'. runtime_ok env n ls' (committed_by (Commit joined WriteOk) rt @ committed)
    (runtime_step env (Commit joined WriteOk) rt)"
proof -
  let ?w' = "snd (writer_round env joined WriteOk (rt_wal rt))"
  obtain batch rest where b: "batch_of joined (queued (rt_wal rt)) = (batch, rest)" by (rule prod.exhaust)
  have lines: "\<forall>c \<in> set (queued (rt_wal rt)). \<exists>l. c = Line l" using ok by (simp add: runtime_ok_def)
  note w' = writer_round_lines [OF lines b]
  have q: "queued (rt_wal rt) = map Line batch @ rest" by (rule batch_of_split [OF b])
  then have L: "log_lines (ls @ batch) ?w' = log_lines ls (rt_wal rt)" by (auto simp: log_lines_def w')
  have "log_keeps env (ls @ batch) (rt_applied rt) (committed_by (Commit joined WriteOk) rt @ committed)"
    using ok in_committed_by [OF _ b] unfolding runtime_ok_def log_keeps_def by fastforce
  then have "runtime_ok env n (ls @ batch) (committed_by (Commit joined WriteOk) rt @ committed)
      (runtime_step env (Commit joined WriteOk) rt)"
    using ok q unfolding runtime_ok_def by (simp add: w' L numbers_ok_def)
  then show ?thesis by blast
qed

text \<open>A new process.\<close>

lemma replay_jobs:
  "jobs (fold (\<lambda>entry. enqueue env (to_event env (pe_payload entry)) (Some (pe_seq entry))) entries rt) \<subseteq>
    jobs rt \<union> (\<lambda>entry. Capture (to_event env (pe_payload entry)) (Some (pe_seq entry))) ` set entries"
proof (induction entries arbitrary: rt)
  case (Cons e es)
  have "jobs (enqueue env (to_event env (pe_payload e)) (Some (pe_seq e)) rt) \<subseteq>
      insert (Capture (to_event env (pe_payload e)) (Some (pe_seq e))) (jobs rt)"
    by (rule jobs_enqueue)
  with Cons.IH [of "enqueue env (to_event env (pe_payload e)) (Some (pe_seq e)) rt"] show ?case
    by auto
qed simp

lemma replay_fold_keeps:
  fixes env :: "('ev, 'p) wal_env" and entries :: "'p PendingEntry list" and rt :: "('ev, 'p) runtime"
  defines "rt' \<equiv> fold (\<lambda>entry. enqueue env (to_event env (pe_payload entry)) (Some (pe_seq entry))) entries rt"
  shows "rt_wal rt' = rt_wal rt \<and> rt_applied rt' = rt_applied rt"
  unfolding rt'_def by (induction entries arbitrary: rt) simp_all

lemma replay_keeps:
  "rt_wal (replay_wal env rt) = rt_wal rt" "rt_applied (replay_wal env rt) = rt_applied rt"
  by (simp_all add: replay_wal_def replay_fold_keeps)

lemma new_runtime_ok:
  assumes codec: "wal_codec env" and bytes: "wal_file (rt_wal rt) = wal_bytes env ls"
    and log: "log_ok env n (set ls) (rt_applied rt)" and kept: "log_keeps env ls (rt_applied rt) committed"
    and n: "n < 2 ^ 64"
  shows "runtime_ok env n ls committed (new_runtime env prepared rt)"
proof -
  let ?w = "wal_open env prepared (wal_file (rt_wal rt))"
  let ?rt = "\<lparr>rt_wal = ?w, rt_queues = [], rt_rejected = [],
       rt_dead_letters = rt_dead_letters rt, rt_applied = rt_applied rt\<rparr>"
  have w: "wal_file ?w = wal_bytes env ls" "queued ?w = []"
    by (simp_all add: wal_open_def queued_def bytes)
  then have L: "log_lines ls ?w = set ls" by (simp add: log_lines_def)
  have one: "one_payload (set ls)" using log by (simp add: log_ok_def)
  have "numbers_ok n (set ls) ?w"
    using next_sequence_lines [OF codec _ n, of ls] log
    by (auto simp: numbers_ok_def wal_open_def bytes log_ok_def)
  moreover have "jobs_ok env (set ls) (jobs (new_runtime env prepared rt))"
  proof -
    have "jobs (new_runtime env prepared rt) \<subseteq>
        (\<lambda>entry. Capture (to_event env (pe_payload entry)) (Some (pe_seq entry))) `
          set (replay_pending env (wal_bytes env ls))"
      using replay_jobs [of env "replay_pending env (wal_bytes env ls)" ?rt]
      by (simp add: new_runtime_def replay_wal_def w jobs_def queue_of_def)
    then show ?thesis
      unfolding jobs_ok_def by (fastforce simp: replay_pending_iff [OF codec one] same_event_def)
  qed
  ultimately show ?thesis
    using log kept w L by (simp add: runtime_ok_def new_runtime_def replay_keeps)
qed

lemma restart_ok:
  assumes "wal_codec env" "runtime_ok env n ls committed rt" "n < 2 ^ 64"
  shows "runtime_ok env n ls committed (new_runtime env prepared rt)"
  using assms
  by (intro new_runtime_ok) (auto simp: runtime_ok_def log_lines_def intro: log_ok_subset)

text \<open>A clean shutdown empties the log only when every event in it is acknowledged.\<close>

lemma truncate_file:
  assumes "queued w = []"
  shows "wal_file (snd (writer_round env 0 fate (snd (control Truncate w)))) \<in> {wal_file w, []}"
  using assms
  by (auto simp: control_def writer_round_def queued_def split: option.splits write_fate.splits nat.splits)

lemma stop_ok:
  assumes codec: "wal_codec env" and ok: "runtime_ok env n ls committed rt" and n: "n < 2 ^ 64"
    and "flushed rt"
  shows "\<exists>ls'. runtime_ok env n ls' committed (new_runtime env True (shutdown env fate rt))"
proof -
  let ?rt = "shutdown env fate rt"
  have applied: "rt_applied ?rt = rt_applied rt" by (simp add: shutdown_def)
  have log: "log_ok env n (set ls) (rt_applied rt)"
    using ok by (auto simp: runtime_ok_def log_lines_def intro: log_ok_subset)
  have "queued (rt_wal rt) = []" using \<open>flushed rt\<close> by (simp add: flushed_def queued_def split: option.splits)
  then have "wal_file (rt_wal ?rt) \<in> {wal_file (rt_wal rt), []}"
    and "replay_pending env (wal_file (rt_wal rt)) \<noteq> [] \<Longrightarrow> wal_file (rt_wal ?rt) = wal_file (rt_wal rt)"
    using truncate_file [of "rt_wal rt" env fate] by (simp_all add: shutdown_def)
  moreover have "wal_file (rt_wal rt) = wal_bytes env ls" using ok by (simp add: runtime_ok_def)
  ultimately consider (kept) "wal_file (rt_wal ?rt) = wal_bytes env ls"
    | (emptied) "wal_file (rt_wal ?rt) = []" "replay_pending env (wal_bytes env ls) = []"
    by auto
  then show ?thesis
  proof cases
    case kept
    then show ?thesis
      using new_runtime_ok [OF codec kept, of n committed True] log ok n
      by (auto simp: applied runtime_ok_def)
  next
    case emptied
    have one: "one_payload (set ls)" using log by (simp add: log_ok_def)
    have acked: "WalAck s \<in> set ls" if "WalEvent s t p \<in> set ls" for s t p
      using replay_pending_iff [OF codec one, of "\<lparr>pe_seq = s, pe_payload = p\<rparr>"] emptied(2) that by auto
    have "log_keeps env [] (rt_applied rt) committed"
      using ok log acked unfolding runtime_ok_def log_keeps_def log_ok_def by blast
    moreover have "log_ok env n (set []) (rt_applied rt)" by (simp add: log_ok_def one_payload_def)
    ultimately show ?thesis
      using new_runtime_ok [OF codec, of ?rt "[]" n committed True] emptied(1) n
      by (auto simp: applied)
  qed
qed

subsection \<open>Runs keep the invariant\<close>

lemma queue_of_flush: "queue_of story (flush rt) = queue_of story rt \<or> queue_of story (flush rt) = queue_of story rt @ [Barrier]"
  by (auto simp: queue_of_def flush_def map_of_map split: option.splits)

lemma flush_ok: "runtime_ok env n ls committed rt \<Longrightarrow> runtime_ok env n ls committed (flush rt)"
proof -
  assume ok: "runtime_ok env n ls committed rt"
  have "Capture event ws \<in> jobs rt" if in_flush: "Capture event ws \<in> jobs (flush rt)" for event ws
  proof -
    obtain story where "Capture event ws \<in> set (queue_of story (flush rt))"
      using in_flush by (auto simp: jobs_def)
    then have "Capture event ws \<in> set (queue_of story rt)" using queue_of_flush [of story rt] by auto
    then show ?thesis by (auto simp: jobs_def)
  qed
  moreover have "rt_wal (flush rt) = rt_wal rt" "rt_applied (flush rt) = rt_applied rt"
    by (simp_all add: flush_def)
  ultimately show ?thesis using ok by (auto simp: runtime_ok_def jobs_ok_def)
qed

lemma dead_letter_ok: "runtime_ok env n ls committed rt \<Longrightarrow> runtime_ok env n ls committed (rejected_writer_turn ok rt)"
  by (simp add: rejected_writer_turn_def runtime_ok_def jobs_def queue_of_def split: list.splits)

lemma committed_by_other: "(\<And>joined. action \<noteq> Commit joined WriteOk) \<Longrightarrow> committed_by action rt = []"
  by (auto simp: committed_by_def split: action.splits option.splits write_fate.splits)

lemma step_ok:
  assumes codec: "wal_codec env" and ok: "runtime_ok env n ls committed rt" and n: "Suc n < 2 ^ 64"
    and whole: "whole_write action"
  shows "\<exists>ls'. runtime_ok env (Suc n) ls' (committed_by action rt @ committed) (runtime_step env action rt)"
proof (cases action)
  case (Spawn now event)
  then show ?thesis using spawn_ok [OF ok n] by (auto simp: committed_by_other)
next
  case (Consume story success)
  then show ?thesis
    using consume_ok [OF runtime_ok_Suc [OF ok]] by (auto simp: committed_by_other)
next
  case (Commit joined fate)
  then show ?thesis using commit_ok [OF runtime_ok_Suc [OF ok]] whole by simp
next
  case (RecordDead success)
  then show ?thesis using dead_letter_ok [OF runtime_ok_Suc [OF ok]] by (auto simp: committed_by_other)
next
  case FlushQueues
  then show ?thesis using flush_ok [OF runtime_ok_Suc [OF ok]] by (auto simp: committed_by_other)
next
  case (Restart prepared)
  then show ?thesis using restart_ok [OF codec runtime_ok_Suc [OF ok] n] by (auto simp: committed_by_other)
next
  case (Stop fate)
  then show ?thesis
    using stop_ok [OF codec runtime_ok_Suc [OF ok] n] runtime_ok_Suc [OF ok]
    by (auto simp: committed_by_other)
qed

lemma run_ok:
  assumes codec: "wal_codec env"
  shows "runtime_ok env n ls committed rt \<Longrightarrow> n + length actions < 2 ^ 64 \<Longrightarrow> list_all whole_write actions \<Longrightarrow>
    run_runtime env actions rt = (rt', committed') \<Longrightarrow>
    \<exists>ls' n' all. runtime_ok env n' ls' all rt' \<and> set all = set committed' \<union> set committed"
proof (induction actions arbitrary: n ls committed rt committed')
  case Nil
  then show ?case by auto
next
  case (Cons a actions)
  obtain rest where rest: "run_runtime env actions (runtime_step env a rt) = (rt', rest)"
      "committed' = committed_by a rt @ rest"
    using Cons.prems(4) by (auto split: prod.splits)
  obtain ls' where "runtime_ok env (Suc n) ls' (committed_by a rt @ committed) (runtime_step env a rt)"
    using step_ok [OF codec Cons.prems(1)] Cons.prems(2,3) by auto
  from Cons.IH [OF this _ _ rest(1)] Cons.prems(2,3) show ?case
    by (auto simp: rest(2) Un_ac)
qed

lemma first_ok: "runtime_ok env 0 [] [] (first_runtime env)"
  by (simp add: runtime_ok_def first_runtime_def wal_open_def queued_def log_lines_def log_ok_def one_payload_def
      numbers_ok_def jobs_ok_def jobs_def queue_of_def log_keeps_def next_sequence_def map_filter_simps)

subsection \<open>A concrete codec\<close>

text \<open>
  Events are truth values; true is written as a two byte UTF-8 sequence, numbers and time stamps in
  binary digits.
\<close>

definition demo_bit :: "bool \<Rightarrow> char" where
  "demo_bit b = (if b then CHR ''1'' else CHR ''0'')"

fun demo_bits :: "nat \<Rightarrow> string" where
  "demo_bits n = (if n = 0 then [] else demo_bit (odd n) # demo_bits (n div 2))"

declare demo_bits.simps [simp del]

fun demo_of_bits :: "string \<Rightarrow> nat" where
  "demo_of_bits [] = 0"
| "demo_of_bits (c # s) = (if c = CHR ''1'' then 1 else 0) + 2 * demo_of_bits s"

definition demo_seq :: "u64 \<Rightarrow> string" where
  "demo_seq s = demo_bits (unat s) @ '',''"

fun demo_time :: "string \<Rightarrow> string" where
  "demo_time [] = []"
| "demo_time (c # s) =
    map demo_bit [digit0 c, digit1 c, digit2 c, digit3 c, digit4 c, digit5 c, digit6 c, digit7 c] @ demo_time s"

fun demo_of_time :: "string \<Rightarrow> string" where
  "demo_of_time (a # b # c # d # e # f # g # h # s) =
    Char (a = CHR ''1'') (b = CHR ''1'') (c = CHR ''1'') (d = CHR ''1'')
      (e = CHR ''1'') (f = CHR ''1'') (g = CHR ''1'') (h = CHR ''1'') # demo_of_time s"
| "demo_of_time _ = []"

definition demo_payload :: "bool \<Rightarrow> string" where
  "demo_payload p = (if p then [CHR 0xC3, CHR 0xA9] else ''e'')"

definition demo_to_json :: "bool WalLine \<Rightarrow> string" where
  "demo_to_json line = (case line of
     WalEvent s t p \<Rightarrow> ''{E'' @ demo_payload p @ demo_seq s @ demo_time t @ ''}''
   | WalAck s \<Rightarrow> ''{A'' @ demo_seq s @ ''}'')"

definition demo_digits :: "string \<Rightarrow> bool" where
  "demo_digits s \<longleftrightarrow> list_all (\<lambda>c. c = CHR ''0'' \<or> c = CHR ''1'') s"

fun demo_split :: "string \<Rightarrow> string \<Rightarrow> (string \<times> string) option" where
  "demo_split acc [] = None"
| "demo_split acc (c # s) = (if c = CHR '','' then Some (acc, s) else demo_split (acc @ [c]) s)"

definition demo_numbered :: "(u64 \<Rightarrow> string \<Rightarrow> bool WalLine) \<Rightarrow> string \<Rightarrow> bool WalLine option" where
  "demo_numbered f r =
    (case demo_split [] r of
       None \<Rightarrow> None
     | Some (a, b) \<Rightarrow>
         if b \<noteq> [] \<and> last b = CHR ''}'' \<and> demo_digits a \<and> demo_digits (butlast b)
         then Some (f (of_nat (demo_of_bits a)) (demo_of_time (butlast b))) else None)"

definition demo_from_json :: "string \<Rightarrow> bool WalLine option" where
  "demo_from_json s =
    (if take 2 s = ''{A'' then demo_numbered (\<lambda>s _. WalAck s) (drop 2 s)
     else if take 2 s = ''{E'' then
       (if take 2 (drop 2 s) = demo_payload True then demo_numbered (\<lambda>s t. WalEvent s t True) (drop 4 s)
        else if take 1 (drop 2 s) = demo_payload False then demo_numbered (\<lambda>s t. WalEvent s t False) (drop 3 s)
        else None)
     else None)"

definition demo_wal_env :: "(bool, bool) wal_env" where
  "demo_wal_env = \<lparr>to_json = demo_to_json, from_json = demo_from_json, from_event = (\<lambda>e. e), to_event = (\<lambda>p. p),
     story_of = (\<lambda>_. ''story'')\<rparr>"

lemma demo_bits_round: "demo_of_bits (demo_bits n) = n"
  by (induction n rule: demo_bits.induct) (subst demo_bits.simps, auto simp: demo_bit_def)

lemma demo_bit_eq [simp]: "demo_bit b = CHR ''1'' \<longleftrightarrow> b"
  by (simp add: demo_bit_def)

lemma demo_time_round: "demo_of_time (demo_time t) = t"
  by (induction t) (simp_all del: char.inject)

lemma demo_digits_bits: "demo_digits (demo_bits n)"
  unfolding demo_digits_def
  by (induction n rule: demo_bits.induct) (subst demo_bits.simps, simp add: demo_bit_def)

lemma demo_digits_time: "demo_digits (demo_time t)"
  unfolding demo_digits_def by (induction t) (simp_all add: demo_bit_def)

lemma demo_digits_char: "demo_digits s \<Longrightarrow> c \<in> set s \<Longrightarrow> c = CHR ''0'' \<or> c = CHR ''1''"
  by (auto simp: demo_digits_def list_all_iff)

lemma demo_split_digits: "demo_digits a \<Longrightarrow> demo_split acc (a @ CHR '','' # b) = Some (acc @ a, b)"
  by (induction a arbitrary: acc) (auto simp: demo_digits_def)

lemma demo_numbered_round:
  "demo_numbered f (demo_bits (unat s) @ CHR '','' # demo_time t @ ''}'') = Some (f s t)"
  by (simp add: demo_numbered_def demo_split_digits demo_digits_bits demo_digits_time butlast_append
      demo_bits_round demo_time_round)

lemma demo_ascii:
  fixes n t defines "s \<equiv> demo_bits n @ CHR '','' # demo_time t @ ''}''"
  shows "valid_utf8 s" "CHR 0x0A \<notin> set s"
proof -
  have digit: "c = CHR ''0'' \<or> c = CHR ''1''" if "c \<in> set (demo_bits n) \<union> set (demo_time t)" for c
    using that demo_digits_char [OF demo_digits_bits] demo_digits_char [OF demo_digits_time] by blast
  have "(of_char c :: int) < 0x80" if "c \<in> set (demo_bits n) \<union> set (demo_time t)" for c
    using digit [OF that] by (elim disjE) simp_all
  then have "list_all (\<lambda>c. (of_char c :: int) < 0x80) s"
    by (simp add: list_all_iff s_def)
  then show "valid_utf8 s" by (rule valid_utf8_ascii)
  have "CHR 0x0A \<notin> set (demo_bits n) \<union> set (demo_time t)" using digit [of "CHR 0x0A"] by auto
  then show "CHR 0x0A \<notin> set s" by (simp add: s_def)
qed

lemma demo_codec: "wal_codec demo_wal_env"
proof -
  have "demo_from_json (demo_to_json line) = Some line \<and> valid_utf8 (demo_to_json line) \<and>
      CHR 0x0A \<notin> set (demo_to_json line) \<and> (\<exists>body. demo_to_json line = CHR ''{'' # body @ ''}'')" for line
  proof (cases line)
    case (WalEvent s t p)
    have "demo_from_json (demo_to_json line) = Some line"
      by (cases p) (simp_all add: demo_from_json_def demo_to_json_def WalEvent demo_payload_def demo_seq_def demo_numbered_round)
    moreover have "valid_utf8 (demo_to_json line)" "CHR 0x0A \<notin> set (demo_to_json line)"
      using demo_ascii [of "unat s" t]
      by (simp_all add: demo_to_json_def WalEvent demo_payload_def demo_seq_def continuation_byte_def)
    ultimately show ?thesis by (auto simp: demo_to_json_def WalEvent)
  next
    case (WalAck s)
    then show ?thesis
      using demo_ascii [of "unat s" "[]"] demo_numbered_round [of "\<lambda>s _. WalAck s" s "[]"]
      by (simp add: demo_from_json_def demo_to_json_def demo_seq_def)
  qed
  then show ?thesis by (simp add: wal_codec_def demo_wal_env_def)
qed

subsection \<open>Properties\<close>


definition demo_actions :: "bool action list" where
  "demo_actions = [Spawn ''t'' True, Spawn [] False, Commit 1 WriteOk, Consume ''story'' True,
     Consume ''story'' False, Commit 0 WriteOk, Restart True]"


definition torn_actions :: "bool action list" where
  "torn_actions = [Spawn [] True, Commit 0 (WriteFails 3), Restart True, Spawn [] False, Commit 0 WriteOk, Restart True]"

definition reuse_actions :: "bool action list" where
  "reuse_actions = torn_actions @
     [Spawn [] False, Commit 0 WriteOk, Consume ''story'' True, Commit 0 WriteOk, Restart True,
      Spawn [] True, Commit 0 WriteOk, Restart True]"

text \<open>
  A write that is cut short breaks the log for the events after it. The first line is torn
  inside a character; the next committed event is appended to the torn line and is not replayed.
  The line is not UTF-8, so \<open>next_sequence\<close> stops there and starts again from zero, while
  \<open>replay_pending\<close> reads on: a later event gets a number that is already acknowledged and, although
  committed and not applied, is not replayed either.
\<close>

theorem torn_write_hides_events:
  "(case run_runtime demo_wal_env torn_actions (first_runtime demo_wal_env) of (rt, committed) \<Rightarrow>
     committed = [(0, False)] \<and> rt_applied rt = [] \<and> replay_pending demo_wal_env (wal_file (rt_wal rt)) = [] \<and>
     rt_queues rt = []) \<and>
   (case run_runtime demo_wal_env reuse_actions (first_runtime demo_wal_env) of (rt, committed) \<Rightarrow>
     committed = [(0, False), (0, False), (0, True)] \<and> rt_applied rt = [(Some 0, False)] \<and>
     replay_pending demo_wal_env (wal_file (rt_wal rt)) = [] \<and> rt_queues rt = [])"
  by code_simp

text \<open>
  \<open>truncate\<close> does not check what is pending: a line that is queued when the \<open>Truncate\<close> command is
  sent is committed and then erased.
\<close>

theorem truncate_erases_pending:
  assumes "wal_enabled w" "wal_sender w = Some [Line (WalEvent s t p)]"
  shows "wal_file (snd (writer_round env 0 WriteOk (snd (writer_round env 0 WriteOk (snd (control Truncate w)))))) = []"
  using assms
  by (simp add: control_def writer_round_def batch_of_def GROUP_COMMIT_MAX_LINES_def numeral_2_eq_2 split: prod.splits)

end
