(* ===== verification/TurnMachine.thy ===== *)
theory TurnMachine
  imports RustStr IpDisplay "HOL-Library.AList"
begin

section \<open>Turns of a captured story\<close>

text \<open>
  \<open>record.rs\<close>, \<open>protocol.rs\<close> and \<open>engine/story/\<close> of the gateway: how the records of one story are
  grouped into turns. A JSON value is a tree whose objects are lists of fields. The two functions
  that read assistant text out of provider bodies (\<open>dialogue_extract\<close>) are parameters.
\<close>

subsection \<open>JSON values\<close>

datatype Value =
  Null | Bool bool | Number string | String string | Array "Value list" | Object "(string \<times> Value) list"

fun json_get :: "string \<Rightarrow> Value \<Rightarrow> Value option" where
  "json_get key (Object fields) = map_of fields key"
| "json_get key _ = None"

fun as_str :: "Value \<Rightarrow> string option" where
  "as_str (String s) = Some s"
| "as_str _ = None"

fun as_array :: "Value \<Rightarrow> Value list option" where
  "as_array (Array vs) = Some vs"
| "as_array _ = None"

text \<open>\<open>value[key] = v\<close>: null becomes an object; any other value that is no object panics.\<close>

fun json_set :: "string \<Rightarrow> Value \<Rightarrow> Value \<Rightarrow> Value option" where
  "json_set key v Null = Some (Object [(key, v)])"
| "json_set key v (Object fields) = Some (Object (AList.update key v fields))"
| "json_set key v _ = None"

definition get_str :: "string \<Rightarrow> Value \<Rightarrow> string option" where
  "get_str key v = Option.bind (json_get key v) as_str"

definition or_else :: "'a option \<Rightarrow> 'a option \<Rightarrow> 'a option" where
  "or_else a b = (case a of None \<Rightarrow> b | Some _ \<Rightarrow> a)"

subsection \<open>Protocols\<close>

datatype ProtocolKind =
  ChatCompletions | Messages | Responses | Gemini | Embeddings | CountTokens | Realtime | Detect | Unknown

definition from_path :: "string \<Rightarrow> ProtocolKind" where
  "from_path path =
    (let p = trim_end_matches (\<lambda>c. c = CHR ''/'') path in
     if ends_with p ''/chat/completions'' \<or> ends_with p ''chat/completions'' then ChatCompletions
     else if ends_with p ''/messages'' \<or> str_contains p ''/messages'' \<and> \<not> str_contains p ''count_tokens'' then Messages
     else if ends_with p ''/responses'' then Responses
     else if str_contains p ''/models/'' \<and>
       (ends_with p '':generateContent'' \<or> ends_with p '':streamGenerateContent'') then Gemini
     else if ends_with p ''/embeddings'' then Embeddings
     else if str_contains p ''count_tokens'' \<or> ends_with p ''/count-tokens'' then CountTokens
     else if str_contains p ''/realtime'' then Realtime
     else if ends_with p ''/detect'' then Detect
     else Unknown)"

fun protocol_str :: "ProtocolKind \<Rightarrow> string" where
  "protocol_str ChatCompletions = ''chat_completions''"
| "protocol_str Messages = ''messages''"
| "protocol_str Responses = ''responses''"
| "protocol_str Gemini = ''gemini''"
| "protocol_str Embeddings = ''embeddings''"
| "protocol_str CountTokens = ''count_tokens''"
| "protocol_str Realtime = ''realtime''"
| "protocol_str Detect = ''detect''"
| "protocol_str Unknown = ''unknown''"

definition protocol_parse :: "string \<Rightarrow> ProtocolKind" where
  "protocol_parse s =
    (if s = ''chat_completions'' then ChatCompletions
     else if s = ''messages'' then Messages
     else if s = ''responses'' then Responses
     else if s = ''gemini'' then Gemini
     else if s = ''embeddings'' then Embeddings
     else if s = ''count_tokens'' then CountTokens
     else if s = ''realtime'' then Realtime
     else if s = ''detect'' then Detect
     else Unknown)"

subsection \<open>Event records\<close>

record EventIdentity =
  ei_event_id :: "string option"
  ei_run_id :: "string option"
  ei_attempt_id :: "string option"
  ei_storyline_id :: "string option"
  ei_turn_id :: "string option"
  ei_timestamp_unix_ms :: "u64 option"
  ei_producer :: "string option"

record EventRecord =
  er_identity :: EventIdentity
  er_seq :: u64
  er_source :: string
  er_kind :: string
  er_timestamp :: "string option"
  er_session_id :: "string option"
  er_agent_id :: "string option"
  er_parent_uuid :: "string option"
  er_trace_id :: "string option"
  er_call_id :: "string option"
  er_subagent_id :: "string option"
  er_parent_agent_id :: "string option"
  er_branch :: "string option"
  er_parent_call_id :: "string option"
  er_payload :: Value

datatype EventValidationError = MissingSource | MissingKind

definition validate :: "EventRecord \<Rightarrow> EventValidationError + unit" where
  "validate rec =
    (if trim (er_source rec) = [] then Inl MissingSource
     else if trim (er_kind rec) = [] then Inl MissingKind
     else Inr ())"

text \<open>\<open>dialogue_extract\<close>.\<close>

record extractors =
  turn_from_sse :: "string \<Rightarrow> string"
  text_from_json :: "Value \<Rightarrow> string option"

definition is_internal_llm_request :: "EventRecord \<Rightarrow> bool" where
  "is_internal_llm_request rec =
    (if er_kind rec \<noteq> ''llm.request'' then False
     else if get_str ''protocol'' (er_payload rec) = Some (protocol_str CountTokens) then True
     else case get_str ''path'' (er_payload rec) of
       None \<Rightarrow> False | Some path \<Rightarrow> from_path path = CountTokens)"

definition join_lines :: "string list \<Rightarrow> string" where
  "join_lines parts = (case parts of [] \<Rightarrow> [] | p # ps \<Rightarrow> p @ concat (map (\<lambda>q. CHR 0x0A # q) ps))"

fun content_to_string :: "Value \<Rightarrow> string option" where
  "content_to_string (String s) = Some s"
| "content_to_string (Array parts) =
    (let out = List.map_filter (get_str ''text'') parts in if out = [] then None else Some (join_lines out))"
| "content_to_string _ = None"

definition non_empty :: "string \<Rightarrow> string option" where
  "non_empty s = (if trim s = [] then None else Some s)"

definition llm_inner_body :: "Value \<Rightarrow> Value option" where
  "llm_inner_body payload =
    Option.bind (json_get ''body'' payload) (\<lambda>wrap.
      if json_get ''messages'' wrap \<noteq> None \<or> json_get ''choices'' wrap \<noteq> None then Some wrap
      else json_get ''body'' wrap)"

text \<open>The last message of the user that has content.\<close>

fun last_user_content :: "Value list \<Rightarrow> string option" where
  "last_user_content [] = None"
| "last_user_content (msg # msgs) =
    (if get_str ''role'' msg = Some ''user'' then
       (case Option.bind (json_get ''content'' msg) content_to_string of
          Some s \<Rightarrow> non_empty s
        | None \<Rightarrow> last_user_content msgs)
     else last_user_content msgs)"

definition visible_user_from_payload :: "Value \<Rightarrow> string option" where
  "visible_user_from_payload payload =
    (case get_str ''user_content'' payload of
       Some s \<Rightarrow> non_empty s
     | None \<Rightarrow>
         Option.bind
           (Option.bind
             (or_else (Option.bind (llm_inner_body payload) (json_get ''messages'')) (json_get ''messages'' payload))
             as_array)
           (\<lambda>messages. last_user_content (rev messages)))"

text \<open>The \<open>choices\<close> and \<open>content\<close> fields, which the last lines of the source try in turn.\<close>

definition choices_content :: "Value \<Rightarrow> string option" where
  "choices_content payload =
    Option.bind
      (or_else
        (Option.bind
          (Option.bind
            (Option.bind
              (Option.bind
                (Option.bind
                  (or_else (Option.bind (llm_inner_body payload) (json_get ''choices''))
                    (or_else (Option.bind (json_get ''body'' payload) (json_get ''choices''))
                      (json_get ''choices'' payload)))
                  as_array)
                (\<lambda>a. case a of [] \<Rightarrow> None | c # _ \<Rightarrow> Some c))
              (json_get ''message''))
            (json_get ''content''))
          content_to_string)
        (Option.bind (json_get ''content'' payload) content_to_string))
      non_empty"

definition visible_assistant_from_payload :: "extractors \<Rightarrow> Value \<Rightarrow> string option" where
  "visible_assistant_from_payload ex payload =
    (case get_str ''assistant_content'' payload of
       Some s \<Rightarrow> non_empty s
     | None \<Rightarrow>
        (case Option.bind (get_str ''body'' payload) (\<lambda>s. non_empty (turn_from_sse ex s)) of
           Some t \<Rightarrow> Some t
         | None \<Rightarrow>
            (case llm_inner_body payload of
               None \<Rightarrow> choices_content payload
             | Some inner \<Rightarrow>
                (case Option.bind (as_str inner) (\<lambda>s. non_empty (turn_from_sse ex s)) of
                   Some t \<Rightarrow> Some t
                 | None \<Rightarrow>
                    (case text_from_json ex inner of
                       Some t \<Rightarrow> non_empty t
                     | None \<Rightarrow> choices_content payload)))))"

subsection \<open>The turn machine\<close>

datatype TurnKind = Dialogue | Autonomous | Internal

datatype CallPhase = Request | Draft | Complete | Cancel

record TextBlock =
  tb_text :: string
  tb_call_id :: "string option"

record TurnCall =
  tc_call_id :: string
  tc_trace_id :: string
  tc_protocol :: "ProtocolKind option"
  tc_model :: "string option"
  tc_events :: "CallPhase list"

record Turn =
  tn_turn_id :: string
  tn_index :: u32
  tn_kind :: TurnKind
  tn_user :: "TextBlock option"
  tn_assistant :: "TextBlock option"
  tn_calls :: "TurnCall list"

text \<open>The parent link of a snapshot is always absent here and has no field.\<close>

record Story =
  st_story_id :: string
  st_run_id :: "string option"
  st_agent_id :: string
  st_turns :: "Turn list"

record TurnMachine =
  tm_story_id :: string
  tm_agent_id :: string
  tm_run_id :: "string option"
  tm_turns :: "Turn list"
  tm_active_turn :: "string option"
  tm_call_turns :: "(string \<times> string) list"
  tm_next_index :: u32

record TurnObserveOutcome =
  oc_turn_id :: "string option"
  oc_turn_index :: "u32 option"

definition show_u32 :: "u32 \<Rightarrow> string" where
  "show_u32 n = map digit_char (digits_of 10 10 (uint n))"

definition turn_id_new :: "string \<Rightarrow> u32 \<Rightarrow> string" where
  "turn_id_new story_id index = story_id @ ''#turn-'' @ show_u32 index"

definition with_context :: "string \<Rightarrow> string \<Rightarrow> string option \<Rightarrow> TurnMachine" where
  "with_context story_id agent_id run_id =
    \<lparr>tm_story_id = story_id, tm_agent_id = agent_id, tm_run_id = run_id, tm_turns = [], tm_active_turn = None,
     tm_call_turns = [], tm_next_index = 0\<rparr>"

definition turn_machine_new :: "string \<Rightarrow> TurnMachine" where
  "turn_machine_new story_id = with_context story_id [] None"

definition set_story_meta :: "string \<Rightarrow> string option \<Rightarrow> TurnMachine \<Rightarrow> TurnMachine" where
  "set_story_meta agent_id run_id tm =
    tm\<lparr>tm_agent_id := (if tm_agent_id tm = [] then agent_id else tm_agent_id tm),
       tm_run_id := (if tm_run_id tm = None then run_id else tm_run_id tm)\<rparr>"

definition snapshot :: "TurnMachine \<Rightarrow> Story" where
  "snapshot tm = \<lparr>st_story_id = tm_story_id tm, st_run_id = tm_run_id tm, st_agent_id = tm_agent_id tm,
     st_turns = tm_turns tm\<rparr>"

definition turn_index :: "string \<Rightarrow> TurnMachine \<Rightarrow> u32 option" where
  "turn_index turn_id tm = map_option tn_index (find (\<lambda>t. tn_turn_id t = turn_id) (tm_turns tm))"

text \<open>\<open>turn_mut\<close> and \<open>iter_mut().find\<close>: an update of the first element that fits.\<close>

fun update_first :: "('a \<Rightarrow> bool) \<Rightarrow> ('a \<Rightarrow> 'a) \<Rightarrow> 'a list \<Rightarrow> 'a list" where
  "update_first P f [] = []"
| "update_first P f (x # xs) = (if P x then f x # xs else x # update_first P f xs)"

definition new_call :: "string \<Rightarrow> CallPhase \<Rightarrow> TurnCall" where
  "new_call call_id kind =
    \<lparr>tc_call_id = call_id, tc_trace_id = [], tc_protocol = None, tc_model = None, tc_events = [kind]\<rparr>"

definition add_phase :: "CallPhase \<Rightarrow> TurnCall \<Rightarrow> TurnCall" where
  "add_phase kind call =
    (if kind \<in> set (tc_events call) then call else call\<lparr>tc_events := tc_events call @ [kind]\<rparr>)"

definition add_call :: "string \<Rightarrow> CallPhase \<Rightarrow> Turn \<Rightarrow> Turn" where
  "add_call call_id kind turn =
    (if list_ex (\<lambda>c. tc_call_id c = call_id) (tn_calls turn) then
       turn\<lparr>tn_calls := update_first (\<lambda>c. tc_call_id c = call_id) (add_phase kind) (tn_calls turn)\<rparr>
     else turn\<lparr>tn_calls := tn_calls turn @ [new_call call_id kind]\<rparr>)"

definition ensure_call_in_turn :: "string \<Rightarrow> string \<Rightarrow> CallPhase \<Rightarrow> TurnMachine \<Rightarrow> TurnMachine" where
  "ensure_call_in_turn turn_id call_id kind tm =
    (if list_ex (\<lambda>t. tn_turn_id t = turn_id) (tm_turns tm) then
       tm\<lparr>tm_turns := update_first (\<lambda>t. tn_turn_id t = turn_id) (add_call call_id kind) (tm_turns tm),
          tm_call_turns := AList.update call_id turn_id (tm_call_turns tm)\<rparr>
     else tm)"

definition ensure_call_on_active_turn :: "string \<Rightarrow> CallPhase \<Rightarrow> TurnMachine \<Rightarrow> string option \<times> TurnMachine" where
  "ensure_call_on_active_turn call_id kind tm =
    (case tm_active_turn tm of
       None \<Rightarrow> (None, tm)
     | Some turn_id \<Rightarrow> (Some turn_id, ensure_call_in_turn turn_id call_id kind tm))"

definition ensure_call_for_call :: "string \<Rightarrow> CallPhase \<Rightarrow> TurnMachine \<Rightarrow> string option \<times> TurnMachine" where
  "ensure_call_for_call call_id kind tm =
    (case or_else (map_of (tm_call_turns tm) call_id) (tm_active_turn tm) of
       None \<Rightarrow> (None, tm)
     | Some turn_id \<Rightarrow> (Some turn_id, ensure_call_in_turn turn_id call_id kind tm))"

definition outcome_of :: "string option \<Rightarrow> TurnMachine \<Rightarrow> TurnObserveOutcome" where
  "outcome_of turn_id tm =
    \<lparr>oc_turn_id = turn_id, oc_turn_index = Option.bind turn_id (\<lambda>t. turn_index t tm)\<rparr>"

text \<open>A new turn: the next id, the call's first entry, and the turn becomes the active one.\<close>

definition open_turn ::
  "TurnKind \<Rightarrow> TextBlock option \<Rightarrow> string \<Rightarrow> TurnMachine \<Rightarrow> TurnObserveOutcome \<times> TurnMachine"
where
  "open_turn kind user call_id tm =
    (let index = tm_next_index tm;
         turn_id = turn_id_new (tm_story_id tm) index;
         turn = \<lparr>tn_turn_id = turn_id, tn_index = index, tn_kind = kind, tn_user = user, tn_assistant = None,
                 tn_calls = [new_call call_id Request]\<rparr> in
     (\<lparr>oc_turn_id = Some turn_id, oc_turn_index = Some index\<rparr>,
      tm\<lparr>tm_next_index := index + 1, tm_turns := tm_turns tm @ [turn],
         tm_call_turns := AList.update call_id turn_id (tm_call_turns tm), tm_active_turn := Some turn_id\<rparr>))"

definition join_active :: "string \<Rightarrow> TurnMachine \<Rightarrow> TurnObserveOutcome \<times> TurnMachine" where
  "join_active call_id tm =
    (let (turn_id, tm') = ensure_call_on_active_turn call_id Request tm in (outcome_of turn_id tm', tm'))"

definition on_request :: "string \<Rightarrow> EventRecord \<Rightarrow> TurnMachine \<Rightarrow> TurnObserveOutcome \<times> TurnMachine" where
  "on_request call_id rec tm =
    (if is_internal_llm_request rec then join_active call_id tm
     else case visible_user_from_payload (er_payload rec) of
       Some text \<Rightarrow> open_turn Dialogue (Some \<lparr>tb_text = text, tb_call_id = Some call_id\<rparr>) call_id tm
     | None \<Rightarrow>
         if tm_active_turn tm \<noteq> None then join_active call_id tm
         else open_turn Autonomous None call_id tm)"

definition on_response ::
  "extractors \<Rightarrow> string \<Rightarrow> EventRecord \<Rightarrow> TurnMachine \<Rightarrow> TurnObserveOutcome \<times> TurnMachine"
where
  "on_response ex call_id rec tm =
    (let (turn_id, tm') = ensure_call_for_call call_id Complete tm;
         tm'' = (case (visible_assistant_from_payload ex (er_payload rec), turn_id) of
                   (Some text, Some tid) \<Rightarrow>
                     tm'\<lparr>tm_turns := update_first (\<lambda>t. tn_turn_id t = tid)
                       (\<lambda>t. t\<lparr>tn_assistant := Some \<lparr>tb_text = text, tb_call_id = Some call_id\<rparr>\<rparr>) (tm_turns tm')\<rparr>
                 | _ \<Rightarrow> tm') in
     (outcome_of turn_id tm'', tm''))"

definition on_cancel :: "string \<Rightarrow> TurnMachine \<Rightarrow> TurnObserveOutcome \<times> TurnMachine" where
  "on_cancel call_id tm =
    (let (turn_id, tm') = ensure_call_for_call call_id Cancel tm in (outcome_of turn_id tm', tm'))"

definition record_call_id :: "EventRecord \<Rightarrow> string" where
  "record_call_id rec = (case er_call_id rec of None \<Rightarrow> ''unknown'' | Some c \<Rightarrow> c)"

definition apply_record :: "extractors \<Rightarrow> EventRecord \<Rightarrow> TurnMachine \<Rightarrow> TurnObserveOutcome \<times> TurnMachine" where
  "apply_record ex rec tm =
    (let call_id = record_call_id rec in
     if er_kind rec = ''llm.request'' then on_request call_id rec tm
     else if er_kind rec = ''llm.response'' \<or> er_kind rec = ''llm.response.stream'' then on_response ex call_id rec tm
     else if er_kind rec = ''llm.call.cancelled'' then on_cancel call_id tm
     else (outcome_of (tm_active_turn tm) tm, tm))"

text \<open>The stamps; \<open>None\<close> is the panic of a payload that is neither an object nor null.\<close>

definition stamp :: "TurnObserveOutcome \<Rightarrow> Value \<Rightarrow> Value option" where
  "stamp outcome payload =
    Option.bind (case oc_turn_id outcome of None \<Rightarrow> Some payload | Some t \<Rightarrow> json_set ''turn_id'' (String t) payload)
      (\<lambda>p. case oc_turn_index outcome of None \<Rightarrow> Some p | Some i \<Rightarrow> json_set ''turn_index'' (Number (show_u32 i)) p)"

definition observe_record :: "extractors \<Rightarrow> EventRecord \<Rightarrow> TurnMachine \<Rightarrow> (EventRecord \<times> TurnMachine) option" where
  "observe_record ex rec tm =
    (let (outcome, tm') = apply_record ex rec tm in
     case stamp outcome (er_payload rec) of
       None \<Rightarrow> None
     | Some payload \<Rightarrow> Some (rec\<lparr>er_payload := payload\<rparr>, tm'))"

fun observe_records :: "extractors \<Rightarrow> EventRecord list \<Rightarrow> TurnMachine \<Rightarrow> (EventRecord list \<times> TurnMachine) option" where
  "observe_records ex [] tm = Some ([], tm)"
| "observe_records ex (rec # recs) tm =
    (case observe_record ex rec tm of
       None \<Rightarrow> None
     | Some (rec', tm') \<Rightarrow>
         (case observe_records ex recs tm' of None \<Rightarrow> None | Some (recs', tm'') \<Rightarrow> Some (rec' # recs', tm'')))"

definition replay_records ::
  "extractors \<Rightarrow> string \<Rightarrow> string \<Rightarrow> string option \<Rightarrow> EventRecord list \<Rightarrow> TurnMachine option"
where
  "replay_records ex story_id agent_id run_id recs =
    map_option snd (observe_records ex recs (with_context story_id agent_id run_id))"

subsection \<open>Stamping does not change how a record is read\<close>

definition stamp_keys :: "string set" where
  "stamp_keys = {''turn_id'', ''turn_index''}"

definition same_fields :: "Value \<Rightarrow> Value \<Rightarrow> bool" where
  "same_fields p q \<longleftrightarrow> (\<forall>key. key \<notin> stamp_keys \<longrightarrow> json_get key p = json_get key q)"

lemma json_get_set:
  "json_set key v p = Some p' \<Longrightarrow> json_get k p' = (if k = key then Some v else json_get k p)"
  by (cases p) (auto simp: update_conv')

lemma json_set_again:
  "json_set key v p = Some p' \<Longrightarrow> json_set key v p' = Some p'"
proof (cases p)
  case (Object fs)
  have "AList.update key v (AList.update key v fs) = AList.update key v fs"
    by (induction fs) auto
  moreover assume "json_set key v p = Some p'"
  ultimately show ?thesis using Object by auto
qed auto

lemma json_set_present: "map_of fs key = Some v \<Longrightarrow> AList.update key v fs = fs"
  by (induction fs) (auto split: if_splits)

lemma json_set_same: "json_get key p = Some v \<Longrightarrow> json_set key v p = Some p"
  by (cases p) (auto simp: json_set_present)

lemma stamp_same_fields: "stamp oc p = Some p' \<Longrightarrow> same_fields p' p"
  by (auto simp: stamp_def same_fields_def stamp_keys_def json_get_set Option.bind_eq_Some_conv split: option.splits)

definition set_opt :: "string \<Rightarrow> Value option \<Rightarrow> Value \<Rightarrow> Value option" where
  "set_opt key v p = (case v of None \<Rightarrow> Some p | Some x \<Rightarrow> json_set key x p)"

lemma stamp_set_opt:
  "stamp oc p = Option.bind (set_opt ''turn_id'' (map_option String (oc_turn_id oc)) p)
    (set_opt ''turn_index'' (map_option (\<lambda>i. Number (show_u32 i)) (oc_turn_index oc)))"
  unfolding stamp_def
  by (rule arg_cong2 [where f = Option.bind]) (auto simp: set_opt_def fun_eq_iff split: option.splits)

lemma set_opt_get: "set_opt key v p = Some p' \<Longrightarrow> k \<noteq> key \<Longrightarrow> json_get k p' = json_get k p"
  by (auto simp: set_opt_def dest: json_get_set [where k = k] split: option.splits)

lemma set_opt_same: "(\<And>x. v = Some x \<Longrightarrow> json_get key p = Some x) \<Longrightarrow> set_opt key v p = Some p"
  by (auto simp: set_opt_def json_set_same split: option.splits)

lemma set_opt_present: "set_opt key (Some x) p = Some p' \<Longrightarrow> json_get key p' = Some x"
  by (auto simp: set_opt_def dest: json_get_set [where k = key])

lemma stamp_again:
  assumes "stamp oc p = Some p'"
  shows "stamp oc p' = Some p'"
proof -
  let ?t = "map_option String (oc_turn_id oc)" and ?i = "map_option (\<lambda>i. Number (show_u32 i)) (oc_turn_index oc)"
  obtain p1 where p1: "set_opt ''turn_id'' ?t p = Some p1" and p': "set_opt ''turn_index'' ?i p1 = Some p'"
    using assms by (auto simp: stamp_set_opt Option.bind_eq_Some_conv)
  have t: "json_get ''turn_id'' p' = Some x" if "?t = Some x" for x
    using set_opt_get [OF p', of "''turn_id''"] set_opt_present [of "''turn_id''" x p p1] p1 that by simp
  have i: "json_get ''turn_index'' p' = Some x" if "?i = Some x" for x
    using set_opt_present [of "''turn_index''" x p1 p'] p' that by simp
  have "set_opt ''turn_id'' ?t p' = Some p'" by (rule set_opt_same) (rule t)
  moreover have "set_opt ''turn_index'' ?i p' = Some p'" by (rule set_opt_same) (rule i)
  ultimately show ?thesis by (simp add: stamp_set_opt)
qed

lemma same_fields_get: "same_fields p q \<Longrightarrow> key \<notin> stamp_keys \<Longrightarrow> json_get key p = json_get key q"
  by (simp add: same_fields_def)

lemma same_fields_texts:
  assumes "same_fields p q"
  shows "visible_user_from_payload p = visible_user_from_payload q"
    "visible_assistant_from_payload ex p = visible_assistant_from_payload ex q"
    "get_str ''protocol'' p = get_str ''protocol'' q" "get_str ''path'' p = get_str ''path'' q"
proof -
  have get: "json_get ''user_content'' p = json_get ''user_content'' q" "json_get ''messages'' p = json_get ''messages'' q"
    "json_get ''body'' p = json_get ''body'' q" "json_get ''assistant_content'' p = json_get ''assistant_content'' q"
    "json_get ''choices'' p = json_get ''choices'' q" "json_get ''content'' p = json_get ''content'' q"
    "json_get ''protocol'' p = json_get ''protocol'' q" "json_get ''path'' p = json_get ''path'' q"
    by (simp_all add: same_fields_get [OF assms] stamp_keys_def)
  show "visible_user_from_payload p = visible_user_from_payload q"
    unfolding visible_user_from_payload_def llm_inner_body_def get_str_def get ..
  show "visible_assistant_from_payload ex p = visible_assistant_from_payload ex q"
    unfolding visible_assistant_from_payload_def choices_content_def llm_inner_body_def get_str_def get ..
  show "get_str ''protocol'' p = get_str ''protocol'' q" "get_str ''path'' p = get_str ''path'' q"
    by (simp_all add: get_str_def get)
qed

definition same_record :: "EventRecord \<Rightarrow> EventRecord \<Rightarrow> bool" where
  "same_record r q \<longleftrightarrow> er_kind r = er_kind q \<and> er_call_id r = er_call_id q \<and> same_fields (er_payload r) (er_payload q)"

lemma apply_record_same:
  assumes "same_record r q"
  shows "apply_record ex r tm = apply_record ex q tm"
proof -
  have kind: "er_kind r = er_kind q" and call: "record_call_id r = record_call_id q"
    using assms by (simp_all add: same_record_def record_call_id_def)
  note texts = same_fields_texts [of "er_payload r" "er_payload q"]
  have "is_internal_llm_request r = is_internal_llm_request q"
    unfolding is_internal_llm_request_def kind using assms texts(3,4) by (simp add: same_record_def)
  then have "on_request c r tm = on_request c q tm" for c
    unfolding on_request_def using assms texts(1) by (simp add: same_record_def)
  moreover have "on_response ex c r tm = on_response ex c q tm" for c
    unfolding on_response_def using assms texts(2) by (simp add: same_record_def)
  ultimately show ?thesis by (simp only: apply_record_def kind call)
qed

subsection \<open>The agent and run of a story do not matter\<close>

definition with_meta :: "string \<Rightarrow> string option \<Rightarrow> TurnMachine \<Rightarrow> TurnMachine" where
  "with_meta agent_id run_id tm = tm\<lparr>tm_agent_id := agent_id, tm_run_id := run_id\<rparr>"

lemma ensure_call_meta:
  "ensure_call_in_turn t c k (with_meta a r tm) = with_meta a r (ensure_call_in_turn t c k tm)"
  by (simp add: ensure_call_in_turn_def with_meta_def)

lemma with_meta_fields [simp]:
  "tm_turns (with_meta a r tm) = tm_turns tm" "tm_active_turn (with_meta a r tm) = tm_active_turn tm"
  "tm_call_turns (with_meta a r tm) = tm_call_turns tm" "tm_next_index (with_meta a r tm) = tm_next_index tm"
  "tm_story_id (with_meta a r tm) = tm_story_id tm" "with_meta a' r' (with_meta a r tm) = with_meta a' r' tm"
  by (simp_all add: with_meta_def)

lemma outcome_meta [simp]: "outcome_of t (with_meta a r tm) = outcome_of t tm"
  by (simp add: outcome_of_def turn_index_def)

lemma apply_record_meta:
  "apply_record ex rec (with_meta a r tm) = map_prod (\<lambda>x. x) (with_meta a r) (apply_record ex rec tm)"
proof -
  have join: "join_active c (with_meta a r tm) = map_prod (\<lambda>x. x) (with_meta a r) (join_active c tm)" for c
    by (simp add: join_active_def ensure_call_on_active_turn_def ensure_call_meta split: option.splits)
  have opens: "open_turn k u c (with_meta a r tm) = map_prod (\<lambda>x. x) (with_meta a r) (open_turn k u c tm)" for k u c
    by (simp add: open_turn_def Let_def with_meta_def)
  have request: "on_request c rec (with_meta a r tm) = map_prod (\<lambda>x. x) (with_meta a r) (on_request c rec tm)" for c
    by (auto simp: on_request_def join opens split: option.splits)
  have for_call: "ensure_call_for_call c k (with_meta a r tm) =
      map_prod (\<lambda>x. x) (with_meta a r) (ensure_call_for_call c k tm)" for c k
    by (simp add: ensure_call_for_call_def ensure_call_meta split: option.splits)
  have put: "(with_meta a r tm')\<lparr>tm_turns := ts\<rparr> = with_meta a r (tm'\<lparr>tm_turns := ts\<rparr>)" for tm' ts
    by (simp add: with_meta_def)
  have response: "on_response ex c rec (with_meta a r tm) = map_prod (\<lambda>x. x) (with_meta a r) (on_response ex c rec tm)" for c
    by (cases "ensure_call_for_call c Complete tm")
      (simp add: on_response_def for_call Let_def put split: option.splits)
  have cancel: "on_cancel c (with_meta a r tm) = map_prod (\<lambda>x. x) (with_meta a r) (on_cancel c tm)" for c
    by (cases "ensure_call_for_call c Cancel tm") (simp add: on_cancel_def for_call)
  show ?thesis by (simp add: apply_record_def Let_def request response cancel)
qed

subsection \<open>Turns are numbered by their position\<close>

lemma show_u32_inj: "show_u32 a = show_u32 b \<longleftrightarrow> a = b"
proof
  assume eq: "show_u32 a = show_u32 b"
  have ds: "\<forall>d \<in> set (digits_of 10 10 (uint n)). 0 \<le> d \<and> d < 10" for n :: u32
    using digits_of_range [of 10 "uint n" 10] by simp
  have "digits_of 10 10 (uint n) = fst (digits_prefix 10 (show_u32 n))" for n :: u32
    using digits_prefix_show [OF ds [of n], of "[]"] by (simp add: show_u32_def stops_def)
  then have "digits_of 10 10 (uint a) = digits_of 10 10 (uint b)" using eq by simp
  moreover have "foldl (\<lambda>v d. v * 10 + d) 0 (digits_of 10 10 (uint n)) = uint n" for n :: u32
    using uint_lt2p [of n] by (intro digits_of_value) simp_all
  ultimately have "uint a = uint b" by metis
  then show "a = b" by (simp only: word_uint_eq_iff)
qed simp

lemma turn_id_new_inj: "turn_id_new story a = turn_id_new story b \<longleftrightarrow> a = b"
  by (simp add: turn_id_new_def show_u32_inj)

definition positions :: "TurnMachine \<Rightarrow> (string \<times> u32) list" where
  "positions tm = map (\<lambda>t. (tn_turn_id t, tn_index t)) (tm_turns tm)"

definition numbered :: "string \<Rightarrow> nat \<Rightarrow> (string \<times> u32) list" where
  "numbered story n = map (\<lambda>i. (turn_id_new story (of_nat i), of_nat i)) [0..<n]"

definition turn_of :: "string \<Rightarrow> TurnMachine \<Rightarrow> string option" where
  "turn_of call_id tm = map_of (tm_call_turns tm) call_id"

definition machine_ok :: "TurnMachine \<Rightarrow> bool" where
  "machine_ok tm \<longleftrightarrow> positions tm = numbered (tm_story_id tm) (length (tm_turns tm)) \<and>
    tm_next_index tm = of_nat (length (tm_turns tm)) \<and>
    (\<forall>t. tm_active_turn tm = Some t \<longrightarrow> t \<in> fst ` set (positions tm)) \<and>
    (\<forall>c t. turn_of c tm = Some t \<longrightarrow> t \<in> fst ` set (positions tm))"

lemma map_update_first: "(\<And>x. g (f x) = g x) \<Longrightarrow> map g (update_first P f xs) = map g xs"
  by (induction xs) auto

lemma length_update_first [simp]: "length (update_first P f xs) = length xs"
  by (induction xs) auto

lemma add_call_keeps [simp]:
  "tn_turn_id (add_call c k t) = tn_turn_id t" "tn_index (add_call c k t) = tn_index t"
  by (simp_all add: add_call_def)

lemma positions_ensure [simp]: "positions (ensure_call_in_turn t c k tm) = positions tm"
  by (simp add: ensure_call_in_turn_def positions_def map_update_first)

lemma length_ensure [simp]: "length (tm_turns (ensure_call_in_turn t c k tm)) = length (tm_turns tm)"
  by (simp add: ensure_call_in_turn_def)

lemma ensure_keeps [simp]:
  "tm_story_id (ensure_call_in_turn t c k tm) = tm_story_id tm" "tm_next_index (ensure_call_in_turn t c k tm) = tm_next_index tm"
  "tm_active_turn (ensure_call_in_turn t c k tm) = tm_active_turn tm"
  by (simp_all add: ensure_call_in_turn_def)

lemma in_positions: "t \<in> fst ` set (positions tm) \<longleftrightarrow> list_ex (\<lambda>x. tn_turn_id x = t) (tm_turns tm)"
  by (force simp: positions_def list_ex_iff)

lemma turn_of_ensure:
  "turn_of d (ensure_call_in_turn t c k tm) =
    (if d = c \<and> t \<in> fst ` set (positions tm) then Some t else turn_of d tm)"
  by (simp add: ensure_call_in_turn_def turn_of_def update_conv' in_positions)

lemma ensure_ok: "machine_ok tm \<Longrightarrow> machine_ok (ensure_call_in_turn t c k tm)"
  by (auto simp: machine_ok_def turn_of_ensure split: if_splits)

lemma numbered_Suc: "numbered story (Suc n) = numbered story n @ [(turn_id_new story (of_nat n), of_nat n)]"
  by (simp add: numbered_def)

lemma open_turn_fields:
  fixes tm kind user c
  defines "tm' \<equiv> snd (open_turn kind user c tm)" and "t \<equiv> turn_id_new (tm_story_id tm) (tm_next_index tm)"
  shows "positions tm' = positions tm @ [(t, tm_next_index tm)]" "length (tm_turns tm') = Suc (length (tm_turns tm))"
    "tm_next_index tm' = tm_next_index tm + 1" "tm_active_turn tm' = Some t" "tm_story_id tm' = tm_story_id tm"
    "turn_of d tm' = (if d = c then Some t else turn_of d tm)"
    "oc_turn_id (fst (open_turn kind user c tm)) = Some t"
  by (simp_all add: tm'_def t_def open_turn_def Let_def positions_def turn_of_def update_conv')

lemma open_turn_ok:
  assumes "machine_ok tm"
  shows "machine_ok (snd (open_turn kind user c tm))"
    "oc_turn_id (fst (open_turn kind user c tm)) = turn_of c (snd (open_turn kind user c tm))"
    "turn_of c (snd (open_turn kind user c tm)) \<noteq> None"
    "d \<noteq> c \<Longrightarrow> turn_of d (snd (open_turn kind user c tm)) = turn_of d tm"
proof -
  note f = open_turn_fields [where kind = kind and user = user and c = c and tm = tm]
  show "machine_ok (snd (open_turn kind user c tm))"
    using assms unfolding machine_ok_def f numbered_Suc by (simp add: image_Un) metis
qed (simp_all add: open_turn_fields)

lemma join_active_ok:
  assumes "machine_ok tm"
  shows "machine_ok (snd (join_active c tm))"
    "tm_active_turn tm \<noteq> None \<Longrightarrow> oc_turn_id (fst (join_active c tm)) = turn_of c (snd (join_active c tm)) \<and>
      turn_of c (snd (join_active c tm)) \<noteq> None"
    "d \<noteq> c \<Longrightarrow> turn_of d (snd (join_active c tm)) = turn_of d tm"
  using assms
  by (auto simp: join_active_def ensure_call_on_active_turn_def ensure_ok turn_of_ensure outcome_of_def
      machine_ok_def split: option.splits)

lemma on_request_ok:
  assumes ok: "machine_ok tm"
  shows "machine_ok (snd (on_request c rec tm))"
    "d \<noteq> c \<Longrightarrow> turn_of d (snd (on_request c rec tm)) = turn_of d tm"
    "\<not> is_internal_llm_request rec \<Longrightarrow> oc_turn_id (fst (on_request c rec tm)) = turn_of c (snd (on_request c rec tm)) \<and>
      turn_of c (snd (on_request c rec tm)) \<noteq> None"
  using open_turn_ok [OF ok] join_active_ok [OF ok]
  by (simp_all add: on_request_def split: option.splits)

lemma ensure_for_call_ok:
  assumes ok: "machine_ok tm" and e: "ensure_call_for_call c k tm = (t, tm')"
  shows "machine_ok tm'" "d \<noteq> c \<Longrightarrow> turn_of d tm' = turn_of d tm"
    "turn_of c tm = Some u \<Longrightarrow> t = Some u \<and> turn_of c tm' = Some u"
    "\<And>u. t = Some u \<Longrightarrow> u \<in> fst ` set (positions tm')"
  using assms
  by (auto simp: ensure_call_for_call_def ensure_ok turn_of_ensure turn_of_def [symmetric] or_else_def machine_ok_def
      split: option.splits if_splits)

definition set_assistant :: "string \<Rightarrow> TextBlock \<Rightarrow> TurnMachine \<Rightarrow> TurnMachine" where
  "set_assistant tid block tm =
    tm\<lparr>tm_turns := update_first (\<lambda>t. tn_turn_id t = tid) (\<lambda>t. t\<lparr>tn_assistant := Some block\<rparr>) (tm_turns tm)\<rparr>"

lemma set_assistant_keeps [simp]:
  "positions (set_assistant t b tm) = positions tm" "turn_of c (set_assistant t b tm) = turn_of c tm"
  "machine_ok (set_assistant t b tm) = machine_ok tm"
proof -
  show pos: "positions (set_assistant t b tm) = positions tm" and turn: "turn_of c (set_assistant t b tm) = turn_of c tm" for c
    by (simp_all add: set_assistant_def positions_def map_update_first turn_of_def)
  show "machine_ok (set_assistant t b tm) = machine_ok tm"
    unfolding machine_ok_def pos turn by (simp add: set_assistant_def)
qed

lemma set_assistant_in:
  "t \<in> fst ` set (positions tm) \<Longrightarrow>
    \<exists>turn \<in> set (tm_turns (set_assistant t b tm)). tn_turn_id turn = t \<and> tn_assistant turn = Some b"
proof -
  have "list_ex (\<lambda>x. tn_turn_id x = t) ts \<Longrightarrow>
      \<exists>turn \<in> set (update_first (\<lambda>x. tn_turn_id x = t) (\<lambda>x. x\<lparr>tn_assistant := Some b\<rparr>) ts).
        tn_turn_id turn = t \<and> tn_assistant turn = Some b" for ts :: "Turn list"
    by (induction ts) auto
  moreover assume "t \<in> fst ` set (positions tm)"
  ultimately show ?thesis by (simp add: in_positions set_assistant_def)
qed

lemma on_response_eq:
  assumes "ensure_call_for_call c Complete tm = (t, tm')"
  shows "on_response ex c rec tm =
    (let tm'' = (case (visible_assistant_from_payload ex (er_payload rec), t) of
        (Some text, Some tid) \<Rightarrow> set_assistant tid \<lparr>tb_text = text, tb_call_id = Some c\<rparr> tm' | _ \<Rightarrow> tm')
     in (outcome_of t tm'', tm''))"
  by (simp add: on_response_def assms set_assistant_def split: option.splits)

lemma on_response_ok:
  assumes ok: "machine_ok tm"
  shows "machine_ok (snd (on_response ex c rec tm))"
    "d \<noteq> c \<Longrightarrow> turn_of d (snd (on_response ex c rec tm)) = turn_of d tm"
    "turn_of c tm = Some u \<Longrightarrow> oc_turn_id (fst (on_response ex c rec tm)) = Some u"
    "turn_of c tm = Some u \<Longrightarrow> visible_assistant_from_payload ex (er_payload rec) = Some reply \<Longrightarrow>
      \<exists>turn \<in> set (tm_turns (snd (on_response ex c rec tm))).
        tn_turn_id turn = u \<and> tn_assistant turn = Some \<lparr>tb_text = reply, tb_call_id = Some c\<rparr>"
proof -
  obtain t tm' where e: "ensure_call_for_call c Complete tm = (t, tm')" by (rule prod.exhaust)
  note f = ensure_for_call_ok [OF ok e] and r = on_response_eq [OF e, of ex rec]
  show "machine_ok (snd (on_response ex c rec tm))" "d \<noteq> c \<Longrightarrow> turn_of d (snd (on_response ex c rec tm)) = turn_of d tm"
    using f(1) f(2) [of d] by (simp_all add: r Let_def split: option.splits)
  show "oc_turn_id (fst (on_response ex c rec tm)) = Some u" if "turn_of c tm = Some u"
    using f(3) [OF that] by (simp add: r Let_def outcome_of_def)
  show "\<exists>turn \<in> set (tm_turns (snd (on_response ex c rec tm))).
      tn_turn_id turn = u \<and> tn_assistant turn = Some \<lparr>tb_text = reply, tb_call_id = Some c\<rparr>"
    if "turn_of c tm = Some u" "visible_assistant_from_payload ex (er_payload rec) = Some reply"
    using f(3) [OF that(1)] f(4) [of u] that(2) by (simp add: r Let_def set_assistant_in)
qed

lemma on_cancel_ok:
  assumes ok: "machine_ok tm"
  shows "machine_ok (snd (on_cancel c tm))" "d \<noteq> c \<Longrightarrow> turn_of d (snd (on_cancel c tm)) = turn_of d tm"
proof -
  obtain t tm' where e: "ensure_call_for_call c Cancel tm = (t, tm')" by (rule prod.exhaust)
  show "machine_ok (snd (on_cancel c tm))" "d \<noteq> c \<Longrightarrow> turn_of d (snd (on_cancel c tm)) = turn_of d tm"
    using ensure_for_call_ok(1) [OF ok e] ensure_for_call_ok(2) [OF ok e, where d = d] by (simp_all add: on_cancel_def e)
qed

lemma apply_record_ok:
  assumes "machine_ok tm"
  shows "machine_ok (snd (apply_record ex rec tm))"
    "d \<noteq> record_call_id rec \<Longrightarrow> turn_of d (snd (apply_record ex rec tm)) = turn_of d tm"
  using on_request_ok [OF assms] on_response_ok [OF assms] on_cancel_ok [OF assms] assms
  by (simp_all add: apply_record_def Let_def)

lemma apply_record_story: "tm_story_id (snd (apply_record ex rec tm)) = tm_story_id tm"
  by (simp add: apply_record_def on_request_def on_response_def on_cancel_def join_active_def open_turn_def
      ensure_call_on_active_turn_def ensure_call_for_call_def Let_def split: option.splits)

lemma observe_record_eq:
  "observe_record ex rec tm = Some (rec', tm') \<Longrightarrow>
    tm' = snd (apply_record ex rec tm) \<and> stamp (fst (apply_record ex rec tm)) (er_payload rec) = Some (er_payload rec') \<and>
    rec' = rec\<lparr>er_payload := er_payload rec'\<rparr>"
  by (auto simp: observe_record_def split: prod.splits option.splits)

lemma observe_records_ok:
  "machine_ok tm \<Longrightarrow> observe_records ex recs tm = Some (recs', tm') \<Longrightarrow> machine_ok tm' \<and> length recs' = length recs \<and>
    tm_story_id tm' = tm_story_id tm \<and>
    (\<forall>d. (\<forall>r \<in> set recs. record_call_id r \<noteq> d) \<longrightarrow> turn_of d tm' = turn_of d tm)"
proof (induction recs arbitrary: tm recs')
  case (Cons rec recs)
  then obtain rec' tm1 recs1 where o: "observe_record ex rec tm = Some (rec', tm1)"
      "observe_records ex recs tm1 = Some (recs1, tm')" "recs' = rec' # recs1"
    by (auto split: option.splits)
  have "tm1 = snd (apply_record ex rec tm)" using observe_record_eq [OF o(1)] by simp
  then have "machine_ok tm1" "\<forall>d. d \<noteq> record_call_id rec \<longrightarrow> turn_of d tm1 = turn_of d tm"
    "tm_story_id tm1 = tm_story_id tm"
    using apply_record_ok [OF Cons.prems(1)] by (auto simp: apply_record_story)
  with Cons.IH [OF this(1) o(2)] show ?case by (auto simp: o(3))
qed simp

lemma observe_records_append:
  "observe_records ex (xs @ ys) tm =
    Option.bind (observe_records ex xs tm) (\<lambda>(xs', tm').
      map_option (\<lambda>(ys', tm''). (xs' @ ys', tm'')) (observe_records ex ys tm'))"
proof (induction xs arbitrary: tm)
  case Nil
  then show ?case by (cases "observe_records ex ys tm") auto
next
  case (Cons x xs)
  then show ?case by (auto simp: Option.bind_eq_Some_conv split: option.splits prod.splits)
qed

lemma observe_records_appendE:
  assumes "observe_records ex (xs @ ys) tm = Some (zs, tm'')"
  obtains xs' ys' tm' where "observe_records ex xs tm = Some (xs', tm')" "observe_records ex ys tm' = Some (ys', tm'')"
    "zs = xs' @ ys'"
  using assms by (auto simp: observe_records_append Option.bind_eq_Some_conv)

lemma observe_records_ConsE:
  assumes "observe_records ex (x # xs) tm = Some (zs, tm'')"
  obtains x' xs' tm' where "observe_record ex x tm = Some (x', tm')" "observe_records ex xs tm' = Some (xs', tm'')"
    "zs = x' # xs'"
  using assms by (auto split: option.splits)

lemma new_machine_ok: "machine_ok (turn_machine_new story)"
  by (simp add: machine_ok_def turn_machine_new_def with_context_def positions_def numbered_def turn_of_def)

lemma stamp_turn_id:
  assumes "stamp oc p = Some p'" "oc_turn_id oc = Some t"
  shows "get_str ''turn_id'' p' = Some t"
proof -
  obtain p1 where p1: "set_opt ''turn_id'' (Some (String t)) p = Some p1"
    and p': "set_opt ''turn_index'' (map_option (\<lambda>i. Number (show_u32 i)) (oc_turn_index oc)) p1 = Some p'"
    using assms by (auto simp: stamp_set_opt Option.bind_eq_Some_conv)
  have "json_get ''turn_id'' p' = Some (String t)"
    using set_opt_get [OF p', of "''turn_id''"] set_opt_present [OF p1] by simp
  then show ?thesis by (simp add: get_str_def)
qed

subsection \<open>Properties\<close>

lemma numbered_distinct:
  assumes "n < 2 ^ 32"
  shows "distinct (map fst (numbered story n))"
proof -
  have "inj_on (\<lambda>i. turn_id_new story (of_nat i :: u32)) {0..<n}"
  proof (rule inj_onI)
    fix i j assume ij: "i \<in> {0..<n}" "j \<in> {0..<n}" "turn_id_new story (of_nat i) = turn_id_new story (of_nat j)"
    then have "(of_nat i :: u32) = of_nat j" by (simp add: turn_id_new_inj)
    then have "unat (of_nat i :: u32) = unat (of_nat j :: u32)" by simp
    with ij assms show "i = j" by (simp add: unat_of_nat)
  qed
  then show ?thesis by (simp add: numbered_def distinct_map comp_def)
qed

text \<open>
  C37: The turns of a story are numbered by their position: after any records that open fewer than
  \<open>2 ^ 32\<close> turns, the turn at position \<open>i\<close> has index \<open>i\<close> and the id made of the story and \<open>i\<close>, no two
  turns have the same id, and the active turn and the turn of every known call are turns of the
  story.
\<close>

theorem turns_numbered:
  assumes "observe_records ex recs (turn_machine_new story) = Some (stamped, tm)" and "length (tm_turns tm) < 2 ^ 32"
  shows "positions tm = numbered story (length (tm_turns tm)) \<and> distinct (map fst (positions tm)) \<and>
    set_option (tm_active_turn tm) \<subseteq> fst ` set (positions tm) \<and> ran (map_of (tm_call_turns tm)) \<subseteq> fst ` set (positions tm)"
proof -
  have ok: "machine_ok tm" "tm_story_id tm = story"
    using observe_records_ok [OF new_machine_ok assms(1)] by (simp_all add: turn_machine_new_def with_context_def)
  then have pos: "positions tm = numbered story (length (tm_turns tm))" by (simp add: machine_ok_def)
  moreover have "distinct (map fst (positions tm))" unfolding pos by (rule numbered_distinct [OF assms(2)])
  moreover have "set_option (tm_active_turn tm) \<subseteq> fst ` set (positions tm)"
    "ran (map_of (tm_call_turns tm)) \<subseteq> fst ` set (positions tm)"
    using ok(1) by (auto simp: machine_ok_def turn_of_def ran_def)
  ultimately show ?thesis by blast
qed

definition demo_extractors :: extractors where
  "demo_extractors = \<lparr>turn_from_sse = (\<lambda>s. s), text_from_json = (\<lambda>_. None)\<rparr>"

definition demo_record :: "string \<Rightarrow> string \<Rightarrow> (string \<times> Value) list \<Rightarrow> EventRecord" where
  "demo_record kind call payload =
    \<lparr>er_identity = \<lparr>ei_event_id = None, ei_run_id = None, ei_attempt_id = None, ei_storyline_id = None, ei_turn_id = None,
       ei_timestamp_unix_ms = None, ei_producer = None\<rparr>, er_seq = 0, er_source = ''proxy'', er_kind = kind,
     er_timestamp = None, er_session_id = None, er_agent_id = None, er_parent_uuid = None, er_trace_id = None,
     er_call_id = Some call, er_subagent_id = None, er_parent_agent_id = None, er_branch = None,
     er_parent_call_id = None, er_payload = Object payload\<rparr>"

definition demo_records :: "EventRecord list" where
  "demo_records =
    [demo_record ''llm.request'' ''c1'' [(''user_content'', String ''hello'')],
     demo_record ''llm.request'' ''c2'' [(''user_content'', String ''more'')],
     demo_record ''llm.response'' ''c1'' [(''assistant_content'', String ''hi'')]]"

theorem turns_numbered_witness:
  "map_option (\<lambda>(_, tm). positions tm) (observe_records demo_extractors demo_records (turn_machine_new ''s'')) =
    Some (numbered ''s'' 2)"
proof -
  obtain stamped tm where o: "observe_records demo_extractors demo_records (turn_machine_new ''s'') = Some (stamped, tm)"
    and l: "length (tm_turns tm) = 2"
  proof -
    have "map_option (\<lambda>(_, tm). length (tm_turns tm)) (observe_records demo_extractors demo_records (turn_machine_new ''s'')) = Some 2"
      by code_simp
    then show thesis using that by auto
  qed
  from turns_numbered [OF o] l show ?thesis by (simp add: o)
qed

text \<open>
  C40: A response belongs to the turn of its request. When a request that is not internal opens or
  joins a turn and the response of the same call arrives later, after any records of other calls
  (which may open further turns), both records are stamped with the same turn id, and the visible
  text of the response becomes the assistant's text of that turn.
\<close>

theorem response_joins_its_turn:
  assumes run: "observe_records ex (before @ req # between @ [resp]) (turn_machine_new story) = Some (stamped, tm)"
    and req: "er_kind req = ''llm.request''" "\<not> is_internal_llm_request req"
    and resp: "er_kind resp = ''llm.response'' \<or> er_kind resp = ''llm.response.stream''"
    and call: "record_call_id resp = record_call_id req"
    and between: "\<forall>r \<in> set between. record_call_id r \<noteq> record_call_id req"
  shows "\<exists>t. get_str ''turn_id'' (er_payload (stamped ! length before)) = Some t \<and>
    get_str ''turn_id'' (er_payload (last stamped)) = Some t \<and>
    (\<forall>reply. visible_assistant_from_payload ex (er_payload resp) = Some reply \<longrightarrow>
      (\<exists>turn \<in> set (tm_turns tm). tn_turn_id turn = t \<and>
        tn_assistant turn = Some \<lparr>tb_text = reply, tb_call_id = Some (record_call_id req)\<rparr>))"
proof -
  let ?c = "record_call_id req"
  from run obtain s0 tm0 r0 where o0: "observe_records ex before (turn_machine_new story) = Some (s0, tm0)"
    and r0: "observe_records ex (req # between @ [resp]) tm0 = Some (r0, tm)" "stamped = s0 @ r0"
    by (rule observe_records_appendE)
  from r0(1) obtain s1 tm1 r1 where o1: "observe_record ex req tm0 = Some (s1, tm1)"
    and r1: "observe_records ex (between @ [resp]) tm1 = Some (r1, tm)" "r0 = s1 # r1"
    by (rule observe_records_ConsE)
  from r1(1) obtain s2 tm2 r2 where o2: "observe_records ex between tm1 = Some (s2, tm2)"
    and r2: "observe_records ex [resp] tm2 = Some (r2, tm)" "r1 = s2 @ r2"
    by (rule observe_records_appendE)
  from r2(1) obtain s3 where o3: "observe_record ex resp tm2 = Some (s3, tm)" and "r2 = [s3]"
    by (auto split: option.splits)
  with r0(2) r1(2) r2(2) have stamped: "stamped = s0 @ s1 # s2 @ [s3]" by simp
  have ok0: "machine_ok tm0" "length s0 = length before"
    using observe_records_ok [OF new_machine_ok o0] by simp_all
  note e1 = observe_record_eq [OF o1] and e3 = observe_record_eq [OF o3]
  have a1: "apply_record ex req tm0 = on_request ?c req tm0" using req by (simp add: apply_record_def)
  obtain t where t: "turn_of ?c tm1 = Some t" "oc_turn_id (fst (apply_record ex req tm0)) = Some t"
    using on_request_ok(3) [OF ok0(1) req(2), of ?c] e1 by (auto simp: a1)
  have ok1: "machine_ok tm1" using apply_record_ok(1) [OF ok0(1)] e1 by simp
  have ok2: "machine_ok tm2" and t2: "turn_of ?c tm2 = Some t"
    using observe_records_ok [OF ok1 o2] between t(1) by simp_all
  have a3: "apply_record ex resp tm2 = on_response ex ?c resp tm2"
    using resp by (auto simp: apply_record_def call)
  have "get_str ''turn_id'' (er_payload s1) = Some t" using e1 t(2) stamp_turn_id by blast
  moreover have "get_str ''turn_id'' (er_payload s3) = Some t"
    using e3 on_response_ok(3) [OF ok2 t2] stamp_turn_id unfolding a3 by blast
  ultimately show ?thesis
    using on_response_ok(4) [OF ok2 t2] e3 by (auto simp: stamped nth_append ok0(2) a3)
qed

theorem response_joins_its_turn_witness:
  "map_option (\<lambda>(stamped, _). (get_str ''turn_id'' (er_payload (stamped ! 0)), get_str ''turn_id'' (er_payload (last stamped))))
     (observe_records demo_extractors demo_records (turn_machine_new ''s'')) = Some (Some ''s#turn-0'', Some ''s#turn-0'')"
proof -
  let ?req = "demo_records ! 0" and ?mid = "demo_records ! 1" and ?resp = "demo_records ! 2"
  have d: "demo_records = [] @ ?req # [?mid] @ [?resp]" by (simp add: demo_records_def)
  obtain stamped tm where o: "observe_records demo_extractors demo_records (turn_machine_new ''s'') = Some (stamped, tm)"
    and id0: "get_str ''turn_id'' (er_payload (stamped ! 0)) = Some ''s#turn-0''"
  proof -
    have "map_option (\<lambda>(stamped, _). get_str ''turn_id'' (er_payload (stamped ! 0)))
        (observe_records demo_extractors demo_records (turn_machine_new ''s'')) = Some (Some ''s#turn-0'')"
      by code_simp
    then show thesis using that by auto
  qed
  have side: "er_kind ?req = ''llm.request''" "\<not> is_internal_llm_request ?req" "er_kind ?resp = ''llm.response''"
    "record_call_id ?resp = record_call_id ?req" "record_call_id ?mid \<noteq> record_call_id ?req"
    by code_simp+
  from o d have "observe_records demo_extractors ([] @ ?req # [?mid] @ [?resp]) (turn_machine_new ''s'') = Some (stamped, tm)"
    by simp
  from response_joins_its_turn [OF this] side id0 show ?thesis by (auto simp: o)
qed

end
