(* ===== verification/StoryActor.thy ===== *)
theory StoryActor
  imports TurnMachine
begin

section \<open>The actor of one story\<close>

text \<open>
  \<open>engine/actors/story.rs\<close> and the rebuild functions of \<open>engine/egress.rs\<close>: the actor stamps a
  record with its turn, gives it to the sink and keeps the new turns only when the sink accepted it;
  the read path rebuilds the story from the records that the sink holds. The sink, the decision when
  the document header is rewritten and the rendering of drafts are parameters of each command. The
  markdown file is a derived projection whose errors are ignored; of it only the counter is kept.
\<close>

record StoryScope =
  sc_storage_session_id :: string
  sc_agent_id :: string
  sc_run_id :: "string option"

text \<open>A command carries the result of decoding its bytes.\<close>

datatype StoryCommand =
  PersistRecord StoryScope "EventRecord option"
| UpsertDraft StoryScope "(EventRecord \<times> string) option"
| Flush
| Snapshot StoryScope
| LocalSnapshot

datatype StoryReply = Ack | SnapshotReply Story | LocalSnapshotReply string Story

datatype story_error = Malformed | AppendFailed | NoNextSeq | DraftFailed | Panicked

record story_deps =
  sd_extractors :: extractors
  sd_append :: "StoryScope \<Rightarrow> EventRecord \<Rightarrow> EventRecord option"
  sd_peek_next_seq :: "StoryScope \<Rightarrow> u64 option"
  sd_should_refresh :: "EventRecord \<Rightarrow> bool"
  sd_draft_turn :: "EventRecord \<Rightarrow> string \<Rightarrow> string option option"
  sd_write_draft :: "string \<Rightarrow> string \<Rightarrow> bool"

record StoryActor =
  sa_story_id :: string
  sa_turns :: TurnMachine
  sa_storage_session_id :: "string option"
  sa_frontmatter_pending :: u32
  sa_last_scope :: "StoryScope option"

definition FRONTMATTER_REFRESH_EVERY_N_RECORDS :: u32 where
  "FRONTMATTER_REFRESH_EVERY_N_RECORDS = 4"

definition story_actor_new :: "string \<Rightarrow> StoryActor" where
  "story_actor_new story_id =
    \<lparr>sa_story_id = story_id, sa_turns = turn_machine_new story_id, sa_storage_session_id = None,
     sa_frontmatter_pending = 0, sa_last_scope = None\<rparr>"

definition sync_scope :: "StoryScope \<Rightarrow> StoryActor \<Rightarrow> StoryActor" where
  "sync_scope scope a =
    a\<lparr>sa_storage_session_id := Some (sc_storage_session_id scope),
      sa_turns := set_story_meta (sc_agent_id scope) (sc_run_id scope) (sa_turns a),
      sa_last_scope := Some scope\<rparr>"

definition refresh_frontmatter :: "StoryActor \<Rightarrow> StoryActor" where
  "refresh_frontmatter a = a\<lparr>sa_frontmatter_pending := 0\<rparr>"

definition flush_pending_frontmatter :: "StoryActor \<Rightarrow> StoryActor" where
  "flush_pending_frontmatter a = (if 0 < sa_frontmatter_pending a then refresh_frontmatter a else a)"

text \<open>\<open>u32::saturating_add(1)\<close>, then a refresh at every fourth record.\<close>

definition count_record :: "story_deps \<Rightarrow> EventRecord \<Rightarrow> StoryActor \<Rightarrow> StoryActor" where
  "count_record deps rec a =
    (if sd_should_refresh deps rec then
       let pending = (if sa_frontmatter_pending a = - 1 then sa_frontmatter_pending a else sa_frontmatter_pending a + 1);
           a' = a\<lparr>sa_frontmatter_pending := pending\<rparr> in
       if FRONTMATTER_REFRESH_EVERY_N_RECORDS \<le> pending then refresh_frontmatter a' else a'
     else a)"

text \<open>The record as the sink stored it and the turns after it, computed on a copy of the turns.\<close>

definition persist_record ::
  "story_deps \<Rightarrow> StoryScope \<Rightarrow> EventRecord \<Rightarrow> TurnMachine \<Rightarrow> story_error + EventRecord \<times> TurnMachine"
where
  "persist_record deps scope rec turns =
    (case observe_record (sd_extractors deps) rec turns of
       None \<Rightarrow> Inl Panicked
     | Some (rec', next_turns) \<Rightarrow>
         (case sd_append deps scope rec' of
            None \<Rightarrow> Inl AppendFailed
          | Some stored \<Rightarrow> Inr (stored, next_turns)))"

definition upsert_draft :: "story_deps \<Rightarrow> StoryScope \<Rightarrow> EventRecord \<Rightarrow> string \<Rightarrow> story_error + StoryReply" where
  "upsert_draft deps scope rec content =
    (case sd_peek_next_seq deps scope of
       None \<Rightarrow> Inl NoNextSeq
     | Some seq \<Rightarrow>
         (case sd_draft_turn deps (rec\<lparr>er_seq := seq\<rparr>) content of
            None \<Rightarrow> Inl DraftFailed
          | Some None \<Rightarrow> Inr Ack
          | Some (Some turn) \<Rightarrow>
              if sd_write_draft deps (case er_call_id rec of None \<Rightarrow> [] | Some c \<Rightarrow> c) turn then Inr Ack
              else Inl DraftFailed))"

fun handle :: "story_deps \<Rightarrow> StoryCommand \<Rightarrow> StoryActor \<Rightarrow> (story_error + StoryReply) \<times> StoryActor" where
  "handle deps Flush a =
    (Inr Ack, if sa_last_scope a = None then a else flush_pending_frontmatter a)"
| "handle deps LocalSnapshot a =
    (Inr (LocalSnapshotReply (case sa_storage_session_id a of None \<Rightarrow> sa_story_id a | Some s \<Rightarrow> s) (snapshot (sa_turns a))), a)"
| "handle deps (Snapshot scope) a =
    (let a' = flush_pending_frontmatter (sync_scope scope a) in (Inr (SnapshotReply (snapshot (sa_turns a'))), a'))"
| "handle deps (PersistRecord scope decoded) a =
    (let a' = sync_scope scope a in
     case decoded of
       None \<Rightarrow> (Inl Malformed, a')
     | Some rec \<Rightarrow>
         (case persist_record deps scope rec (sa_turns a') of
            Inl e \<Rightarrow> (Inl e, a')
          | Inr (stored, next_turns) \<Rightarrow> (Inr Ack, count_record deps stored (a'\<lparr>sa_turns := next_turns\<rparr>))))"
| "handle deps (UpsertDraft scope decoded) a =
    (let a' = sync_scope scope a in
     case decoded of
       None \<Rightarrow> (Inl Malformed, a')
     | Some (rec, content) \<Rightarrow> (upsert_draft deps scope rec content, a'))"

text \<open>What a command adds to the sink.\<close>

fun stored_by :: "story_deps \<Rightarrow> StoryCommand \<Rightarrow> StoryActor \<Rightarrow> EventRecord list" where
  "stored_by deps (PersistRecord scope (Some rec)) a =
    (case persist_record deps scope rec (sa_turns (sync_scope scope a)) of Inl _ \<Rightarrow> [] | Inr (stored, _) \<Rightarrow> [stored])"
| "stored_by deps _ a = []"

fun run_actor :: "(story_deps \<times> StoryCommand) list \<Rightarrow> StoryActor \<Rightarrow> EventRecord list \<times> StoryActor" where
  "run_actor [] a = ([], a)"
| "run_actor ((deps, cmd) # steps) a =
    (let (stored, a') = run_actor steps (snd (handle deps cmd a)) in (stored_by deps cmd a @ stored, a'))"

subsection \<open>The read path\<close>

definition rebuild_story_from_records ::
  "extractors \<Rightarrow> string \<Rightarrow> string \<Rightarrow> string option \<Rightarrow> EventRecord list \<Rightarrow> Story option"
where
  "rebuild_story_from_records ex story_id agent_id run_id records =
    map_option snapshot (replay_records ex story_id agent_id run_id records)"

definition turn_call_ids :: "Turn \<Rightarrow> string list" where
  "turn_call_ids turn =
    (case tn_user turn of None \<Rightarrow> [] | Some user \<Rightarrow> (case tb_call_id user of None \<Rightarrow> [] | Some c \<Rightarrow> [c])) @
    (case tn_assistant turn of None \<Rightarrow> [] | Some reply \<Rightarrow> (case tb_call_id reply of None \<Rightarrow> [] | Some c \<Rightarrow> [c])) @
    map tc_call_id (tn_calls turn)"

definition story_call_ids :: "Story \<Rightarrow> string set" where
  "story_call_ids story = set (concat (map turn_call_ids (st_turns story)))"

definition story_user_turn_count :: "Story \<Rightarrow> nat" where
  "story_user_turn_count story = length (filter (\<lambda>t. tn_kind t = Dialogue \<and> tn_user t \<noteq> None) (st_turns story))"

subsection \<open>The turns of the actor are those of the stored records\<close>

text \<open>
  \<open>CaptureEventSink::append\<close> assigns the number (and route fields) of a record; kind, call and
  payload are stored as given.
\<close>

definition lawful_sink :: "story_deps \<Rightarrow> bool" where
  "lawful_sink deps \<longleftrightarrow> (\<forall>scope rec stored. sd_append deps scope rec = Some stored \<longrightarrow>
     er_kind stored = er_kind rec \<and> er_call_id stored = er_call_id rec \<and> er_payload stored = er_payload rec)"

lemma with_meta_set_story_meta [simp]: "with_meta a r (set_story_meta agent run tm) = with_meta a r tm"
  by (simp add: set_story_meta_def with_meta_def)

lemma sync_scope_turns [simp]: "with_meta a r (sa_turns (sync_scope scope x)) = with_meta a r (sa_turns x)"
  by (simp add: sync_scope_def)

lemma frontmatter_turns [simp]:
  "sa_turns (flush_pending_frontmatter a) = sa_turns a" "sa_turns (count_record deps rec a) = sa_turns a"
  by (simp_all add: flush_pending_frontmatter_def refresh_frontmatter_def count_record_def Let_def)

lemma observe_stored:
  assumes o: "observe_record ex rec tm = Some (rec', tm')"
    and same: "er_kind stored = er_kind rec'" "er_call_id stored = er_call_id rec'" "er_payload stored = er_payload rec'"
  shows "observe_record ex stored (with_meta a r tm) = Some (stored, with_meta a r tm')"
proof -
  note e = observe_record_eq [OF o]
  then have s: "stamp (fst (apply_record ex rec tm)) (er_payload rec) = Some (er_payload rec')" by blast
  have "er_kind rec' = er_kind rec" "er_call_id rec' = er_call_id rec" using e by (metis EventRecord.select_convs EventRecord.surjective EventRecord.update_convs(15))+
  then have "same_record stored rec" using same stamp_same_fields [OF s] by (simp add: same_record_def)
  then have "apply_record ex stored (with_meta a r tm) = map_prod (\<lambda>x. x) (with_meta a r) (apply_record ex rec tm)"
    by (simp add: apply_record_same apply_record_meta)
  moreover have "stamp (fst (apply_record ex rec tm)) (er_payload stored) = Some (er_payload stored)"
    using stamp_again [OF s] same(3) by simp
  ultimately show ?thesis
    using e by (cases "apply_record ex rec tm") (simp add: observe_record_def)
qed

lemma persist_record_cases:
  assumes "persist_record deps scope rec tm = Inr (stored, tm')"
  obtains rec' where "observe_record (sd_extractors deps) rec tm = Some (rec', tm')" "sd_append deps scope rec' = Some stored"
  using assms by (auto simp: persist_record_def split: option.splits)

lemma handle_turns:
  assumes "lawful_sink deps"
  shows "observe_records (sd_extractors deps) (stored_by deps cmd x) (with_meta a r (sa_turns x)) =
    Some (stored_by deps cmd x, with_meta a r (sa_turns (snd (handle deps cmd x))))"
proof (cases "\<exists>scope rec. cmd = PersistRecord scope (Some rec)")
  case True
  then obtain scope rec where cmd: "cmd = PersistRecord scope (Some rec)" by blast
  let ?tm = "sa_turns (sync_scope scope x)"
  show ?thesis
  proof (cases "persist_record deps scope rec ?tm")
    case (Inl e)
    then show ?thesis by (simp add: cmd Let_def)
  next
    case (Inr p)
    obtain stored tm' where p: "p = (stored, tm')" by (rule prod.exhaust)
    with Inr obtain rec' where o: "observe_record (sd_extractors deps) rec ?tm = Some (rec', tm')"
      and s: "sd_append deps scope rec' = Some stored"
      by (auto elim: persist_record_cases)
    have "observe_record (sd_extractors deps) stored (with_meta a r ?tm) = Some (stored, with_meta a r tm')"
      using assms s by (intro observe_stored [OF o]) (auto simp: lawful_sink_def)
    then show ?thesis using Inr p by (simp add: cmd Let_def)
  qed
next
  case False
  then show ?thesis
    by (cases cmd) (auto simp: Let_def split: option.splits)
qed

lemma run_actor_turns:
  assumes "\<forall>(deps, _) \<in> set steps. sd_extractors deps = ex \<and> lawful_sink deps" and "run_actor steps x = (stored, x')"
  shows "observe_records ex stored (with_meta a r (sa_turns x)) = Some (stored, with_meta a r (sa_turns x'))"
  using assms
proof (induction steps arbitrary: x stored)
  case (Cons step steps)
  obtain deps cmd where step: "step = (deps, cmd)" by (rule prod.exhaust)
  obtain rest where rest: "run_actor steps (snd (handle deps cmd x)) = (rest, x')" "stored = stored_by deps cmd x @ rest"
    using Cons.prems(2) by (auto simp: step split: prod.splits)
  have "sd_extractors deps = ex" "lawful_sink deps" using Cons.prems(1) by (auto simp: step)
  with handle_turns [of deps cmd x a r] Cons.IH [OF _ rest(1)] Cons.prems(1) show ?case
    by (simp add: rest(2) observe_records_append)
qed simp

subsection \<open>Properties\<close>

lemma new_actor_meta: "with_meta a r (sa_turns (story_actor_new story)) = with_context story a r"
  by (simp add: story_actor_new_def turn_machine_new_def with_context_def with_meta_def)

text \<open>
  C38: The live story and the rebuilt one agree. After any commands (records that the sink accepts,
  refuses or that cannot be decoded or stamped, drafts, flushes, snapshots) the story that the read
  path rebuilds from the records in the sink has exactly the turns of the actor's snapshot, so also
  its count of user turns and its call ids; and replaying stamps every stored record with the turn
  it already carries.
\<close>

theorem story_rebuild_agrees:
  assumes sinks: "\<forall>(deps, _) \<in> set steps. sd_extractors deps = ex \<and> lawful_sink deps"
    and run: "run_actor steps (story_actor_new story) = (stored, actor)"
  shows "map_option fst (observe_records ex stored (with_context story agent run_id)) = Some stored \<and>
    (\<exists>rebuilt. rebuild_story_from_records ex story agent run_id stored = Some rebuilt \<and>
      st_turns rebuilt = st_turns (snapshot (sa_turns actor)) \<and>
      story_user_turn_count rebuilt = story_user_turn_count (snapshot (sa_turns actor)) \<and>
      story_call_ids rebuilt = story_call_ids (snapshot (sa_turns actor)))"
  using run_actor_turns [OF sinks run, of agent run_id]
  by (simp add: new_actor_meta rebuild_story_from_records_def replay_records_def snapshot_def
      story_user_turn_count_def story_call_ids_def)

definition demo_sink :: "bool \<Rightarrow> story_deps" where
  "demo_sink accepts =
    \<lparr>sd_extractors = demo_extractors, sd_append = (\<lambda>_ rec. if accepts then Some (rec\<lparr>er_seq := 7\<rparr>) else None),
     sd_peek_next_seq = (\<lambda>_. None), sd_should_refresh = (\<lambda>_. True), sd_draft_turn = (\<lambda>_ _. None),
     sd_write_draft = (\<lambda>_ _. False)\<rparr>"

definition demo_scope :: StoryScope where
  "demo_scope = \<lparr>sc_storage_session_id = ''run'', sc_agent_id = ''agent'', sc_run_id = Some ''run''\<rparr>"

text \<open>Two turns; the second request is refused once and the draft has no number.\<close>

definition demo_steps :: "(story_deps \<times> StoryCommand) list" where
  "demo_steps =
    [(demo_sink True, PersistRecord demo_scope (Some (demo_records ! 0))),
     (demo_sink False, PersistRecord demo_scope (Some (demo_records ! 1))),
     (demo_sink True, PersistRecord demo_scope (Some (demo_records ! 1))),
     (demo_sink True, UpsertDraft demo_scope (Some (demo_records ! 2, ''h''))),
     (demo_sink True, PersistRecord demo_scope (Some (demo_records ! 2)))]"

theorem story_rebuild_agrees_witness:
  "length (fst (run_actor demo_steps (story_actor_new ''s''))) = 3 \<and>
   (\<exists>rebuilt. rebuild_story_from_records demo_extractors ''s'' ''agent'' None
       (fst (run_actor demo_steps (story_actor_new ''s''))) = Some rebuilt \<and>
     story_user_turn_count rebuilt = 2)"
proof -
  have "\<forall>(deps, _) \<in> set demo_steps. sd_extractors deps = demo_extractors \<and> lawful_sink deps"
    by (auto simp: demo_steps_def demo_sink_def lawful_sink_def split: if_splits)
  moreover have "length (fst (run_actor demo_steps (story_actor_new ''s''))) = 3"
    "story_user_turn_count (snapshot (sa_turns (snd (run_actor demo_steps (story_actor_new ''s''))))) = 2"
    by code_simp+
  ultimately show ?thesis
    using story_rebuild_agrees [of demo_steps demo_extractors "''s''" _ _ "''agent''" None, OF _ surjective_pairing] by auto
qed


end
