(* ===== verification/Spec2Isabelle.thy ===== *)
theory Spec2Isabelle
  imports RunControlObject ControlServer ChronicleControl Coordination Bandwidth Scheduler ApplySafety CaptureRuntime StoryActor
begin

text \<open>
  \<^bold>\<open>The program.\<close> Persisting runs agent workloads and records what they do. A pilot (\<open>src/crates/persisting-ppilot\<close>)
  places tasks and reports their results; a chronicle (\<open>persisting-pchronicle\<close>, served by
  \<open>persisting-pchronicle-cli\<close>, with the protocol in \<open>persisting-events\<close>) owns the runs: who holds the lease of a
  run, which attempt works on it and which result is committed. A supervisor (\<open>persisting-pvisor\<close>) gives every
  attempt a copy-on-write file system (\<open>persisting-overlay-core\<close>) whose changes are later applied to the real
  directory, and a filtered network (\<open>persisting-agentctl\<close>, \<open>persisting-overlaynet\<close>). A gateway
  (\<open>persisting-gateway\<close>) captures the traffic to language models as stories of turns.

  \<^bold>\<open>Foundations.\<close>
  \<^item> \<open>Prelude\<close>, \<open>RustStr\<close>, \<open>BTreeMap\<close>, \<open>LogFile\<close>, \<open>IoMonad\<close>: results, machine words, the methods of \<open>str\<close>, ordered
    maps, files of lines, and fallible state-passing computations with their rules. A Rust \<open>String\<close> is the list of
    its bytes, a \<open>u64\<close> a 64 bit word, a \<open>Result\<close> a sum whose left side is the error. \<open>IoMonad\<close> has the locale
    \<open>op_refinement\<close> that lifts the refinement of single operations to runs.

  \<^bold>\<open>Run control.\<close>
  \<^item> \<open>RunTypes\<close> (\<open>agentctl/src/runtime.rs\<close>): records of leases and commits, names of record files.
  \<^item> \<open>RecordStore\<close>: one record in a local directory (write to a temporary file, sync, rename) or in an object store
    (compare and swap with retries), shared by the stores below. Its lemmas: a crash leaves the old or the new
    record; a successful swap happened atomically; without competing writers it succeeds.
  \<^item> \<open>RunControl\<close>, \<open>RunControlObject\<close> (\<open>pchronicle/src/store/run_control.rs\<close>): acquire, take over, bind, renew, commit.
    At most one commit per run, a lease excludes others until it expires, stale epochs are refused, a committed
    record does not change, and the object backend refines the local one.
  \<^item> \<open>AttemptRegistry\<close> (\<open>store/attempt_registry.rs\<close>): the attempt of a run, fenced by the epoch, and its final result.
  \<^item> \<open>MemoryControl\<close>, \<open>ChronicleControl\<close> (\<open>events/src/control.rs\<close>): the in-memory implementation agrees with the
    store; both are behind one interface (a locale with the laws a client relies on, interpreted on both).
  \<^item> \<open>ControlServer\<close> (\<open>pchronicle-cli/src/control.rs\<close>): frames, tokens and dispatch of the line protocol; a call
    through client and server is the call itself.
  \<^item> \<open>ResultSink\<close>, \<open>Coordination\<close> (\<open>ppilot/src/sink.rs\<close>, \<open>checkpoint.rs\<close>, \<open>coordination.rs\<close>): results are journalled,
    committed, then appended; reconciliation after a crash.
  \<^item> \<open>Scheduler\<close> (\<open>ppilot/src/scheduler.rs\<close>): slots of workers as steps of interleaved tasks.

  \<^bold>\<open>Network.\<close>
  \<^item> \<open>IpAddress\<close>, \<open>IpDisplay\<close>: parsing and printing of addresses as \<open>std::net\<close> does it, and the round trip.
  \<^item> \<open>NetworkPolicy\<close> (\<open>agentctl/src/lib.rs\<close>): rules, their evaluation, and the machine that records decisions.
  \<^item> \<open>EgressPolicy\<close>, \<open>Bandwidth\<close> (\<open>overlaynet/src/policy.rs\<close>, \<open>egress.rs\<close>, \<open>bandwidth.rs\<close>): every address a connection
    may use is justified by a rule and not denied by one; a session never passes more bytes than its limit.

  \<^bold>\<open>Overlay.\<close>
  \<^item> \<open>OverlayCore\<close> (\<open>overlay-core/src/core.rs\<close>): resolution through the layers, copy-up, creation, removal, whiteouts,
    and the journal of first states. Every system call may fail, decided by a function of its number.
  \<^item> \<open>OverlayView\<close>, \<open>OverlayTree\<close>: what a reader sees; without failures the operations refine those of one mutable tree.
  \<^item> \<open>OverlayJournal\<close>: with any failures, every path that differs from the target has its first state in the journal.
  \<^item> \<open>OverlayPlan\<close> (\<open>pvisor/src/runtime/overlay.rs\<close>): the changes of an overlay, selections of them, and the plan: the
    loop that closes a selection ends, with the least closed one.
  \<^item> \<open>OverlayApply\<close> (the same file): checks against the journal, writing the target, pruning the upper directory, the
    ledger, recovery and discarding, over a stage of the two trees, the journal, the ledger and the record.
  \<^item> \<open>ApplyView\<close>, \<open>ApplyResult\<close>: a complete apply leaves the target with the tree that the overlay showed, so that a
    run on the overlay and its apply are the run on the target. \<open>ApplySafety\<close>: a target that changed meanwhile is
    not touched, and an apply that stops leaves what a recovery needs.

  \<^bold>\<open>Capture.\<close>
  \<^item> \<open>EventWal\<close> (\<open>gateway/src/engine/wal.rs\<close>): numbering, the bounded queue, group commit and replay over the bytes of
    the log file.
  \<^item> \<open>CaptureRuntime\<close> (\<open>engine/apply_queue.rs\<close>, \<open>engine/coordinator.rs\<close>): submissions, consumers, restarts and
    shutdowns in any order; a committed event is applied or replayed.
  \<^item> \<open>TurnMachine\<close>, \<open>StoryActor\<close> (\<open>record.rs\<close>, \<open>protocol.rs\<close>, \<open>engine/story\<close>, \<open>engine/actors/story.rs\<close>,
    \<open>engine/egress.rs\<close>): the turns of a story, and the agreement of the live story with the one rebuilt from the
    stored records.

  \<^bold>\<open>Parameters.\<close> Code outside the repository is an argument: \<open>serde_json\<close> and the event images of the log
  (\<open>wal_env\<close>), the object store client, \<open>ipnet\<close>, name resolution and the controller of the network policy, digests,
  clocks, the \<open>globset\<close> crate, the kernel's answers. What is relied on is a named predicate (\<open>wal_codec\<close>, \<open>layer_ok\<close>,
  \<open>stage_ok\<close>, \<open>lawful_sink\<close>, the laws of the object client), and every property that uses one has a witness on a concrete instance.

  \<^bold>\<open>Bounds and simplifications.\<close>
  \<^item> Retry loops have the number of attempts of the code; \<open>record_tree\<close> is called with the depth of the source;
    numbers are words of their width, and properties say where a counter must not wrap (\<open>2 ^ 64\<close> log events,
    \<open>2 ^ 32\<close> turns).
  \<^item> Instants are natural numbers, and the loads of the scheduler are natural numbers. The order in which tasks,
    writers and consumers act is a list of steps, so a property holds for every interleaving of the steps.
  \<^item> In the overlay the upper directory is a list of paths and nodes: hard links have no identity, symbolic links
    inside the upper directory are not followed, the loop over extended attributes is one call, and a copy-up is
    published by the one call that renames it.
  \<^item> In an apply the target is such a list too. Names are UTF-8, reads succeed, the removal of a tree is one call that
    may fail, and a directory keeps its time when an entry of it changes.
  \<^item> A failed write of a log leaves a prefix of its bytes; pages that the kernel lost after a successful sync are
    outside the model.

  \<^bold>\<open>Not modelled.\<close> HTTP and TLS serving, the conversion of provider payloads, the tables of the Lance database and
  the trajectory formats stored in it, processes, virtual machines, mounting and raw snapshots of overlays, and the command lines: they are calls of
  third-party crates and the kernel, whose behaviour the sources do not contain. The vendored crates, the web
  interface and the Python package are not modelled either.
\<close>

end
